(* ===== verification/Prelude.thy ===== *)
theory Prelude
  imports Main "HOL-Library.Word"
begin

text \<open>
  Shared vocabulary of the development: the machine integer types of the Rust sources, the
  standard-library operations on them that the components use (\<open>checked_add\<close>,
  \<open>saturating_sub\<close>, \<open>is_power_of_two\<close>, \<open>trailing_zeros\<close>, iterator \<open>position\<close>), the
  \<open>BTreeMap\<close> of the standard library as a key-sorted association list together with the
  interface the components rely on, and the lemma collections used by the component proofs.

  Conventions: arithmetic follows the release profile of \<^verbatim>\<open>Cargo.toml\<close>, which does not enable
  overflow checks, so \<open>+\<close>, \<open>-\<close> and \<open>*\<close> wrap; a Rust \<open>Result\<close> is a sum with \<open>Inl\<close> for the
  error; a function that can panic returns an \<open>option\<close> whose \<open>None\<close> is the panic.
\<close>

unbundle bit_operations_syntax

section \<open>Types and lemma collections\<close>

type_synonym u8 = "8 word"
type_synonym u16 = "16 word"
type_synonym u32 = "32 word"
type_synonym u64 = "64 word"
type_synonym usize = "64 word"

named_theorems bits_simps \<open>bit-level characterisations of the word operations of the model\<close>
named_theorems bt_simps \<open>lookup and entry laws of the key-sorted association lists\<close>

section \<open>Standard-library operations on machine integers\<close>

definition checked_add :: "'a::len word \<Rightarrow> 'a word \<Rightarrow> 'a word option" where
  "checked_add a b = (if unat a + unat b < 2 ^ LENGTH('a) then Some (a + b) else None)"

definition checked_sub :: "'a::len word \<Rightarrow> 'a word \<Rightarrow> 'a word option" where
  "checked_sub a b = (if b \<le> a then Some (a - b) else None)"

definition saturating_sub :: "'a::len word \<Rightarrow> 'a word \<Rightarrow> 'a word" where
  "saturating_sub a b = (if b \<le> a then a - b else 0)"

definition saturating_add :: "'a::len word \<Rightarrow> 'a word \<Rightarrow> 'a word" where
  "saturating_add a b = (if unat a + unat b < 2 ^ LENGTH('a) then a + b else - 1)"

definition is_power_of_two :: "'a::len word \<Rightarrow> bool" where
  "is_power_of_two w = list_ex (\<lambda>n. w = push_bit n 1) [0..<LENGTH('a)]"

definition trailing_zeros :: "'a::len word \<Rightarrow> nat" where
  "trailing_zeros w = length (takeWhile (\<lambda>i. \<not> bit w i) [0..<LENGTH('a)])"

fun position :: "('a \<Rightarrow> bool) \<Rightarrow> 'a list \<Rightarrow> nat option" where
  "position P [] = None"
| "position P (x # xs) = (if P x then Some 0 else map_option Suc (position P xs))"

text \<open>Overwriting the slice of a buffer that starts at a position.\<close>

definition splice :: "'a list \<Rightarrow> nat \<Rightarrow> 'a list \<Rightarrow> 'a list" where
  "splice d p bs = take p d @ bs @ drop (p + length bs) d"

section \<open>Ordered maps as key-sorted association lists\<close>

type_synonym ('k, 'v) btree = "('k \<times> 'v) list"

fun bt_insert :: "'k::linorder \<Rightarrow> 'v \<Rightarrow> ('k, 'v) btree \<Rightarrow> ('k, 'v) btree" where
  "bt_insert k v [] = [(k, v)]"
| "bt_insert k v ((k', v') # m) =
     (if k < k' then (k, v) # (k', v') # m
      else if k = k' then (k, v) # m
      else (k', v') # bt_insert k v m)"

fun bt_remove :: "'k::linorder \<Rightarrow> ('k, 'v) btree \<Rightarrow> ('k, 'v) btree" where
  "bt_remove k [] = []"
| "bt_remove k ((k', v') # m) = (if k = k' then m else (k', v') # bt_remove k m)"

definition bt_get :: "('k::linorder, 'v) btree \<Rightarrow> 'k \<Rightarrow> 'v option" where
  "bt_get m k = map_of m k"

definition bt_wf :: "('k::linorder, 'v) btree \<Rightarrow> bool" where
  "bt_wf m = sorted_wrt (<) (map fst m)"

section \<open>Lemmas on machine integers\<close>

lemma checked_add_Some_iff [simp]:
  "checked_add a b = Some c \<longleftrightarrow> unat a + unat b < 2 ^ LENGTH('a) \<and> c = a + b"
  for a b c :: "'a::len word"
  by (auto simp: checked_add_def)

lemma checked_add_None_iff [simp]:
  "checked_add a b = None \<longleftrightarrow> 2 ^ LENGTH('a) \<le> unat a + unat b"
  for a b :: "'a::len word"
  by (auto simp: checked_add_def not_less)

lemma checked_sub_Some_iff [simp]: "checked_sub a b = Some c \<longleftrightarrow> b \<le> a \<and> c = a - b"
  by (auto simp: checked_sub_def)

lemma checked_sub_None_iff [simp]: "checked_sub a b = None \<longleftrightarrow> a < b"
  by (auto simp: checked_sub_def)

lemma unat_add_exact:
  "unat a + unat b < 2 ^ LENGTH('a) \<Longrightarrow> unat (a + b) = unat a + unat b"
  for a b :: "'a::len word"
  by (simp add: unat_word_ariths)

lemma unat_sub_exact: "b \<le> a \<Longrightarrow> unat (a - b) = unat a - unat b"
  by (rule unat_sub)

lemma unat_saturating_sub: "unat (saturating_sub a b) = unat a - unat b"
  by (auto simp: saturating_sub_def unat_sub word_le_nat_alt)

lemma unat_saturating_add:
  "unat (saturating_add a b) = min (unat a + unat b) (2 ^ LENGTH('a) - 1)"
  for a b :: "'a::len word"
  by (auto simp: saturating_add_def unat_add_exact unsigned_minus_1_eq_mask mask_eq_exp_minus_1 min_def)

lemma unat_bounded [simp]: "unat (w :: 'a::len word) < 2 ^ LENGTH('a)"
  by (rule unsigned_less)

lemma u64_bound: "unat (w :: u64) < 18446744073709551616"
  using unat_bounded [of w] by simp

lemma u32_bound: "unat (w :: u32) < 4294967296"
  using unat_bounded [of w] by simp

lemma is_power_of_two_iff:
  "is_power_of_two w \<longleftrightarrow> (\<exists>n < LENGTH('a). w = push_bit n 1)" for w :: "'a::len word"
  by (auto simp: is_power_of_two_def list_ex_iff)

lemma is_power_of_two_unat:
  assumes "is_power_of_two (w :: 'a::len word)"
  obtains n where "n < LENGTH('a)" "unat w = 2 ^ n"
proof -
  from assms obtain n where n: "n < LENGTH('a)" and w: "w = push_bit n 1"
    by (auto simp: is_power_of_two_iff)
  have "unat w = 2 ^ n"
    using n by (simp add: w unsigned_push_bit_eq take_bit_push_bit del: push_bit_of_1)
  with n show ?thesis by (rule that)
qed

section \<open>Lemmas on searches\<close>

lemma takeWhile_upt_least:
  assumes "i < n" "P i" "\<And>j. j < i \<Longrightarrow> \<not> P j"
  shows "length (takeWhile (\<lambda>j. \<not> P j) [0..<n]) = i"
proof -
  have "[0..<n] = [0..<i] @ i # [Suc i..<n]"
    using assms(1) by (metis le_add1 less_imp_add_positive upt_add_eq_append upt_conv_Cons
        le_add_same_cancel1 zero_le less_add_same_cancel1)
  moreover have "takeWhile (\<lambda>j. \<not> P j) ([0..<i] @ i # [Suc i..<n]) = [0..<i]"
    using assms(2,3) by (subst takeWhile_append2) auto
  ultimately show ?thesis by simp
qed

lemma trailing_zeros_bound:
  assumes "w \<noteq> (0 :: 'a::len word)"
  shows "trailing_zeros w < LENGTH('a) \<and> bit w (trailing_zeros w)
    \<and> (\<forall>j < trailing_zeros w. \<not> bit w j)"
proof -
  from assms obtain k where k: "bit w k"
    by (metis bit_0_eq bit_eqI bot_apply bot_bool_def)
  define i where "i = (LEAST k. bit w k)"
  have i: "bit w i" and least: "\<And>j. j < i \<Longrightarrow> \<not> bit w j"
    unfolding i_def using k by (auto intro: LeastI dest: not_less_Least)
  from i have "i < LENGTH('a)" by (rule bit_imp_le_length)
  then have "trailing_zeros w = i"
    unfolding trailing_zeros_def using i least by (rule takeWhile_upt_least)
  with \<open>i < LENGTH('a)\<close> i least show ?thesis by simp
qed

lemma position_Some_iff:
  "position P xs = Some i \<longleftrightarrow> i < length xs \<and> P (xs ! i) \<and> (\<forall>j < i. \<not> P (xs ! j))"
proof (induction xs arbitrary: i)
  case Nil
  then show ?case by simp
next
  case (Cons x xs)
  show ?case
  proof (cases i)
    case 0
    then show ?thesis by auto
  next
    case (Suc j)
    then show ?thesis using Cons [of j] by (auto simp: less_Suc_eq_0_disj)
  qed
qed

lemma position_None_iff: "position P xs = None \<longleftrightarrow> (\<forall>x \<in> set xs. \<not> P x)"
  by (induction xs) auto

section \<open>Lemmas on slices\<close>

lemma length_splice [simp]: "p + length bs \<le> length d \<Longrightarrow> length (splice d p bs) = length d"
  by (simp add: splice_def)

lemma nth_splice:
  "p + length bs \<le> length d \<Longrightarrow> j < length d \<Longrightarrow>
    splice d p bs ! j = (if p \<le> j \<and> j < p + length bs then bs ! (j - p) else d ! j)"
  by (auto simp: splice_def nth_append min_def)

lemma splice_Nil [simp]: "splice d p [] = d"
  by (simp add: splice_def)

section \<open>Lemmas on key-sorted association lists\<close>

lemma bt_wf_Nil [simp]: "bt_wf []"
  by (simp add: bt_wf_def)

lemma bt_wf_Cons [simp]: "bt_wf ((k, v) # m) \<longleftrightarrow> (\<forall>x \<in> set m. k < fst x) \<and> bt_wf m"
  by (auto simp: bt_wf_def)

lemma bt_wf_distinct: "bt_wf m \<Longrightarrow> distinct (map fst m)"
  unfolding bt_wf_def by (induction m) auto

lemma bt_get_iff: "bt_wf m \<Longrightarrow> bt_get m k = Some v \<longleftrightarrow> (k, v) \<in> set m"
  by (simp add: bt_get_def bt_wf_distinct)

lemma bt_get_None_iff: "bt_get m k = None \<longleftrightarrow> k \<notin> fst ` set m"
  by (simp add: bt_get_def map_of_eq_None_iff)

lemma bt_insert_get [bt_simps]: "bt_get (bt_insert k v m) = (bt_get m)(k \<mapsto> v)"
  by (rule ext, induction k v m rule: bt_insert.induct) (auto simp: bt_get_def)

lemma bt_insert_keys: "fst ` set (bt_insert k v m) = insert k (fst ` set m)"
  by (induction k v m rule: bt_insert.induct) auto

lemma bt_insert_wf [simp]: "bt_wf m \<Longrightarrow> bt_wf (bt_insert k v m)"
proof (induction k v m rule: bt_insert.induct)
  case (1 k v)
  then show ?case by simp
next
  case (2 k v k' v' m)
  have "\<forall>x \<in> fst ` set (bt_insert k v m). k' < x" if "k' < k"
    using that "2.prems" by (auto simp: bt_insert_keys)
  with 2 show ?case by (auto simp: not_less order.strict_iff_order dest: order.strict_trans)
qed

lemma bt_remove_set: "bt_wf m \<Longrightarrow> set (bt_remove k m) = {e \<in> set m. fst e \<noteq> k}"
  by (induction k m rule: bt_remove.induct) (auto simp: bt_wf_def)

lemma bt_remove_wf [simp]: "bt_wf m \<Longrightarrow> bt_wf (bt_remove k m)"
  by (induction k m rule: bt_remove.induct) (auto simp: bt_remove_set)

lemma bt_remove_get [bt_simps]: "bt_wf m \<Longrightarrow> bt_get (bt_remove k m) = (bt_get m)(k := None)"
proof (rule ext)
  fix k'
  assume wf: "bt_wf m"
  show "bt_get (bt_remove k m) k' = ((bt_get m)(k := None)) k'"
  proof (cases "((bt_get m)(k := None)) k'")
    case None
    then have "k' \<notin> fst ` set (bt_remove k m)"
      using wf by (auto simp: bt_remove_set bt_get_None_iff split: if_splits
          dest: bt_get_None_iff [THEN iffD1])
    with None show ?thesis by (simp add: bt_get_None_iff [THEN iffD2])
  next
    case (Some v)
    then have "(k', v) \<in> set (bt_remove k m)"
      using wf by (auto simp: bt_remove_set bt_get_iff split: if_splits)
    with Some wf show ?thesis by (simp add: bt_get_iff)
  qed
qed

lemma bt_insert_set:
  "bt_wf m \<Longrightarrow> set (bt_insert k v m) = insert (k, v) {e \<in> set m. fst e \<noteq> k}"
  by (induction k v m rule: bt_insert.induct) (auto dest: order.strict_trans)

lemma bt_insert_remove:
  "bt_wf m \<Longrightarrow> bt_get m k = Some v \<Longrightarrow> bt_insert k v (bt_remove k m) = m"
proof (induction k m rule: bt_remove.induct)
  case (1 k)
  then show ?case by (simp add: bt_get_def)
next
  case (2 k k' v' m)
  show ?case
  proof (cases "k = k'")
    case True
    have "bt_insert k v m = (k, v) # m"
      using "2.prems" True by (cases m) (auto simp: bt_get_def)
    with 2 True show ?thesis by (simp add: bt_get_def)
  next
    case False
    with "2.prems" have "bt_get m k = Some v" by (simp add: bt_get_def)
    then have "(k, v) \<in> set m" using "2.prems" by (simp add: bt_get_iff)
    with "2.prems" have "k' < k" by auto
    with 2 False \<open>bt_get m k = Some v\<close> show ?thesis by auto
  qed
qed

section \<open>The interface of an ordered map\<close>

text \<open>
  What the components use of \<open>BTreeMap\<close>: insertion, removal and lookup, with the entries
  visited in increasing key order.
\<close>

locale ordered_map =
  fixes empty :: 'm
    and insert :: "'k::linorder \<Rightarrow> 'v \<Rightarrow> 'm \<Rightarrow> 'm"
    and remove :: "'k \<Rightarrow> 'm \<Rightarrow> 'm"
    and get :: "'m \<Rightarrow> 'k \<Rightarrow> 'v option"
    and entries :: "'m \<Rightarrow> ('k \<times> 'v) list"
    and invar :: "'m \<Rightarrow> bool"
  assumes invar_empty: "invar empty"
    and invar_insert: "invar m \<Longrightarrow> invar (insert k v m)"
    and invar_remove: "invar m \<Longrightarrow> invar (remove k m)"
    and get_empty: "get empty = Map.empty"
    and get_insert: "invar m \<Longrightarrow> get (insert k v m) = (get m)(k \<mapsto> v)"
    and get_remove: "invar m \<Longrightarrow> get (remove k m) = (get m)(k := None)"
    and get_entries: "invar m \<Longrightarrow> get m = map_of (entries m)"
    and entries_sorted: "invar m \<Longrightarrow> sorted_wrt (<) (map fst (entries m))"
begin

lemma remove_insert_fresh:
  "invar m \<Longrightarrow> get m k = None \<Longrightarrow> get (remove k (insert k v m)) = get m"
  by (simp add: get_insert get_remove invar_insert fun_upd_idem)

lemma insert_remove_same:
  "invar m \<Longrightarrow> get m k = Some v \<Longrightarrow> get (insert k v (remove k m)) = get m"
  by (simp add: get_insert get_remove invar_remove fun_upd_idem)

lemma get_iff_entry: "invar m \<Longrightarrow> get m k = Some v \<longleftrightarrow> (k, v) \<in> set (entries m)"
proof -
  assume inv: "invar m"
  have "distinct (map fst (entries m))"
    using entries_sorted [OF inv] by (induction "entries m" rule: list.induct)
      (auto simp: strict_sorted_iff)
  then show ?thesis by (simp add: get_entries [OF inv])
qed

end

interpretation btree: ordered_map "[]" bt_insert bt_remove bt_get "\<lambda>m. m" bt_wf
  by unfold_locales (auto simp: bt_simps bt_get_def bt_wf_def
      bt_remove_wf [unfolded bt_wf_def] bt_insert_wf [unfolded bt_wf_def])

end
