(* ===== verification/AddressAlloc.thy ===== *)
theory AddressAlloc
  imports Prelude
begin

text \<open>
  Address-range allocation, \<^verbatim>\<open>vm-allocator/src/address.rs\<close>: \<open>AddressAllocator\<close> keeps the
  allocated ranges of one address space in a \<open>BTreeMap\<close> from start address to size, with a
  zero-sized entry just past the end as a marker. \<open>GuestAddress\<close> is the address type of the
  vm-memory crate; its arithmetic is a parameter \<open>ops\<close> of the model, and \<open>guest_address_ok\<close>
  states its documented behaviour (the checked operations report overflow, the unchecked ones
  are the integer operations, which wrap in release builds).
\<close>

section \<open>Model\<close>

record guest_address_ops =
  op_checked_add :: "u64 \<Rightarrow> u64 \<Rightarrow> u64 option"
  op_checked_sub :: "u64 \<Rightarrow> u64 \<Rightarrow> u64 option"
  op_unchecked_add :: "u64 \<Rightarrow> u64 \<Rightarrow> u64"
  op_unchecked_sub :: "u64 \<Rightarrow> u64 \<Rightarrow> u64"

datatype address_error = Overflow | Overlap | UnalignedAddress

record address_allocator =
  aa_base :: u64
  aa_end :: u64
  aa_ranges :: "(u64, u64) btree"

definition aa_new :: "guest_address_ops \<Rightarrow> u64 \<Rightarrow> u64 \<Rightarrow> address_allocator option" where
  "aa_new ops base sz =
     (if sz = 0 then None
      else case op_checked_add ops base (sz - 1) of
             None \<Rightarrow> None
           | Some end_addr \<Rightarrow>
               (case op_checked_add ops base sz of
                  None \<Rightarrow> None
                | Some marker \<Rightarrow>
                    Some \<lparr>aa_base = base, aa_end = end_addr, aa_ranges = bt_insert marker 0 []\<rparr>))"

text \<open>Only reached with a power-of-two alignment, which \<open>allocate\<close> checks first.\<close>

definition align_address :: "guest_address_ops \<Rightarrow> u64 \<Rightarrow> u64 \<Rightarrow> u64" where
  "align_address ops address alignment =
     op_unchecked_add ops address
       (if address mod alignment = 0 then 0 else alignment - address mod alignment)"

fun available_range_loop ::
  "guest_address_ops \<Rightarrow> u64 \<Rightarrow> u64 \<Rightarrow> u64 \<Rightarrow> (u64, u64) btree \<Rightarrow> address_error + u64" where
  "available_range_loop ops aligned_address req_size prev_end_address [] = Inl Overflow"
| "available_range_loop ops aligned_address req_size prev_end_address ((address, sz) # ranges) =
     (if aligned_address \<le> address then
        if aligned_address < prev_end_address then Inl Overlap
        else if op_unchecked_sub ops address aligned_address < req_size then Inl Overlap
        else Inr aligned_address
      else available_range_loop ops aligned_address req_size (op_unchecked_add ops address sz) ranges)"

definition available_range ::
  "guest_address_ops \<Rightarrow> address_allocator \<Rightarrow> u64 \<Rightarrow> u64 \<Rightarrow> u64 \<Rightarrow> address_error + u64" where
  "available_range ops a req_address req_size alignment =
     (let aligned_address = align_address ops req_address alignment in
      if aligned_address \<noteq> req_address then Inl UnalignedAddress
      else if aa_end a \<le> aligned_address \<or> aligned_address < aa_base a then Inl Overflow
      else available_range_loop ops aligned_address req_size (aa_base a) (aa_ranges a))"

text \<open>The loop runs over the ranges in reverse order and peeks at the range before the current one.\<close>

fun first_available_loop ::
  "guest_address_ops \<Rightarrow> u64 \<Rightarrow> u64 \<Rightarrow> u64 \<Rightarrow> (u64 \<times> u64) list \<Rightarrow> u64 option" where
  "first_available_loop ops base req_size alignment [] = None"
| "first_available_loop ops base req_size alignment ((address, sz) # ranges) =
     (let prev_end_address =
            (case ranges of [] \<Rightarrow> base | (prev, prev_size) # _ \<Rightarrow> op_unchecked_add ops prev prev_size)
      in case op_checked_sub ops address (align_address ops prev_end_address alignment) of
           Some size_delta \<Rightarrow>
             let adjust = saturating_sub alignment 1 in
             if req_size \<le> size_delta
             then Some (align_address ops (op_unchecked_sub ops address (req_size + adjust)) alignment)
             else first_available_loop ops base req_size alignment ranges
         | None \<Rightarrow> first_available_loop ops base req_size alignment ranges)"

definition first_available_range ::
  "guest_address_ops \<Rightarrow> address_allocator \<Rightarrow> u64 \<Rightarrow> u64 \<Rightarrow> u64 option" where
  "first_available_range ops a req_size alignment =
     first_available_loop ops (aa_base a) req_size alignment (rev (aa_ranges a))"

definition aa_allocate ::
  "guest_address_ops \<Rightarrow> address_allocator \<Rightarrow> u64 option \<Rightarrow> u64 \<Rightarrow> u64 option
     \<Rightarrow> u64 option \<times> address_allocator" where
  "aa_allocate ops a address sz align_size =
     (if sz = 0 then (None, a)
      else
        let alignment = (case align_size of None \<Rightarrow> 4 | Some n \<Rightarrow> n) in
        if \<not> is_power_of_two alignment then (None, a)
        else
          case (case address of
                  Some req_address \<Rightarrow>
                    (case available_range ops a req_address sz alignment of
                       Inr addr \<Rightarrow> Some addr
                     | Inl e \<Rightarrow> None)
                | None \<Rightarrow> first_available_range ops a sz alignment) of
            None \<Rightarrow> (None, a)
          | Some new_addr \<Rightarrow> (Some new_addr, a\<lparr>aa_ranges := bt_insert new_addr sz (aa_ranges a)\<rparr>))"

definition aa_move_range ::
  "guest_address_ops \<Rightarrow> address_allocator \<Rightarrow> u64 \<Rightarrow> u64 \<Rightarrow> u64 \<Rightarrow> u64 option
     \<Rightarrow> u64 option \<times> address_allocator" where
  "aa_move_range ops a old_address new_address sz align_size =
     (if bt_get (aa_ranges a) old_address \<noteq> Some sz then (None, a)
      else
        let a1 = a\<lparr>aa_ranges := bt_remove old_address (aa_ranges a)\<rparr> in
        case aa_allocate ops a1 (Some new_address) sz align_size of
          (Some new_address', a2) \<Rightarrow> (Some new_address', a2)
        | (None, a2) \<Rightarrow> (None, a2\<lparr>aa_ranges := bt_insert old_address sz (aa_ranges a2)\<rparr>))"

definition aa_free :: "address_allocator \<Rightarrow> u64 \<Rightarrow> u64 \<Rightarrow> address_allocator" where
  "aa_free a address sz =
     (case bt_get (aa_ranges a) address of
        Some range_size \<Rightarrow>
          if sz = range_size then a\<lparr>aa_ranges := bt_remove address (aa_ranges a)\<rparr> else a
      | None \<Rightarrow> a)"

section \<open>Specification\<close>

text \<open>Documented behaviour of the address arithmetic of the vm-memory crate.\<close>

definition guest_address_ok :: "guest_address_ops \<Rightarrow> bool" where
  "guest_address_ok ops \<longleftrightarrow>
     (\<forall>x y. op_checked_add ops x y = checked_add x y)
     \<and> (\<forall>x y. op_checked_sub ops x y = checked_sub x y)
     \<and> (\<forall>x y. op_unchecked_add ops x y = x + y)
     \<and> (\<forall>x y. op_unchecked_sub ops x y = x - y)"

definition u64_address_ops :: guest_address_ops where
  "u64_address_ops =
     \<lparr>op_checked_add = checked_add, op_checked_sub = checked_sub,
      op_unchecked_add = (+), op_unchecked_sub = (-)\<rparr>"

text \<open>
  A well-formed allocator: the ranges are disjoint and increasing, begin at or after the base,
  are non-empty except for the marker, and the marker sits just past the last address.
\<close>

definition aa_wf :: "address_allocator \<Rightarrow> bool" where
  "aa_wf a \<longleftrightarrow> aa_base a \<le> aa_end a
     \<and> unat (aa_end a) + 1 < 2 ^ 64
     \<and> bt_wf (aa_ranges a)
     \<and> (aa_end a + 1, 0) \<in> set (aa_ranges a)
     \<and> (\<forall>r \<in> set (aa_ranges a). aa_base a \<le> fst r \<and> fst r \<le> aa_end a + 1
           \<and> (snd r = 0 \<longrightarrow> fst r = aa_end a + 1))
     \<and> (\<forall>r \<in> set (aa_ranges a). \<forall>r' \<in> set (aa_ranges a).
           fst r < fst r' \<longrightarrow> unat (fst r) + unat (snd r) \<le> unat (fst r'))"

text \<open>The addresses that are allocated.\<close>

definition aa_covered :: "address_allocator \<Rightarrow> nat set" where
  "aa_covered a = (\<Union>(b, s) \<in> set (aa_ranges a). {unat b..<unat b + unat s})"

text \<open>The addresses \<open>[x, x + n)\<close> lie in the managed region and meet no allocated range.\<close>

definition is_free_range :: "address_allocator \<Rightarrow> nat \<Rightarrow> nat \<Rightarrow> bool" where
  "is_free_range a x n \<longleftrightarrow> unat (aa_base a) \<le> x \<and> x + n \<le> unat (aa_end a) + 1
     \<and> (\<forall>(b, s) \<in> set (aa_ranges a). x + n \<le> unat b \<or> unat b + unat s \<le> x)"

section \<open>Alignment\<close>

lemma guest_address_simps:
  assumes "guest_address_ok ops"
  shows "op_checked_add ops x y = checked_add x y" "op_checked_sub ops x y = checked_sub x y"
    "op_unchecked_add ops x y = x + y" "op_unchecked_sub ops x y = x - y"
  using assms by (simp_all add: guest_address_ok_def)

definition align_up :: "nat \<Rightarrow> nat \<Rightarrow> nat" where
  "align_up n k = (if k dvd n then n else n + (k - n mod k))"

lemma align_up_dvd: "0 < k \<Longrightarrow> k dvd align_up n k"
proof -
  assume k: "0 < k"
  have "n + (k - n mod k) = k * (n div k) + k"
    using mod_less_divisor [OF k, of n] mult_div_mod_eq [of k n] by linarith
  then show ?thesis by (simp add: align_up_def)
qed

lemma align_up_ge: "n \<le> align_up n k"
  by (simp add: align_up_def)

lemma align_up_less: "0 < k \<Longrightarrow> align_up n k < n + k"
  using mod_less_divisor [of k n] by (auto simp: align_up_def mod_greater_zero_iff_not_dvd)

lemma align_up_least: "0 < k \<Longrightarrow> k dvd m \<Longrightarrow> n \<le> m \<Longrightarrow> align_up n k \<le> m"
proof (rule ccontr)
  assume "0 < k" "k dvd m" "n \<le> m" "\<not> align_up n k \<le> m"
  then have "m < align_up n k" "align_up n k < m + k"
    using align_up_less [of k n] by auto
  moreover have "k dvd align_up n k - m" using \<open>0 < k\<close> \<open>k dvd m\<close> align_up_dvd by simp
  ultimately show False by (auto dest: dvd_imp_le)
qed

lemma unat_align_address:
  assumes "guest_address_ok ops" "unat x + unat k \<le> 2 ^ 64" "0 < unat k"
  shows "unat (align_address ops x k) = align_up (unat x) (unat k)"
proof -
  have m: "unat (x mod k) = unat x mod unat k" by (simp add: unat_mod)
  have le: "x mod k \<le> k" using assms(3) by (simp add: word_le_nat_alt m)
  have eq0: "x mod k = 0 \<longleftrightarrow> unat k dvd unat x"
    by (simp add: unat_eq_0 [symmetric] m mod_eq_0_iff_dvd)
  have "unat x + (unat k - unat x mod unat k) < 2 ^ 64" if "\<not> unat k dvd unat x"
  proof -
    have "0 < unat x mod unat k" using that by (simp add: mod_greater_zero_iff_not_dvd)
    with assms(2,3) show ?thesis by linarith
  qed
  then show ?thesis
    using le by (auto simp: align_address_def guest_address_simps [OF assms(1)] eq0 align_up_def
        unat_sub m unat_add_exact)
qed

lemma align_address_eq_iff:
  assumes "guest_address_ok ops" "is_power_of_two k"
  shows "align_address ops x k = x \<longleftrightarrow> unat k dvd unat x"
proof -
  obtain n where n: "n < 64" "unat k = 2 ^ n" using assms(2) by (rule is_power_of_two_unat) simp
  have m: "unat (x mod k) = unat x mod unat k" by (simp add: unat_mod)
  have eq0: "x mod k = 0 \<longleftrightarrow> unat k dvd unat x"
    by (simp add: unat_eq_0 [symmetric] m mod_eq_0_iff_dvd)
  have "k - x mod k \<noteq> 0"
    using n by (metis m eq_iff_diff_eq_0 mod_less_divisor nat_less_le zero_less_numeral zero_less_power)
  then show ?thesis
    by (auto simp: align_address_def guest_address_simps [OF assms(1)] eq0)
qed

text \<open>
  Aligning \<open>x - (k - 1)\<close> upwards is rounding \<open>x\<close> down, also when the subtraction wraps.
\<close>

lemma align_address_round_down:
  assumes ok: "guest_address_ok ops" and k: "is_power_of_two k"
  shows "unat (align_address ops (x - (k - 1)) k) = unat x div unat k * unat k"
proof -
  obtain n where n: "n < 64" "unat k = 2 ^ n" using k by (rule is_power_of_two_unat) simp
  define K where "K = unat k"
  have K: "0 < K" "K dvd 2 ^ 64"
    unfolding K_def n(2) using n(1) by (simp, intro le_imp_power_dvd, simp)
  have "k \<noteq> 0" using K(1) by (auto simp: K_def)
  then have k1: "unat (k - 1) = K - 1" by (simp add: K_def unat_minus_one)
  define y where "y = x - (k - 1)"
  have ymod: "unat (y mod k) = unat y mod K" by (simp add: unat_mod K_def)
  have res: "unat (align_address ops y k) = align_up (unat y) K mod 2 ^ 64"
  proof (cases "K dvd unat y")
    case True
    then have "y mod k = 0" by (simp add: unat_eq_0 [symmetric] ymod mod_eq_0_iff_dvd)
    with True show ?thesis
      using u64_bound [of y]
      by (simp add: align_address_def guest_address_simps [OF ok] align_up_def)
  next
    case False
    then have "y mod k \<noteq> 0" by (metis ymod mod_eq_0_iff_dvd unat_0)
    moreover have "unat (k - y mod k) = K - unat y mod K"
      using K(1) by (subst unat_sub) (simp_all add: word_le_nat_alt ymod K_def [symmetric])
    ultimately show ?thesis using False
      by (simp add: align_address_def guest_address_simps [OF ok] align_up_def unat_word_ariths)
  qed
  show ?thesis
  proof (cases "K - 1 \<le> unat x")
    case True
    then have y: "unat y = unat x - (K - 1)" unfolding y_def by (subst unat_sub) (simp_all add: word_le_nat_alt k1)
    have "align_up (unat y) K = unat x div K * K"
    proof (rule antisym)
      show "align_up (unat y) K \<le> unat x div K * K"
      proof (rule align_up_least [OF K(1)])
        show "unat y \<le> unat x div K * K"
          using y mod_less_divisor [OF K(1), of "unat x"] by (simp add: minus_mod_eq_div_mult [symmetric])
      qed simp
      show "unat x div K * K \<le> align_up (unat y) K"
      proof (rule ccontr)
        assume "\<not> unat x div K * K \<le> align_up (unat y) K"
        then have lt: "align_up (unat y) K < unat x div K * K" by simp
        then have "K dvd unat x div K * K - align_up (unat y) K" using align_up_dvd [OF K(1)] by simp
        with lt have "K \<le> unat x div K * K - align_up (unat y) K" by (auto dest: dvd_imp_le)
        moreover have "unat x div K * K \<le> unat x" by simp
        ultimately show False using align_up_ge [of "unat y" K] y lt by linarith
      qed
    qed
    moreover have "unat x div K * K < 2 ^ 64"
      using order.strict_trans1 [OF div_times_less_eq_dividend [of _ K] unat_bounded [of x]] by simp
    ultimately show ?thesis using res by (simp add: y_def K_def)
  next
    case False
    have "unat y = 2 ^ 64 + unat x - (K - 1)"
      unfolding y_def using False k1 by (simp add: unat_sub_if' word_le_nat_alt)
    moreover have "K \<le> 2 ^ 64" using K(2) by (auto dest: dvd_imp_le)
    ultimately have y: "unat y < 2 ^ 64" "2 ^ 64 < unat y + K" using False K(1) by auto
    have "align_up (unat y) K = 2 ^ 64"
    proof (rule antisym)
      show "align_up (unat y) K \<le> 2 ^ 64" using align_up_least [OF K] y by simp
      show "2 ^ 64 \<le> align_up (unat y) K"
      proof (rule ccontr)
        assume "\<not> 2 ^ 64 \<le> align_up (unat y) K"
        then have lt: "align_up (unat y) K < 2 ^ 64" by simp
        then have "K dvd 2 ^ 64 - align_up (unat y) K" using align_up_dvd [OF K(1)] K(2) by simp
        with lt have "K \<le> 2 ^ 64 - align_up (unat y) K" by (auto dest: dvd_imp_le)
        then show False using align_up_ge [of "unat y" K] y lt by linarith
      qed
    qed
    with False res show ?thesis by (simp add: y_def K_def)
  qed
qed

section \<open>The search loops\<close>

lemma available_range_loop_eq:
  assumes ok: "guest_address_ok ops" and n: "n \<noteq> 0"
  shows "bt_wf rs \<Longrightarrow> \<forall>r \<in> set rs. p \<le> fst r \<and> (snd r = 0 \<longrightarrow> x < fst r) \<Longrightarrow>
    \<forall>r \<in> set rs. \<forall>r' \<in> set rs. fst r < fst r' \<longrightarrow> unat (fst r) + unat (snd r) \<le> unat (fst r') \<Longrightarrow>
    \<exists>r \<in> set rs. x \<le> fst r \<Longrightarrow>
    available_range_loop ops x n p rs =
      (if p \<le> x \<and> (\<forall>(b, s) \<in> set rs. unat x + unat n \<le> unat b \<or> unat b + unat s \<le> unat x)
       then Inr x else Inl Overlap)"
proof (induction rs arbitrary: p)
  case Nil
  then show ?case by simp
next
  case (Cons r rs)
  obtain b s where r: "r = (b, s)" by (cases r)
  have later: "\<forall>r' \<in> set rs. b < fst r' \<and> unat b + unat s \<le> unat (fst r')"
    using Cons.prems(1,3) by (auto simp: r)
  show ?case
  proof (cases "x \<le> b")
    case True
    have "\<not> unat b + unat s \<le> unat x"
    proof
      assume "unat b + unat s \<le> unat x"
      with True have "unat s = 0" "unat x = unat b" by (auto simp: word_le_nat_alt)
      with Cons.prems(2) show False by (simp add: r unat_eq_0 word_less_nat_alt)
    qed
    moreover have "unat x + unat n \<le> unat b \<Longrightarrow> \<forall>(b, s) \<in> set rs. unat x + unat n \<le> unat b"
      using later by (force simp: word_less_nat_alt)
    moreover have "b - x < n \<longleftrightarrow> \<not> unat x + unat n \<le> unat b"
      using True by (auto simp: word_less_nat_alt unat_sub word_le_nat_alt)
    ultimately show ?thesis
      using True by (auto simp: r guest_address_simps [OF ok])
  next
    case False
    have ex: "\<exists>r \<in> set rs. x \<le> fst r" using Cons.prems(4) False by (auto simp: r)
    then obtain r' where r': "r' \<in> set rs" by blast
    have bs: "unat (b + s) = unat b + unat s"
      using later r' unat_bounded [of "fst r'"] by (intro unat_add_exact) auto
    have "available_range_loop ops x n (b + s) rs =
      (if b + s \<le> x \<and> (\<forall>(b, s) \<in> set rs. unat x + unat n \<le> unat b \<or> unat b + unat s \<le> unat x)
       then Inr x else Inl Overlap)"
      using Cons.prems later ex by (intro Cons.IH) (auto simp: r word_le_nat_alt bs)
    moreover have "p \<le> x" using Cons.prems(2) False by (auto simp: r)
    moreover have "\<not> unat x + unat n \<le> unat b" using False by (auto simp: word_le_nat_alt)
    ultimately show ?thesis using False
      by (simp add: r guest_address_simps [OF ok] word_le_nat_alt bs)
  qed
qed

lemma available_range_eq:
  assumes ok: "guest_address_ok ops" and wf: "aa_wf a" and n: "n \<noteq> 0" and k: "is_power_of_two k"
  shows "available_range ops a x n k =
    (if \<not> unat k dvd unat x then Inl UnalignedAddress
     else if aa_end a \<le> x \<or> x < aa_base a then Inl Overflow
     else if is_free_range a (unat x) (unat n) then Inr x else Inl Overlap)"
proof (cases "unat k dvd unat x \<and> x < aa_end a \<and> aa_base a \<le> x")
  case True
  have e1: "unat (aa_end a + 1) = unat (aa_end a) + 1"
    using wf by (subst unat_add_exact) (auto simp: aa_wf_def)
  have "\<exists>r \<in> set (aa_ranges a). x \<le> fst r"
    using wf True e1 by (intro bexI [of _ "(aa_end a + 1, 0)"]) (auto simp: aa_wf_def word_le_nat_alt word_less_nat_alt)
  then have "available_range_loop ops x n (aa_base a) (aa_ranges a) =
      (if aa_base a \<le> x \<and> (\<forall>(b, s) \<in> set (aa_ranges a).
          unat x + unat n \<le> unat b \<or> unat b + unat s \<le> unat x)
       then Inr x else Inl Overlap)"
    using wf True e1
    by (intro available_range_loop_eq [OF ok n]) (auto simp: aa_wf_def word_less_nat_alt word_le_nat_alt)
  moreover have "(\<forall>(b, s) \<in> set (aa_ranges a). unat x + unat n \<le> unat b \<or> unat b + unat s \<le> unat x)
      \<longleftrightarrow> is_free_range a (unat x) (unat n)"
    using wf True e1 by (force simp: is_free_range_def aa_wf_def word_le_nat_alt word_less_nat_alt)
  ultimately show ?thesis
    using True align_address_eq_iff [OF ok k, of x] by (auto simp: available_range_def Let_def)
next
  case False
  then show ?thesis
    using align_address_eq_iff [OF ok k, of x] by (auto simp: available_range_def Let_def not_le)
qed

text \<open>
  What the reverse scan has established about the entries \<open>rs\<close> it has yet to visit: \<open>x\<close> starts
  a free range of \<open>n\<close> addresses that ends at or before one of them.
\<close>

definition fits_below :: "u64 \<Rightarrow> nat \<Rightarrow> (u64 \<times> u64) list \<Rightarrow> nat \<Rightarrow> bool" where
  "fits_below base n rs x \<longleftrightarrow> unat base \<le> x \<and> (\<exists>(g, s) \<in> set rs. x + n \<le> unat g)
     \<and> (\<forall>(b, s) \<in> set rs. x + n \<le> unat b \<or> unat b + unat s \<le> x)"

definition greatest_aligned :: "nat \<Rightarrow> (nat \<Rightarrow> bool) \<Rightarrow> nat option \<Rightarrow> bool" where
  "greatest_aligned k P r =
     (case r of
        None \<Rightarrow> \<forall>x. k dvd x \<longrightarrow> \<not> P x
      | Some y \<Rightarrow> k dvd y \<and> P y \<and> (\<forall>x. k dvd x \<longrightarrow> P x \<longrightarrow> x \<le> y))"

lemma greatest_aligned_cong:
  "(\<And>x. k dvd x \<Longrightarrow> P x = Q x) \<Longrightarrow> greatest_aligned k P r = greatest_aligned k Q r"
  by (auto simp: greatest_aligned_def split: option.splits)

text \<open>One step of the scan: the gap that ends at \<open>g\<close> and starts at \<open>p\<close>.\<close>

lemma gap_too_small:
  assumes "0 < k" "n \<noteq> (0::nat)"
    and below: "\<forall>(b, s) \<in> set rs. unat b + unat s \<le> p \<and> unat b \<le> unat g"
    and pdef: "p = (case rs of [] \<Rightarrow> unat base | (b, s) # _ \<Rightarrow> unat b + unat s)"
    and small: "\<not> align_up p k + n \<le> unat g" and dvd: "k dvd x"
  shows "fits_below base n ((g, t) # rs) x = fits_below base n rs x"
proof
  assume f: "fits_below base n ((g, t) # rs) x"
  have xg: "x + n \<le> unat g" using f below by (fastforce simp: fits_below_def)
  have "x < p"
  proof (rule ccontr)
    assume "\<not> x < p"
    then have "align_up p k \<le> x" using align_up_least [OF assms(1) dvd] by simp
    with small xg show False by simp
  qed
  then show "fits_below base n rs x"
    using f pdef by (cases rs) (auto simp: fits_below_def)
next
  assume "fits_below base n rs x"
  then show "fits_below base n ((g, t) # rs) x" using below by (fastforce simp: fits_below_def)
qed

lemma gap_fits:
  assumes "0 < k" "n \<noteq> (0::nat)"
    and below: "\<forall>(b, s) \<in> set rs. unat b + unat s \<le> p \<and> unat b \<le> unat g"
    and base: "unat base \<le> p" and fits: "align_up p k + n \<le> unat g"
  shows "greatest_aligned k (fits_below base n ((g, t) # rs)) (Some ((unat g - n) div k * k))"
proof -
  define y where "y = (unat g - n) div k * k"
  have dy: "k dvd y" by (simp add: y_def)
  have "y \<le> unat g - n" unfolding y_def by (rule div_times_less_eq_dividend)
  with fits have yg: "y + n \<le> unat g" by linarith
  have max: "x \<le> y" if "k dvd x" "x + n \<le> unat g" for x
  proof -
    from that(1) obtain m where x: "x = k * m" ..
    then have "m * k \<le> unat g - n" using that(2) by (simp add: mult.commute)
    then have "m \<le> (unat g - n) div k" using assms(1) by (simp add: less_eq_div_iff_mult_less_eq)
    then show ?thesis by (simp add: x y_def mult.commute)
  qed
  have "align_up p k \<le> y" using max [of "align_up p k"] align_up_dvd [OF assms(1)] fits by simp
  then have py: "p \<le> y" using align_up_ge [of p k] by simp
  have "fits_below base n ((g, t) # rs) y"
    using yg py base below by (fastforce simp: fits_below_def)
  moreover have "x \<le> y" if "k dvd x" "fits_below base n ((g, t) # rs) x" for x
    using max [OF that(1)] that(2) below by (fastforce simp: fits_below_def)
  ultimately show ?thesis using dy by (simp add: greatest_aligned_def y_def)
qed

lemma first_available_loop_spec:
  assumes ok: "guest_address_ok ops" and n: "n \<noteq> 0" and k: "is_power_of_two k"
  shows "bt_wf (rev rs) \<Longrightarrow> \<forall>r \<in> set rs. base \<le> fst r \<and> unat (fst r) + unat k \<le> 2 ^ 64 \<Longrightarrow>
    \<forall>r \<in> set rs. \<forall>r' \<in> set rs. fst r < fst r' \<longrightarrow> unat (fst r) + unat (snd r) \<le> unat (fst r') \<Longrightarrow>
    greatest_aligned (unat k) (fits_below base (unat n) rs)
      (map_option unat (first_available_loop ops base n k rs))"
proof (induction rs)
  case Nil
  then show ?case by (simp add: greatest_aligned_def fits_below_def)
next
  case (Cons r rs)
  obtain g t where r: "r = (g, t)" by (cases r)
  have K: "0 < unat k" using k by (auto elim: is_power_of_two_unat)
  have below: "\<forall>r' \<in> set rs. fst r' < g \<and> unat (fst r') + unat (snd r') \<le> unat g"
    using Cons.prems(1,3) by (auto simp: r bt_wf_def sorted_wrt_append)
  define pw where "pw = (case rs of [] \<Rightarrow> base | (b, s) # _ \<Rightarrow> op_unchecked_add ops b s)"
  define p where "p = (case rs of [] \<Rightarrow> unat base | (b, s) # _ \<Rightarrow> unat b + unat s)"
  have pw: "unat pw = p" "p \<le> unat g" "unat base \<le> p"
  proof -
    show "unat pw = p" using below unat_bounded [of g]
      by (cases rs) (auto simp: pw_def p_def unat_add_exact guest_address_simps [OF ok] split: prod.splits)
    show "p \<le> unat g" "unat base \<le> p" using below Cons.prems(2)
      by (cases rs; force simp: p_def r word_le_nat_alt split: prod.splits)+
  qed
  have gap: "\<forall>(b, s) \<in> set rs. unat b + unat s \<le> p \<and> unat b \<le> unat g"
  proof (cases rs)
    case Nil
    then show ?thesis by simp
  next
    case hs: (Cons h hs)
    obtain b s where h: "h = (b, s)" by (cases h)
    have "\<forall>q \<in> set hs. fst q < b" using Cons.prems(1) hs
      by (auto simp: bt_wf_def sorted_wrt_append h)
    then have "\<forall>q \<in> set hs. unat (fst q) + unat (snd q) \<le> unat b"
      using Cons.prems(3) hs h by auto
    with hs h below show ?thesis
      by (auto simp: p_def word_less_nat_alt intro: order.trans le_add1)
  qed
  have pk: "p + unat k \<le> 2 ^ 64" using Cons.prems(2) pw(2) by (auto simp: r)
  have al: "unat (align_address ops pw k) = align_up p (unat k)"
    using unat_align_address [OF ok, of pw k] pk K pw(1) by simp
  have step: "first_available_loop ops base n k (r # rs) =
      (if align_up p (unat k) + unat n \<le> unat g
       then Some (align_address ops (g - (n + (k - 1))) k)
       else first_available_loop ops base n k rs)"
  proof -
    have "saturating_sub k 1 = k - 1" using K by (auto simp: saturating_sub_def word_le_nat_alt)
    moreover have "(case checked_sub g (align_address ops pw k) of None \<Rightarrow> False | Some d \<Rightarrow> n \<le> d)
        \<longleftrightarrow> align_up p (unat k) + unat n \<le> unat g"
      by (auto simp: checked_sub_def word_le_nat_alt al unat_sub)
    ultimately show ?thesis
      by (auto simp: r guest_address_simps(2,4) [OF ok] Let_def pw_def [symmetric] checked_sub_def
          split: option.splits if_splits)
  qed
  show ?case
  proof (cases "align_up p (unat k) + unat n \<le> unat g")
    case True
    have ng: "n \<le> g" using True by (simp add: word_le_nat_alt)
    have eq: "g - (n + (k - 1)) = (g - n) - (k - 1)" by simp
    have "unat (align_address ops (g - (n + (k - 1))) k) = (unat g - unat n) div unat k * unat k"
      unfolding eq align_address_round_down [OF ok k] unat_sub [OF ng] ..
    with True step gap_fits [OF K _ gap pw(3) True, of t] n show ?thesis
      by (simp add: r unat_eq_0)
  next
    case False
    have IH: "greatest_aligned (unat k) (fits_below base (unat n) rs)
      (map_option unat (first_available_loop ops base n k rs))"
      using Cons.prems by (intro Cons.IH) (auto simp: bt_wf_def sorted_wrt_append)
    have same: "fits_below base (unat n) (r # rs) x = fits_below base (unat n) rs x"
      if "unat k dvd x" for x
      unfolding r using n by (intro gap_too_small [OF K _ gap p_def False that]) (simp add: unat_eq_0)
    show ?thesis
      unfolding step if_not_P [OF False]
      by (subst greatest_aligned_cong [OF same]) (assumption | rule IH)+
  qed
qed

lemma first_available_range_spec:
  assumes ok: "guest_address_ok ops" and wf: "aa_wf a" and n: "n \<noteq> 0" and k: "is_power_of_two k"
    and room: "unat (aa_end a) + 1 + unat k \<le> 2 ^ 64"
  shows "greatest_aligned (unat k) (\<lambda>x. is_free_range a x (unat n))
    (map_option unat (first_available_range ops a n k))"
proof -
  have e1: "unat (aa_end a + 1) = unat (aa_end a) + 1"
    using wf by (subst unat_add_exact) (auto simp: aa_wf_def)
  have "greatest_aligned (unat k) (fits_below (aa_base a) (unat n) (rev (aa_ranges a)))
    (map_option unat (first_available_range ops a n k))"
    unfolding first_available_range_def
    using wf room e1
    by (intro first_available_loop_spec [OF ok n k]) (force simp: aa_wf_def word_le_nat_alt)+
  moreover have "fits_below (aa_base a) (unat n) (rev (aa_ranges a)) = (\<lambda>x. is_free_range a x (unat n))"
  proof
    fix x
    have "unat (fst r) \<le> unat (aa_end a + 1)" if "r \<in> set (aa_ranges a)" for r
      using wf that by (simp add: aa_wf_def word_le_nat_alt)
    moreover have "(aa_end a + 1, 0) \<in> set (aa_ranges a)" using wf by (simp add: aa_wf_def)
    ultimately have "(\<exists>(g, s) \<in> set (aa_ranges a). x + unat n \<le> unat g) \<longleftrightarrow> x + unat n \<le> unat (aa_end a + 1)"
      by (auto intro: order.trans)
    then have "(\<exists>(g, s) \<in> set (aa_ranges a). x + unat n \<le> unat g) \<longleftrightarrow> x + unat n \<le> unat (aa_end a) + 1"
      by (simp only: e1)
    then show "fits_below (aa_base a) (unat n) (rev (aa_ranges a)) x = is_free_range a x (unat n)"
      by (simp add: fits_below_def is_free_range_def)
  qed
  ultimately show ?thesis by simp
qed

section \<open>Updates of the range map\<close>

lemma bt_remove_insert_fresh: "bt_get m k = None \<Longrightarrow> bt_remove k (bt_insert k v m) = m"
  by (induction k v m rule: bt_insert.induct) (auto simp: bt_get_def split: if_splits)

lemma free_range_fresh:
  assumes "aa_wf a" "is_free_range a (unat x) (unat n)" "n \<noteq> 0"
  shows "bt_get (aa_ranges a) x = None"
proof -
  have n: "0 < unat n" using assms(3) by (simp add: unat_gt_0)
  have e1: "unat (aa_end a + 1) = unat (aa_end a) + 1"
    using assms(1) by (subst unat_add_exact) (auto simp: aa_wf_def)
  have "(x, s) \<notin> set (aa_ranges a)" for s
  proof
    assume s: "(x, s) \<in> set (aa_ranges a)"
    then have "unat s = 0" using assms(2) n by (force simp: is_free_range_def)
    then have "x = aa_end a + 1" using assms(1) s by (force simp: aa_wf_def unat_eq_0)
    with assms(2) n e1 show False by (simp add: is_free_range_def)
  qed
  then show ?thesis by (auto simp: bt_get_None_iff)
qed

lemma aa_insert_wf:
  assumes wf: "aa_wf a" and free: "is_free_range a (unat x) (unat n)" and n: "n \<noteq> 0"
  shows "aa_wf (a\<lparr>aa_ranges := bt_insert x n (aa_ranges a)\<rparr>)"
proof -
  have fresh: "\<forall>e \<in> set (aa_ranges a). fst e \<noteq> x"
    using free_range_fresh [OF wf free n] by (auto simp: bt_get_None_iff)
  have set: "set (bt_insert x n (aa_ranges a)) = insert (x, n) (set (aa_ranges a))"
    using wf fresh by (auto simp: bt_insert_set aa_wf_def)
  have e1: "unat (aa_end a + 1) = unat (aa_end a) + 1"
    using wf by (subst unat_add_exact) (auto simp: aa_wf_def)
  have n0: "0 < unat n" using n by (simp add: unat_gt_0)
  have x: "aa_base a \<le> x" "x \<le> aa_end a + 1" "unat x + unat n \<le> unat (aa_end a) + 1"
    using free n0 by (auto simp: is_free_range_def word_le_nat_alt e1)
  have before: "unat b + unat s \<le> unat x" if "(b, s) \<in> set (aa_ranges a)" "b < x" for b s
    using free that by (force simp: is_free_range_def word_less_nat_alt)
  have after: "unat x + unat n \<le> unat b" if "(b, s) \<in> set (aa_ranges a)" "x < b" for b s
    using free that by (force simp: is_free_range_def word_less_nat_alt)
  have "\<forall>r \<in> set (bt_insert x n (aa_ranges a)). \<forall>r' \<in> set (bt_insert x n (aa_ranges a)).
      fst r < fst r' \<longrightarrow> unat (fst r) + unat (snd r) \<le> unat (fst r')"
    using wf before after unfolding set by (auto simp: aa_wf_def)
  then show ?thesis using wf x n unfolding aa_wf_def by (simp add: set)
qed

lemma aa_insert_covered:
  assumes "aa_wf a" "is_free_range a (unat x) (unat n)" "n \<noteq> 0"
  shows "aa_covered (a\<lparr>aa_ranges := bt_insert x n (aa_ranges a)\<rparr>)
      = {unat x..<unat x + unat n} \<union> aa_covered a"
    and "aa_covered a \<inter> {unat x..<unat x + unat n} = {}"
proof -
  have "\<forall>e \<in> set (aa_ranges a). fst e \<noteq> x"
    using free_range_fresh [OF assms] by (auto simp: bt_get_None_iff)
  then have "set (bt_insert x n (aa_ranges a)) = insert (x, n) (set (aa_ranges a))"
    using assms(1) by (auto simp: bt_insert_set aa_wf_def)
  then show "aa_covered (a\<lparr>aa_ranges := bt_insert x n (aa_ranges a)\<rparr>)
      = {unat x..<unat x + unat n} \<union> aa_covered a" by (simp add: aa_covered_def)
  show "aa_covered a \<inter> {unat x..<unat x + unat n} = {}"
    using assms(2) by (force simp: aa_covered_def is_free_range_def)
qed

lemma aa_remove_wf:
  assumes "aa_wf a" "bt_get (aa_ranges a) x = Some n" "n \<noteq> 0"
  shows "aa_wf (a\<lparr>aa_ranges := bt_remove x (aa_ranges a)\<rparr>)"
proof -
  have wf: "bt_wf (aa_ranges a)" using assms(1) by (simp add: aa_wf_def)
  have "(aa_end a + 1, 0) \<in> set (aa_ranges a)" using assms(1) by (simp add: aa_wf_def)
  then have "x \<noteq> aa_end a + 1"
    using assms(2,3) wf by (auto simp: bt_get_iff [symmetric])
  then show ?thesis using assms(1) wf unfolding aa_wf_def by (auto simp: bt_remove_set)
qed

lemma aa_new_wf:
  assumes "guest_address_ok ops" "aa_new ops base sz = Some a"
  shows "aa_wf a \<and> aa_covered a = {} \<and> aa_base a = base \<and> unat (aa_end a) = unat base + unat sz - 1"
proof -
  have sz: "sz \<noteq> 0" and "unat base + unat sz < 2 ^ 64"
    and a: "a = \<lparr>aa_base = base, aa_end = base + (sz - 1), aa_ranges = [(base + sz, 0)]\<rparr>"
    using assms by (auto simp: aa_new_def guest_address_simps split: if_splits option.splits)
  moreover have "0 < unat sz" using sz by (simp add: unat_gt_0)
  moreover have "unat (base + (sz - 1)) = unat base + (unat sz - 1)"
    using calculation by (subst unat_add_exact) (auto simp: unat_minus_one)
  moreover have "unat (base + sz) = unat base + unat sz"
    using calculation by (simp add: unat_add_exact)
  ultimately show ?thesis
    by (auto simp: aa_wf_def aa_covered_def word_le_nat_alt add.commute)
qed

section \<open>Properties\<close>

lemma aa_allocate_at_eq:
  assumes ok: "guest_address_ok ops" and wf: "aa_wf a"
  defines "k \<equiv> \<lambda>al. case al of None \<Rightarrow> 4 | Some n \<Rightarrow> n"
  shows "aa_allocate ops a (Some x) n al =
    (if n \<noteq> 0 \<and> is_power_of_two (k al) \<and> unat (k al) dvd unat x \<and> x < aa_end a
        \<and> is_free_range a (unat x) (unat n)
     then (Some x, a\<lparr>aa_ranges := bt_insert x n (aa_ranges a)\<rparr>) else (None, a))"
proof (cases "n \<noteq> 0 \<and> is_power_of_two (k al)")
  case True
  then have "available_range ops a x n (k al) =
    (if \<not> unat (k al) dvd unat x then Inl UnalignedAddress
     else if aa_end a \<le> x \<or> x < aa_base a then Inl Overflow
     else if is_free_range a (unat x) (unat n) then Inr x else Inl Overlap)"
    by (intro available_range_eq [OF ok wf]) simp_all
  moreover have "is_free_range a (unat x) (unat n) \<Longrightarrow> aa_base a \<le> x"
    by (simp add: is_free_range_def word_le_nat_alt)
  ultimately show ?thesis using True
    by (auto simp: aa_allocate_def Let_def k_def not_le not_less)
next
  case False
  then show ?thesis by (auto simp: aa_allocate_def Let_def k_def)
qed

text \<open>
  C14: allocation at a requested address, completely. The request is granted, at exactly that
  address, if and only if the size is non-zero, the alignment is a power of two that divides the
  address, the address lies strictly below the last address of the region and the requested range
  is inside the region and meets no allocated range; otherwise nothing changes. A granted range
  keeps the allocator well-formed and adds exactly its addresses to the allocated ones.
\<close>
theorem aa_allocate_at:
  assumes "guest_address_ok ops" "aa_wf a"
  shows "(let k = (case al of None \<Rightarrow> 4 | Some n \<Rightarrow> n);
              ok = (n \<noteq> 0 \<and> is_power_of_two k \<and> unat k dvd unat x \<and> x < aa_end a
                    \<and> is_free_range a (unat x) (unat n));
              (r, a') = aa_allocate ops a (Some x) n al
          in r = (if ok then Some x else None) \<and> aa_wf a'
           \<and> (if ok then aa_covered a \<inter> {unat x..<unat x + unat n} = {}
                       \<and> aa_covered a' = aa_covered a \<union> {unat x..<unat x + unat n}
              else a' = a))"
  unfolding aa_allocate_at_eq [OF assms] Let_def
  using assms aa_insert_wf [OF assms(2)] aa_insert_covered [OF assms(2)] by (simp add: Un_commute)

text \<open>
  C13: allocation without a requested address returns the greatest aligned address at which the
  range fits, and fails only if it fits nowhere. The proviso is that aligning an address of the
  region upwards does not leave the 64-bit address space.
\<close>
theorem aa_allocate_any:
  assumes ok: "guest_address_ok ops" and wf: "aa_wf a" and n: "n \<noteq> 0" and k: "is_power_of_two k"
    and room: "unat (aa_end a) + 1 + unat k \<le> 2 ^ 64"
  shows "case aa_allocate ops a None n (Some k) of
      (None, a') \<Rightarrow> a' = a \<and> (\<forall>x. unat k dvd x \<longrightarrow> \<not> is_free_range a x (unat n))
    | (Some y, a') \<Rightarrow> unat k dvd unat y \<and> is_free_range a (unat y) (unat n)
        \<and> (\<forall>x. unat k dvd x \<longrightarrow> is_free_range a x (unat n) \<longrightarrow> x \<le> unat y)
        \<and> aa_wf a' \<and> aa_covered a \<inter> {unat y..<unat y + unat n} = {}
        \<and> aa_covered a' = aa_covered a \<union> {unat y..<unat y + unat n}"
proof (cases "first_available_range ops a n k")
  case None
  with first_available_range_spec [OF ok wf n k room] n k show ?thesis
    by (simp add: aa_allocate_def greatest_aligned_def)
next
  case (Some y)
  then have g: "unat k dvd unat y" "is_free_range a (unat y) (unat n)"
    "\<forall>x. unat k dvd x \<longrightarrow> is_free_range a x (unat n) \<longrightarrow> x \<le> unat y"
    using first_available_range_spec [OF ok wf n k room] by (simp_all add: greatest_aligned_def)
  have "aa_allocate ops a None n (Some k) = (Some y, a\<lparr>aa_ranges := bt_insert y n (aa_ranges a)\<rparr>)"
    using Some n k by (simp add: aa_allocate_def)
  with g aa_insert_wf [OF wf g(2) n] aa_insert_covered [OF wf g(2) n] show ?thesis
    by (simp add: Un_commute Int_commute)
qed


text \<open>
  C33: moving a range. The move succeeds if and only if the old range is allocated with exactly
  that size and the new range could be allocated once the old one is gone (so it may overlap the
  old one); a failed move leaves the allocator exactly as it was.
\<close>
theorem aa_move_range_outcomes:
  assumes ok: "guest_address_ok ops" and wf: "aa_wf a"
  shows "(let a1 = a\<lparr>aa_ranges := bt_remove old (aa_ranges a)\<rparr>;
              (r, a') = aa_move_range ops a old new n al
          in if n \<noteq> 0 \<and> bt_get (aa_ranges a) old = Some n
                \<and> fst (aa_allocate ops a1 (Some new) n al) \<noteq> None
             then r = Some new \<and> aa_wf a' \<and> bt_get (aa_ranges a') new = Some n
                \<and> aa_covered a' = aa_covered a1 \<union> {unat new..<unat new + unat n}
             else r = None \<and> a' = a)"
proof (cases "n \<noteq> 0 \<and> bt_get (aa_ranges a) old = Some n")
  case True
  define a1 where "a1 = a\<lparr>aa_ranges := bt_remove old (aa_ranges a)\<rparr>"
  have wf1: "aa_wf a1" unfolding a1_def using True wf by (intro aa_remove_wf) auto
  have undo: "a1\<lparr>aa_ranges := bt_insert old n (aa_ranges a1)\<rparr> = a"
    using True wf by (simp add: a1_def bt_insert_remove aa_wf_def)
  show ?thesis
    using True undo aa_insert_wf [OF wf1] aa_insert_covered [OF wf1] aa_allocate_at_eq [OF ok wf1]
    unfolding aa_move_range_def Let_def a1_def [symmetric] by (auto simp: bt_simps)
next
  case False
  show ?thesis
  proof (cases "bt_get (aa_ranges a) old = Some n")
    case True
    with False have "n = 0" by simp
    with True wf show ?thesis
      by (simp add: aa_move_range_def aa_allocate_def Let_def bt_insert_remove aa_wf_def)
  qed (simp add: aa_move_range_def)
qed

text \<open>
  C34: releasing a zero-sized range at the end marker is not a no-op. It removes the marker, after
  which every request at an address inside an otherwise empty region is refused.
\<close>
theorem aa_free_marker:
  assumes "guest_address_ok ops" "aa_new ops base sz = Some a"
  shows "aa_ranges (aa_free a (base + sz) 0) = []
    \<and> fst (aa_allocate ops (aa_free a (base + sz) 0) (Some x) n (Some k)) = None"
proof -
  have "aa_ranges (aa_free a (base + sz) 0) = []"
    using assms(1,2)
    by (auto simp: aa_new_def guest_address_simps aa_free_def bt_get_def split: if_splits option.splits)
  then show ?thesis by (simp add: aa_allocate_def available_range_def Let_def split: sum.splits)
qed

section \<open>Witnesses\<close>

lemma u64_address_ops_ok: "guest_address_ok u64_address_ops"
  by (simp add: guest_address_ok_def u64_address_ops_def)

lemma aa_new_example:
  "aa_new u64_address_ops 0x1000 0x10000 =
     Some \<lparr>aa_base = 0x1000, aa_end = 0x10FFF, aa_ranges = [(0x11000, 0)]\<rparr>"
  by (simp add: aa_new_def u64_address_ops_def checked_add_def)

lemmas aa_example_wf = aa_new_wf [OF u64_address_ops_ok aa_new_example, THEN conjunct1]

lemma is_power_of_two_example: "is_power_of_two (4 :: u64)" "is_power_of_two (256 :: u64)"
  unfolding is_power_of_two_iff by (rule exI [of _ 2], simp, rule exI [of _ 8], simp)

lemma aa_example_free:
  "is_free_range \<lparr>aa_base = 0x1000, aa_end = 0x10FFF, aa_ranges = [(0x11000, 0)]\<rparr> 0x1200 0x800"
  by (simp add: is_free_range_def)

theorem aa_allocate_at_witness:
  "fst (aa_allocate u64_address_ops
      \<lparr>aa_base = 0x1000, aa_end = 0x10FFF, aa_ranges = [(0x11000, 0)]\<rparr> (Some 0x1200) 0x800 None)
   = Some 0x1200"
  using aa_allocate_at [OF u64_address_ops_ok aa_example_wf,
      where al = None and n = "0x800" and x = "0x1200"]
    is_power_of_two_example(1) aa_example_free
  by (simp add: case_prod_unfold Let_def)

theorem aa_allocate_any_witness:
  "\<exists>y a'. aa_allocate u64_address_ops
      \<lparr>aa_base = 0x1000, aa_end = 0x10FFF, aa_ranges = [(0x11000, 0)]\<rparr> None 0x800 (Some 256) = (Some y, a')
    \<and> unat y mod 256 = 0 \<and> 0x1200 \<le> unat y \<and> aa_wf a'"
proof -
  have r: "unat (aa_end \<lparr>aa_base = 0x1000, aa_end = 0x10FFF, aa_ranges = [(0x11000, 0)]\<rparr>) + 1
      + unat (256 :: u64) \<le> 2 ^ 64" by simp
  have n: "(0x800 :: u64) \<noteq> 0" by simp
  note t = aa_allocate_any [OF u64_address_ops_ok aa_example_wf n is_power_of_two_example(2) r]
  have d: "(256 :: nat) dvd 0x1200" by simp
  show ?thesis
    using t d aa_example_free
    by (cases "aa_allocate u64_address_ops \<lparr>aa_base = 0x1000, aa_end = 0x10FFF,
          aa_ranges = [(0x11000, 0)]\<rparr> None 0x800 (Some 256)") (fastforce split: option.splits)
qed


theorem aa_move_range_outcomes_witness:
  "aa_move_range u64_address_ops
      \<lparr>aa_base = 0x1000, aa_end = 0x10FFF, aa_ranges = [(0x11000, 0)]\<rparr> 0x1200 0x1400 0x800 None
   = (None, \<lparr>aa_base = 0x1000, aa_end = 0x10FFF, aa_ranges = [(0x11000, 0)]\<rparr>)"
  using aa_move_range_outcomes [OF u64_address_ops_ok aa_example_wf,
      where old = "0x1200" and new = "0x1400" and n = "0x800" and al = None]
  by (simp add: bt_get_def case_prod_unfold prod_eq_iff Let_def)

theorem aa_free_marker_witness:
  "fst (aa_allocate u64_address_ops
      (aa_free \<lparr>aa_base = 0x1000, aa_end = 0x10FFF, aa_ranges = [(0x11000, 0)]\<rparr> 0x11000 0)
      (Some 0x1200) 0x800 (Some 4)) = None"
  using aa_free_marker [OF u64_address_ops_ok aa_new_example,
      where x = "0x1200" and n = "0x800" and k = 4] by simp

end
