(* ===== verification/IdAllocator.thy ===== *)
theory IdAllocator
  imports Prelude
begin

text \<open>
  The contract shared by the allocators of numbers (interrupt vectors, PCI slots): a state
  hands out identifiers of a finite pool and takes them back. What follows from the contract
  alone is proved here once: identifiers held at the same time are distinct, and exactly as
  many identifiers as the pool holds can be handed out.
\<close>

fun take_n :: "('s \<Rightarrow> ('i \<times> 's) option) \<Rightarrow> nat \<Rightarrow> 's \<Rightarrow> ('i list \<times> 's) option" where
  "take_n alloc 0 s = Some ([], s)"
| "take_n alloc (Suc n) s =
     (case alloc s of
        None \<Rightarrow> None
      | Some (i, s') \<Rightarrow>
          (case take_n alloc n s' of
             None \<Rightarrow> None
           | Some (is, s'') \<Rightarrow> Some (i # is, s'')))"

locale id_allocator =
  fixes alloc :: "'s \<Rightarrow> ('i \<times> 's) option"
    and free :: "'s \<Rightarrow> 'i \<Rightarrow> 's option"
    and used :: "'s \<Rightarrow> 'i set"
    and pool :: "'s \<Rightarrow> 'i set"
    and invar :: "'s \<Rightarrow> bool"
  assumes pool_finite: "invar s \<Longrightarrow> finite (pool s)"
    and used_pool: "invar s \<Longrightarrow> used s \<subseteq> pool s"
    and alloc_None: "invar s \<Longrightarrow> alloc s = None \<longleftrightarrow> pool s \<subseteq> used s"
    and alloc_fresh: "invar s \<Longrightarrow> alloc s = Some (i, s') \<Longrightarrow> i \<in> pool s - used s"
    and alloc_used: "invar s \<Longrightarrow> alloc s = Some (i, s') \<Longrightarrow> used s' = insert i (used s)"
    and alloc_pool: "invar s \<Longrightarrow> alloc s = Some (i, s') \<Longrightarrow> pool s' = pool s"
    and alloc_invar: "invar s \<Longrightarrow> alloc s = Some (i, s') \<Longrightarrow> invar s'"
    and free_None: "invar s \<Longrightarrow> free s i = None \<longleftrightarrow> i \<notin> used s"
    and free_used: "invar s \<Longrightarrow> free s i = Some s' \<Longrightarrow> used s' = used s - {i}"
    and free_pool: "invar s \<Longrightarrow> free s i = Some s' \<Longrightarrow> pool s' = pool s"
    and free_invar: "invar s \<Longrightarrow> free s i = Some s' \<Longrightarrow> invar s'"
begin

lemmas alloc_laws = alloc_fresh alloc_used alloc_pool alloc_invar

lemma take_n_result:
  "invar s \<Longrightarrow> take_n alloc n s = Some (is, s') \<Longrightarrow>
     length is = n \<and> distinct is \<and> set is \<subseteq> pool s - used s
     \<and> used s' = used s \<union> set is \<and> pool s' = pool s \<and> invar s'"
proof (induction n arbitrary: s "is" s')
  case 0
  then show ?case by simp
next
  case (Suc n)
  then obtain i s1 js where a: "alloc s = Some (i, s1)"
    and t: "take_n alloc n s1 = Some (js, s')" and "is": "is = i # js"
    by (auto split: option.splits)
  note laws = alloc_laws [OF Suc.prems(1) a]
  from Suc.IH [OF laws(4) t] laws "is" show ?case by auto
qed

lemma take_n_total:
  "invar s \<Longrightarrow> take_n alloc n s \<noteq> None \<longleftrightarrow> n \<le> card (pool s - used s)"
proof (induction n arbitrary: s)
  case 0
  then show ?case by simp
next
  case (Suc n)
  show ?case
  proof (cases "alloc s")
    case None
    then have "pool s - used s = {}" using Suc.prems by (auto simp: alloc_None)
    then have "card (pool s - used s) = 0" by (simp only: card.empty)
    with None show ?thesis by simp
  next
    case (Some r)
    then obtain i s1 where a: "alloc s = Some (i, s1)" by (cases r) auto
    note laws = alloc_laws [OF Suc.prems a]
    have "pool s - used s = insert i (pool s1 - used s1)"
      using laws by auto
    moreover have "i \<notin> pool s1 - used s1" using laws by auto
    ultimately have "card (pool s - used s) = Suc (card (pool s1 - used s1))"
      using pool_finite [OF laws(4)] by simp
    moreover have "take_n alloc (Suc n) s \<noteq> None \<longleftrightarrow> take_n alloc n s1 \<noteq> None"
      using a by (auto split: option.splits)
    ultimately show ?thesis using Suc.IH [OF laws(4)] by simp
  qed
qed

lemma free_alloc_restores:
  assumes "invar s" "alloc s = Some (i, s1)"
  obtains s2 where "free s1 i = Some s2" "used s2 = used s" "pool s2 = pool s" "invar s2"
proof -
  note laws = alloc_laws [OF assms]
  then obtain s2 where s2: "free s1 i = Some s2"
    using free_None [OF laws(4), of i] by (cases "free s1 i") auto
  show ?thesis
    using that [OF s2] free_used [OF laws(4) s2] free_pool [OF laws(4) s2] free_invar [OF laws(4) s2]
      laws by auto
qed

end

end
