(* ===== verification/InterruptAlloc.thy ===== *)
theory InterruptAlloc
  imports IdAllocator
begin

text \<open>
  Interrupt-number allocation, \<^verbatim>\<open>vm-allocator/src/gsi.rs\<close>: the bitmap-backed
  \<open>InterruptAllocator\<close> and the x86-64 \<open>GsiAllocator\<close> that owns one of them for IRQs and one
  for GSIs. The bitmap is a list of 64-bit words (\<open>usize\<close> on the 64-bit targets). The abstract
  specification is a set of allocated vectors inside a fixed range from which the least free
  vector is taken.
\<close>

section \<open>Model\<close>

datatype interrupt_alloc_error =
    ExhaustedError u32
  | AlreadyFree u32
  | OutOfRange u32 u32 u32

record gsi_apic =
  apic_base :: u32
  apic_irqs :: u32

definition MAX_GUEST_IRQS :: u32 where
  "MAX_GUEST_IRQS = 4096"

record interrupt_allocator =
  ia_words :: "usize list"
  ia_offset :: u32
  ia_size :: u32

definition last_word_mask :: "u32 \<Rightarrow> usize" where
  "last_word_mask sz =
     (let rem = unat sz mod 64 in if rem = 0 then 0 else NOT (push_bit rem 1 - 1))"

definition ia_new :: "u32 \<Rightarrow> u32 \<Rightarrow> interrupt_allocator option" where
  "ia_new sz offset =
     (if sz = 0 then None
      else if checked_add offset sz = None then None
      else
        let num_words = (unat sz + 63) div 64;
            words = replicate num_words 0
        in Some \<lparr>ia_words = words[num_words - 1 := last_word_mask sz],
                 ia_offset = offset, ia_size = sz\<rparr>)"

definition word_and_bit :: "u32 \<Rightarrow> nat \<times> nat" where
  "word_and_bit vector = (unat vector div 64, unat vector mod 64)"

definition ia_alloc ::
  "interrupt_allocator \<Rightarrow> ((interrupt_alloc_error + u32) \<times> interrupt_allocator) option" where
  "ia_alloc s =
     (case position (\<lambda>w. w \<noteq> - 1) (ia_words s) of
        None \<Rightarrow> Some (Inl (ExhaustedError (ia_size s)), s)
      | Some idx \<Rightarrow>
          let word = ia_words s ! idx;
              bitpos = trailing_zeros (NOT word);
              word' = word OR push_bit bitpos 1;
              vector = idx * 64 + bitpos
          in if vector < 2 ^ 32
             then Some (Inr (of_nat vector + ia_offset s),
                        s\<lparr>ia_words := (ia_words s)[idx := word']\<rparr>)
             else None)"

definition ia_free ::
  "interrupt_allocator \<Rightarrow> u32 \<Rightarrow> ((interrupt_alloc_error + unit) \<times> interrupt_allocator) option" where
  "ia_free s vector =
     (let lo = ia_offset s; hi = lo + ia_size s in
      if \<not> (lo \<le> vector \<and> vector < hi)
      then Some (Inl (OutOfRange vector (ia_offset s) (ia_offset s + ia_size s)), s)
      else
        let idx = (if vector < ia_offset s then ia_offset s - vector else vector - ia_offset s);
            (w, b) = word_and_bit idx;
            msk = push_bit b 1
        in if w < length (ia_words s)
           then if ia_words s ! w AND msk = 0
                then Some (Inl (AlreadyFree vector), s)
                else Some (Inr (), s\<lparr>ia_words := (ia_words s)[w := ia_words s ! w AND NOT msk]\<rparr>)
           else None)"

record gsi_allocator =
  ga_apics :: "(u32, u32) btree"
  ga_irqs :: interrupt_allocator
  ga_gsis :: interrupt_allocator

fun max_or_zero :: "u32 list \<Rightarrow> u32" where
  "max_or_zero [] = 0"
| "max_or_zero (x # xs) = fold max xs x"

fun min_or_zero :: "u32 list \<Rightarrow> u32" where
  "min_or_zero [] = 0"
| "min_or_zero (x # xs) = fold min xs x"

definition ga_new :: "gsi_apic list \<Rightarrow> gsi_allocator option" where
  "ga_new apics =
     (let next_irq = min_or_zero (map apic_base apics);
          next_gsi = max_or_zero (map (\<lambda>a. apic_base a + apic_irqs a) apics);
          irqs = sum_list (map apic_irqs apics);
          allocator_apics = fold (\<lambda>a. bt_insert (apic_base a) (apic_irqs a)) apics [];
          gsis = MAX_GUEST_IRQS - next_gsi
      in case ia_new irqs next_irq of
           None \<Rightarrow> None
         | Some irq_alloc \<Rightarrow>
             (case ia_new gsis next_gsi of
                None \<Rightarrow> None
              | Some gsi_alloc \<Rightarrow>
                  Some \<lparr>ga_apics = allocator_apics, ga_irqs = irq_alloc, ga_gsis = gsi_alloc\<rparr>))"

definition allocate_gsi ::
  "gsi_allocator \<Rightarrow> ((interrupt_alloc_error + u32) \<times> gsi_allocator) option" where
  "allocate_gsi g =
     map_option (\<lambda>(r, a). (r, g\<lparr>ga_gsis := a\<rparr>)) (ia_alloc (ga_gsis g))"

definition free_gsi ::
  "gsi_allocator \<Rightarrow> u32 \<Rightarrow> ((interrupt_alloc_error + unit) \<times> gsi_allocator) option" where
  "free_gsi g vector =
     map_option (\<lambda>(r, a). (r, g\<lparr>ga_gsis := a\<rparr>)) (ia_free (ga_gsis g) vector)"

definition allocate_irq ::
  "gsi_allocator \<Rightarrow> ((interrupt_alloc_error + u32) \<times> gsi_allocator) option" where
  "allocate_irq g =
     (case ia_alloc (ga_irqs g) of
        None \<Rightarrow> None
      | Some (Inl e, a) \<Rightarrow> Some (Inl e, g\<lparr>ga_irqs := a\<rparr>)
      | Some (Inr next_irq, a) \<Rightarrow>
          if list_ex (\<lambda>(base, irqs). base \<le> next_irq \<and> next_irq < base + irqs) (ga_apics g)
          then Some (Inr next_irq, g\<lparr>ga_irqs := a\<rparr>)
          else
            (case ia_free a next_irq of
               None \<Rightarrow> None
             | Some (Inl e, a') \<Rightarrow> Some (Inl e, g\<lparr>ga_irqs := a'\<rparr>)
             | Some (Inr _, a') \<Rightarrow>
                 Some (Inl (ExhaustedError (ia_size a')), g\<lparr>ga_irqs := a'\<rparr>)))"

section \<open>Invariant and abstraction\<close>

text \<open>Bit \<open>i\<close> of the bitmap, counted across the words.\<close>

definition bit_at :: "usize list \<Rightarrow> nat \<Rightarrow> bool" where
  "bit_at ws i = bit (ws ! (i div 64)) (i mod 64)"

definition ia_wf :: "interrupt_allocator \<Rightarrow> bool" where
  "ia_wf s \<longleftrightarrow> ia_size s \<noteq> 0
     \<and> unat (ia_offset s) + unat (ia_size s) < 2 ^ 32
     \<and> length (ia_words s) = (unat (ia_size s) + 63) div 64
     \<and> (\<forall>i \<in> {unat (ia_size s)..<64 * length (ia_words s)}. bit_at (ia_words s) i)"

definition ia_range :: "interrupt_allocator \<Rightarrow> nat set" where
  "ia_range s = {unat (ia_offset s)..<unat (ia_offset s) + unat (ia_size s)}"

definition ia_used :: "interrupt_allocator \<Rightarrow> nat set" where
  "ia_used s = {v \<in> ia_range s. bit_at (ia_words s) (v - unat (ia_offset s))}"

text \<open>The abstract allocator: the least vector of \<open>[lo, hi)\<close> outside the allocated set.\<close>

definition spec_alloc :: "nat \<Rightarrow> nat \<Rightarrow> nat set \<Rightarrow> nat option" where
  "spec_alloc lo hi A = List.find (\<lambda>v. v \<notin> A) [lo..<hi]"

section \<open>The bitmap\<close>

lemma bit_last_word_mask:
  "b < 64 \<Longrightarrow> bit (last_word_mask sz) b \<longleftrightarrow> unat sz mod 64 \<noteq> 0 \<and> unat sz mod 64 \<le> b"
proof -
  assume b: "b < 64"
  have "push_bit n 1 - 1 = (mask n :: usize)" for n
    by (simp add: mask_eq_exp_minus_1 push_bit_of_1)
  with b show ?thesis
    by (auto simp: last_word_mask_def Let_def bit_not_iff bit_mask_iff not_less)
qed

lemma bit_at_update:
  assumes "i div 64 < length ws" "j < length ws"
  shows "bit_at (ws[j := w]) i = (if i div 64 = j then bit w (i mod 64) else bit_at ws i)"
  using assms by (simp add: bit_at_def nth_list_update)

lemma bit_at_set:
  assumes "i < 64 * length ws" "j < length ws" "b < 64"
  shows "bit_at (ws[j := ws ! j OR 2 ^ b]) i \<longleftrightarrow> bit_at ws i \<or> i = j * 64 + b"
proof -
  have "i div 64 < length ws" using assms(1) by (simp add: less_mult_imp_div_less mult.commute)
  moreover have "i = j * 64 + b \<longleftrightarrow> i div 64 = j \<and> i mod 64 = b"
    using assms(3) by auto
  ultimately show ?thesis
    using assms(2,3)
    by (cases "i div 64 = j") (auto simp: bit_at_def bit_or_iff push_bit_of_1 bit_exp_iff)
qed

lemma bit_at_clear:
  assumes "i < 64 * length ws" "j < length ws" "b < 64"
  shows "bit_at (ws[j := ws ! j AND NOT (2 ^ b)]) i \<longleftrightarrow> bit_at ws i \<and> i \<noteq> j * 64 + b"
proof -
  have "i div 64 < length ws" using assms(1) by (simp add: less_mult_imp_div_less mult.commute)
  moreover have "i = j * 64 + b \<longleftrightarrow> i div 64 = j \<and> i mod 64 = b"
    using assms(3) by auto
  ultimately show ?thesis
    using assms(2,3)
    by (cases "i div 64 = j") (auto simp: bit_at_def bit_and_iff bit_not_iff push_bit_of_1
        bit_exp_iff)
qed

lemma and_push_bit_eq_0_iff:
  "b < 64 \<Longrightarrow> (w AND 2 ^ b = 0) \<longleftrightarrow> \<not> bit w b" for w :: usize
  by (auto simp: bit_eq_iff [where 'a = usize] bit_and_iff push_bit_of_1 bit_exp_iff)

lemma neq_max_iff_free_bit: "(w :: usize) \<noteq> - 1 \<longleftrightarrow> (\<exists>b < 64. \<not> bit w b)"
proof
  assume "w \<noteq> - 1"
  then obtain n where "bit w n \<noteq> bit (- 1 :: usize) n" by (auto simp: bit_eq_iff)
  then show "\<exists>b < 64. \<not> bit w b" by (auto simp: bit_minus_1_iff dest: bit_imp_le_length)
qed (auto simp: bit_minus_1_iff)

text \<open>The position search and the trailing-zero count find the least clear bit of the bitmap.\<close>

lemma least_clear_bit:
  assumes pos: "position (\<lambda>w. w \<noteq> - 1) ws = Some idx"
  defines "b \<equiv> trailing_zeros (NOT (ws ! idx))"
  shows "idx < length ws" "b < 64" "\<not> bit_at ws (idx * 64 + b)"
    "\<And>i. i < idx * 64 + b \<Longrightarrow> bit_at ws i"
proof -
  from pos have len: "idx < length ws" and ne: "ws ! idx \<noteq> - 1"
    and before: "\<forall>j < idx. ws ! j = - 1" by (auto simp: position_Some_iff)
  show "idx < length ws" by (rule len)
  have "NOT (ws ! idx) \<noteq> 0"
    using ne by (metis bit.compl_zero bit.double_compl)
  note tz = trailing_zeros_bound [OF this, folded b_def]
  then show b: "b < 64" by simp
  show "\<not> bit_at ws (idx * 64 + b)"
    using tz b by (simp add: bit_at_def bit_not_iff)
  fix i assume i: "i < idx * 64 + b"
  show "bit_at ws i"
  proof (cases "i div 64 = idx")
    case True
    then have "i mod 64 < b" using i by (metis add_less_cancel_left div_mult_mod_eq)
    with tz b True show ?thesis by (auto simp: bit_at_def bit_not_iff)
  next
    case False
    with i b have "i div 64 < idx" by linarith
    with before show ?thesis by (simp add: bit_at_def bit_minus_1_iff)
  qed
qed

lemma full_bitmap:
  assumes "position (\<lambda>w. w \<noteq> - 1) ws = None" "i < 64 * length ws"
  shows "bit_at ws i"
proof -
  have "i div 64 < length ws" using assms(2) by (simp add: less_mult_imp_div_less mult.commute)
  then have "ws ! (i div 64) = - 1" using assms(1) by (auto simp: position_None_iff)
  then show ?thesis by (simp add: bit_at_def bit_minus_1_iff)
qed

section \<open>Refinement of the abstract allocator\<close>

lemma find_upt_Some:
  assumes "lo \<le> v" "v < hi" "v \<notin> A" "\<And>u. lo \<le> u \<Longrightarrow> u < v \<Longrightarrow> u \<in> A"
  shows "List.find (\<lambda>v. v \<notin> A) [lo..<hi] = Some v"
proof -
  have "[lo..<hi] = [lo..<v] @ v # [Suc v..<hi]"
    using assms(1,2) by (metis less_imp_le_nat le_Suc_ex upt_add_eq_append upt_conv_Cons)
  moreover have "List.find (\<lambda>v. v \<notin> A) ([lo..<v] @ v # vs) = Some v" for vs
    using assms(3,4) by (auto simp: find_Some_iff nth_append intro!: exI [of _ "v - lo"])
  ultimately show ?thesis by simp
qed

lemma ia_wf_words_cover:
  assumes "ia_wf s"
  shows "unat (ia_size s) \<le> 64 * length (ia_words s)"
  using assms by (auto simp: ia_wf_def)

lemma last_word_bits:
  assumes "64 * k < m" "m \<le> 64 * k + 64" "(r::nat) < 64"
  shows "(m mod 64 \<noteq> 0 \<and> m mod 64 \<le> r) \<longleftrightarrow> m \<le> 64 * k + r"
proof -
  obtain d where m: "m = 64 * k + d" and d: "0 < d" "d \<le> 64"
    using assms(1,2) by (metis add_le_cancel_left less_imp_add_positive)
  then show ?thesis using assms(3) by (cases "d = 64") auto
qed

lemma ia_new_wf:
  assumes "ia_new sz offset = Some s"
  shows "ia_wf s \<and> ia_used s = {}
    \<and> ia_range s = {unat offset..<unat offset + unat sz}"
proof -
  define n where "n = (unat sz + 63) div 64"
  from assms have sz: "sz \<noteq> 0" and ov: "unat offset + unat sz < 2 ^ 32"
    and s: "s = \<lparr>ia_words = (replicate n 0)[n - 1 := last_word_mask sz],
                 ia_offset = offset, ia_size = sz\<rparr>"
    by (auto simp: ia_new_def Let_def n_def split: if_splits)
  have "unat sz \<noteq> 0" using sz by (simp add: unat_eq_0)
  then have n: "0 < n" "64 * (n - 1) < unat sz" "unat sz \<le> 64 * n"
    unfolding n_def by linarith+
  have bits: "bit_at (ia_words s) i \<longleftrightarrow> unat sz \<le> i" if "i < 64 * n" for i
  proof (cases "i div 64 = n - 1")
    case True
    then have i: "i = 64 * (n - 1) + i mod 64" by (metis mult_div_mod_eq)
    have "bit_at (ia_words s) i \<longleftrightarrow> unat sz mod 64 \<noteq> 0 \<and> unat sz mod 64 \<le> i mod 64"
      using True n(1) by (simp add: s bit_at_def bit_last_word_mask)
    also have "\<dots> \<longleftrightarrow> unat sz \<le> 64 * (n - 1) + i mod 64"
      using n by (intro last_word_bits) auto
    finally show ?thesis using i by simp
  next
    case False
    with that have "i div 64 < n - 1" using n(1) by linarith
    then have "\<not> bit_at (ia_words s) i" by (simp add: s bit_at_def)
    moreover have "i < unat sz" using \<open>i div 64 < n - 1\<close> n(2) by linarith
    ultimately show ?thesis by simp
  qed
  have "bit_at (ia_words s) i = (unat sz \<le> i)" if "i < unat sz" for i
    using bits that n(3) by auto
  with bits sz ov show ?thesis
    by (auto simp: ia_wf_def ia_used_def ia_range_def s n_def)
qed

text \<open>
  Allocation never panics on a well-formed allocator; it agrees with the abstract allocator on
  which vector is returned, on the new set of allocated vectors and on exhaustion.
\<close>

lemma ia_alloc_refines:
  assumes wf: "ia_wf s"
  shows "\<exists>r s'. ia_alloc s = Some (r, s') \<and> ia_wf s' \<and> ia_range s' = ia_range s
    \<and> ia_size s' = ia_size s \<and> ia_offset s' = ia_offset s
    \<and> (case spec_alloc (unat (ia_offset s)) (unat (ia_offset s) + unat (ia_size s)) (ia_used s) of
         None \<Rightarrow> r = Inl (ExhaustedError (ia_size s)) \<and> s' = s
       | Some v \<Rightarrow> r = Inr (of_nat v) \<and> v \<in> ia_range s \<and> v \<notin> ia_used s
           \<and> ia_used s' = insert v (ia_used s))"
proof (cases "position (\<lambda>w. w \<noteq> - 1) (ia_words s)")
  case None
  have "ia_used s = ia_range s"
    using full_bitmap [OF None] ia_wf_words_cover [OF wf] by (auto simp: ia_used_def ia_range_def)
  then have "spec_alloc (unat (ia_offset s)) (unat (ia_offset s) + unat (ia_size s)) (ia_used s) = None"
    by (auto simp: spec_alloc_def find_None_iff ia_range_def)
  with None wf show ?thesis by (simp add: ia_alloc_def)
next
  case (Some idx)
  define b where "b = trailing_zeros (NOT (ia_words s ! idx))"
  define k where "k = idx * 64 + b"
  note clear = least_clear_bit [OF Some, folded b_def, folded k_def]
  have kw: "k < 64 * length (ia_words s)" using clear(1,2) unfolding k_def by linarith
  have k: "k < unat (ia_size s)" using wf clear(3) kw by (force simp: ia_wf_def)
  then have k32: "k < 2 ^ 32" "k + unat (ia_offset s) < 2 ^ 32" using wf by (auto simp: ia_wf_def)
  define s' where "s' = s\<lparr>ia_words := (ia_words s)[idx := ia_words s ! idx OR 2 ^ b]\<rparr>"
  have alloc: "ia_alloc s = Some (Inr (of_nat k + ia_offset s), s')"
    using Some k32 by (simp add: ia_alloc_def Let_def b_def k_def s'_def)
  have bits: "bit_at (ia_words s') i \<longleftrightarrow> bit_at (ia_words s) i \<or> i = k"
    if "i < 64 * length (ia_words s)" for i
    using that clear(1,2) unfolding s'_def k_def by (simp add: bit_at_set)
  have wf': "ia_wf s'" using wf bits by (auto simp: ia_wf_def s'_def)
  define v where "v = k + unat (ia_offset s)"
  have v: "v \<in> ia_range s" "v \<notin> ia_used s"
    using k clear(3) by (auto simp: v_def ia_range_def ia_used_def)
  have used': "ia_used s' = insert v (ia_used s)"
    using bits v ia_wf_words_cover [OF wf] k
    by (auto simp: ia_used_def ia_range_def s'_def v_def)
  have "spec_alloc (unat (ia_offset s)) (unat (ia_offset s) + unat (ia_size s)) (ia_used s) = Some v"
    unfolding spec_alloc_def
    using v clear(4) by (intro find_upt_Some) (auto simp: ia_range_def ia_used_def v_def)
  moreover have "of_nat k + ia_offset s = of_nat v" by (simp add: v_def)
  moreover have "ia_range s' = ia_range s" by (simp add: ia_range_def s'_def)
  ultimately show ?thesis using alloc wf' v used' by (simp add: s'_def)
qed

lemma ia_free_out_of_range:
  assumes "ia_wf s" "unat v \<notin> ia_range s"
  shows "ia_free s v = Some (Inl (OutOfRange v (ia_offset s) (ia_offset s + ia_size s)), s)"
proof -
  have "unat (ia_offset s + ia_size s) = unat (ia_offset s) + unat (ia_size s)"
    using assms(1) by (simp add: ia_wf_def unat_add_exact)
  with assms(2) show ?thesis
    by (auto simp: ia_free_def Let_def ia_range_def word_le_nat_alt word_less_nat_alt)
qed

lemma ia_free_in_range:
  assumes wf: "ia_wf s" and r: "unat v \<in> ia_range s"
  shows "\<exists>s'. ia_free s v = Some (if unat v \<in> ia_used s then Inr () else Inl (AlreadyFree v), s')
    \<and> ia_wf s' \<and> ia_range s' = ia_range s \<and> ia_used s' = ia_used s - {unat v}
    \<and> ia_size s' = ia_size s \<and> ia_offset s' = ia_offset s"
proof -
  have sum: "unat (ia_offset s + ia_size s) = unat (ia_offset s) + unat (ia_size s)"
    using wf by (simp add: ia_wf_def unat_add_exact)
  have le: "ia_offset s \<le> v" and lt: "v < ia_offset s + ia_size s"
    using r sum by (auto simp: ia_range_def word_le_nat_alt word_less_nat_alt)
  define i where "i = unat v - unat (ia_offset s)"
  have i: "unat (v - ia_offset s) = i" using le by (simp add: i_def unat_sub)
  have isz: "i < unat (ia_size s)" using r by (auto simp: i_def ia_range_def)
  define w b where "w = i div 64" and "b = i mod 64"
  have iw: "i = w * 64 + b" "b < 64" by (simp_all add: w_def b_def)
  have i64: "i < 64 * length (ia_words s)" using isz ia_wf_words_cover [OF wf] by simp
  then have w: "w < length (ia_words s)" by (simp add: w_def less_mult_imp_div_less mult.commute)
  have set_iff: "(ia_words s ! w AND 2 ^ b = 0) \<longleftrightarrow> \<not> bit_at (ia_words s) i"
    using iw(2) by (simp add: and_push_bit_eq_0_iff bit_at_def w_def b_def)
  have used: "unat v \<in> ia_used s \<longleftrightarrow> bit_at (ia_words s) i"
    using r by (simp add: ia_used_def i_def)
  define s' where "s' = s\<lparr>ia_words := (ia_words s)[w := ia_words s ! w AND NOT (2 ^ b)]\<rparr>"
  have free: "ia_free s v =
      Some (if bit_at (ia_words s) i then (Inr (), s') else (Inl (AlreadyFree v), s))"
    using le lt w set_iff not_less [THEN iffD2, OF le]
    by (simp add: ia_free_def Let_def word_and_bit_def i w_def b_def s'_def)
  have bits: "bit_at (ia_words s') j \<longleftrightarrow> bit_at (ia_words s) j \<and> j \<noteq> i"
    if "j < 64 * length (ia_words s)" for j
    using that w iw unfolding s'_def by (simp add: bit_at_clear)
  have "ia_wf s'" using wf bits isz by (auto simp: ia_wf_def s'_def)
  moreover have "ia_used s' = ia_used s - {unat v}"
    using bits ia_wf_words_cover [OF wf] r
    by (auto simp: ia_used_def ia_range_def s'_def i_def)
  moreover have "ia_range s' = ia_range s" by (simp add: ia_range_def s'_def)
  ultimately show ?thesis using free used wf by (auto simp: s'_def)
qed

section \<open>The bitmap allocator implements the allocator contract\<close>

definition ia_take :: "interrupt_allocator \<Rightarrow> (nat \<times> interrupt_allocator) option" where
  "ia_take s = (case ia_alloc s of Some (Inr v, s') \<Rightarrow> Some (unat v, s') | _ \<Rightarrow> None)"

definition ia_give :: "interrupt_allocator \<Rightarrow> nat \<Rightarrow> interrupt_allocator option" where
  "ia_give s v =
     (if v < 2 ^ 32 then case ia_free s (of_nat v) of Some (Inr _, s') \<Rightarrow> Some s' | _ \<Rightarrow> None
      else None)"

lemma ia_range_unat:
  assumes "ia_wf s" "v \<in> ia_range s"
  shows "v < 2 ^ 32" "unat (of_nat v :: u32) = v"
proof -
  show *: "v < 2 ^ 32" using assms by (auto simp: ia_wf_def ia_range_def)
  then show "unat (of_nat v :: u32) = v" by (simp add: unat_of_nat take_bit_nat_eq_self)
qed

lemma ia_take_cases:
  assumes "ia_wf s"
  shows "ia_take s = None \<and> ia_range s \<subseteq> ia_used s
    \<or> (\<exists>v s'. ia_take s = Some (v, s') \<and> v \<in> ia_range s \<and> v \<notin> ia_used s
        \<and> ia_used s' = insert v (ia_used s) \<and> ia_range s' = ia_range s \<and> ia_wf s')"
proof -
  obtain r s' where "ia_alloc s = Some (r, s')" "ia_wf s'" "ia_range s' = ia_range s"
    and sp: "case spec_alloc (unat (ia_offset s)) (unat (ia_offset s) + unat (ia_size s)) (ia_used s) of
         None \<Rightarrow> r = Inl (ExhaustedError (ia_size s)) \<and> s' = s
       | Some v \<Rightarrow> r = Inr (of_nat v) \<and> v \<in> ia_range s \<and> v \<notin> ia_used s
           \<and> ia_used s' = insert v (ia_used s)"
    using ia_alloc_refines [OF assms] by blast
  then show ?thesis
  proof (cases "spec_alloc (unat (ia_offset s)) (unat (ia_offset s) + unat (ia_size s)) (ia_used s)")
    case None
    then have "ia_range s \<subseteq> ia_used s"
      by (auto simp: spec_alloc_def find_None_iff ia_range_def)
    with None sp \<open>ia_alloc s = Some (r, s')\<close> show ?thesis by (simp add: ia_take_def)
  next
    case (Some v)
    with sp have "unat (of_nat v :: u32) = v" using ia_range_unat [OF assms] by simp
    with Some sp \<open>ia_alloc s = Some (r, s')\<close> \<open>ia_wf s'\<close> \<open>ia_range s' = ia_range s\<close>
    show ?thesis by (simp add: ia_take_def)
  qed
qed

lemma ia_give_cases:
  assumes "ia_wf s"
  shows "if v \<in> ia_used s
    then \<exists>s'. ia_give s v = Some s' \<and> ia_used s' = ia_used s - {v}
           \<and> ia_range s' = ia_range s \<and> ia_wf s'
    else ia_give s v = None"
proof (cases "v \<in> ia_range s")
  case True
  note u = ia_range_unat [OF assms True]
  have "unat (of_nat v :: u32) \<in> ia_range s" using True u(2) by simp
  then obtain s' where "ia_free s (of_nat v) =
      Some (if v \<in> ia_used s then Inr () else Inl (AlreadyFree (of_nat v)), s')"
    "ia_wf s'" "ia_range s' = ia_range s" "ia_used s' = ia_used s - {v}"
    using ia_free_in_range [OF assms, of "of_nat v"] unfolding u(2) by blast
  with u(1) show ?thesis by (cases "v \<in> ia_used s") (simp_all add: ia_give_def)
next
  case False
  then have "v \<notin> ia_used s" by (simp add: ia_used_def)
  moreover have "ia_give s v = None"
  proof (cases "v < 2 ^ 32")
    case True
    then have "unat (of_nat v :: u32) \<notin> ia_range s"
      using False by (simp add: unat_of_nat take_bit_nat_eq_self)
    from ia_free_out_of_range [OF assms this] show ?thesis by (simp add: ia_give_def)
  qed (simp add: ia_give_def)
  ultimately show ?thesis by simp
qed

interpretation ia: id_allocator ia_take ia_give ia_used ia_range ia_wf
proof unfold_locales
  fix s i s'
  assume wf: "ia_wf s"
  show "finite (ia_range s)" by (simp add: ia_range_def)
  show "ia_used s \<subseteq> ia_range s" by (auto simp: ia_used_def)
  note t = ia_take_cases [OF wf] and g = ia_give_cases [OF wf]
  show "ia_take s = None \<longleftrightarrow> ia_range s \<subseteq> ia_used s" using t by auto
  show "ia_give s i = None \<longleftrightarrow> i \<notin> ia_used s" using g [of i] by (auto split: if_splits)
  show "i \<in> ia_range s - ia_used s" "ia_used s' = insert i (ia_used s)"
    "ia_range s' = ia_range s" "ia_wf s'" if "ia_take s = Some (i, s')"
    using t that by auto
  show "ia_used s' = ia_used s - {i}" "ia_range s' = ia_range s" "ia_wf s'"
    if "ia_give s i = Some s'"
    using g [of i] that by (auto split: if_splits)
qed

section \<open>Properties of the interrupt allocator\<close>

text \<open>
  C15: the bitmap allocator implements "the least free vector": on a well-formed allocator
  \<open>alloc\<close> never panics, keeps the invariant, returns exactly the least vector of the range that
  is not allocated and marks it allocated, and reports exhaustion without changing the state when
  there is none.
\<close>
theorem ia_alloc_least_free:
  assumes "ia_wf s"
  shows "\<exists>r s'. ia_alloc s = Some (r, s') \<and> ia_wf s' \<and> ia_range s' = ia_range s
    \<and> (case spec_alloc (unat (ia_offset s)) (unat (ia_offset s) + unat (ia_size s)) (ia_used s) of
         None \<Rightarrow> r = Inl (ExhaustedError (ia_size s)) \<and> s' = s
       | Some v \<Rightarrow> r = Inr (of_nat v) \<and> v \<in> ia_range s \<and> v \<notin> ia_used s
           \<and> ia_used s' = insert v (ia_used s))"
  using ia_alloc_refines [OF assms] by blast

lemma ia_new_Some:
  "sz \<noteq> 0 \<Longrightarrow> unat offset + unat sz < 2 ^ 32 \<Longrightarrow> \<exists>s. ia_new sz offset = Some s"
  by (simp add: ia_new_def Let_def)

theorem ia_alloc_least_free_witness:
  "\<exists>s r s'. ia_new 65 5 = Some s \<and> ia_wf s \<and> ia_alloc s = Some (r, s') \<and> ia_wf s'"
proof -
  obtain s where s: "ia_new 65 5 = Some s" using ia_new_Some [of 65 5] by auto
  then have "ia_wf s" using ia_new_wf by blast
  with s ia_alloc_least_free [of s] show ?thesis by blast
qed

text \<open>
  C28: a fresh allocator hands out exactly its configured capacity. Requesting \<open>n\<close> vectors in a
  row succeeds if and only if \<open>n\<close> is at most \<open>size\<close>, and the vectors obtained are pairwise
  distinct and lie in \<open>[offset, offset + size)\<close>.
\<close>
theorem ia_capacity:
  assumes "ia_new sz offset = Some s"
  shows "(take_n ia_take n s \<noteq> None \<longleftrightarrow> n \<le> unat sz)
    \<and> (\<forall>vs s'. take_n ia_take n s = Some (vs, s') \<longrightarrow>
         distinct vs \<and> set vs \<subseteq> {unat offset..<unat offset + unat sz} \<and> ia_used s' = set vs)"
proof -
  note new = ia_new_wf [OF assms]
  then have "card (ia_range s - ia_used s) = unat sz" by simp
  with new ia.take_n_total [of s n] ia.take_n_result [of s n] show ?thesis by auto
qed

theorem ia_capacity_witness:
  "\<exists>s. ia_new 3 7 = Some s \<and> take_n ia_take 3 s \<noteq> None \<and> take_n ia_take 4 s = None"
proof -
  obtain s where s: "ia_new 3 7 = Some s" using ia_new_Some [of 3 7] by auto
  have "take_n ia_take 3 s \<noteq> None" "take_n ia_take 4 s = None"
    using ia_capacity [OF s, of 3, THEN conjunct1] ia_capacity [OF s, of 4, THEN conjunct1]
    by (simp_all del: not_None_eq)
  with s show ?thesis by blast
qed

text \<open>
  C29: every outcome of \<open>free\<close> on a well-formed allocator. A vector outside the range is refused
  with \<open>OutOfRange\<close>, a vector that is not allocated with \<open>AlreadyFree\<close>, and the bitmap is
  unchanged in both cases; an allocated vector is released and only that one.
\<close>
theorem ia_free_outcomes:
  assumes "ia_wf s"
  shows "\<exists>r s'. ia_free s v = Some (r, s') \<and> ia_wf s'
    \<and> r = (if unat v \<notin> ia_range s then Inl (OutOfRange v (ia_offset s) (ia_offset s + ia_size s))
           else if unat v \<notin> ia_used s then Inl (AlreadyFree v) else Inr ())
    \<and> ia_range s' = ia_range s \<and> ia_used s' = ia_used s - {unat v}"
proof (cases "unat v \<in> ia_range s")
  case True
  from ia_free_in_range [OF assms this] True show ?thesis by (auto split: if_splits)
next
  case False
  then have "unat v \<notin> ia_used s" by (simp add: ia_used_def)
  with False assms ia_free_out_of_range [OF assms False] show ?thesis by simp
qed

theorem ia_free_outcomes_witness:
  "\<exists>s s'. ia_new 8 16 = Some s \<and> ia_wf s \<and> ia_free s 16 = Some (Inl (AlreadyFree 16), s')"
proof -
  obtain s where s: "ia_new 8 16 = Some s" using ia_new_Some [of 8 16] by auto
  from ia_new_wf [OF s] have wf: "ia_wf s" and "ia_used s = {}" "ia_range s = {16..<24}" by auto
  with ia_free_outcomes [OF wf, of 16] s show ?thesis by auto
qed

section \<open>The x86-64 GSI allocator\<close>

definition apic_span :: "gsi_apic \<Rightarrow> nat set" where
  "apic_span a = {unat (apic_base a)..<unat (apic_base a) + unat (apic_irqs a)}"

text \<open>
  The APIC configurations the allocator is meant for: at least one APIC, each with interrupts, no
  two sharing an interrupt, all below the IRQ limit.
\<close>

definition apics_ok :: "gsi_apic list \<Rightarrow> bool" where
  "apics_ok apics \<longleftrightarrow> apics \<noteq> []
     \<and> (\<forall>a \<in> set apics. apic_irqs a \<noteq> 0 \<and> unat (apic_base a) + unat (apic_irqs a) < 4096)
     \<and> sorted_wrt (\<lambda>a b. apic_span a \<inter> apic_span b = {}) apics"

lemma min_or_zero_Min: "xs \<noteq> [] \<Longrightarrow> min_or_zero xs = Min (set xs)"
  by (cases xs) (simp_all add: Min.set_eq_fold [symmetric] del: list.set)

lemma max_or_zero_Max: "xs \<noteq> [] \<Longrightarrow> max_or_zero xs = Max (set xs)"
  by (cases xs) (simp_all add: Max.set_eq_fold [symmetric] del: list.set)

lemma card_apic_spans:
  "sorted_wrt (\<lambda>a b. apic_span a \<inter> apic_span b = {}) apics \<Longrightarrow>
     card (\<Union>a \<in> set apics. apic_span a) = sum_list (map (unat \<circ> apic_irqs) apics)"
proof (induction apics)
  case Nil
  then show ?case by simp
next
  case (Cons a apics)
  then have "apic_span a \<inter> (\<Union>b \<in> set apics. apic_span b) = {}" by auto
  then have "card (\<Union>b \<in> set (a # apics). apic_span b)
      = card (apic_span a) + card (\<Union>b \<in> set apics. apic_span b)"
    by (simp add: card_Un_disjoint apic_span_def)
  with Cons show ?case by (simp add: apic_span_def)
qed

lemma unat_sum_list_u32:
  "sum_list (map unat ws) < 2 ^ 32 \<Longrightarrow> unat (sum_list ws) = sum_list (map unat ws)"
  for ws :: "u32 list"
  by (induction ws) (auto simp: unat_add_exact)

lemma apic_end_unat:
  "apics_ok apics \<Longrightarrow> a \<in> set apics \<Longrightarrow>
     unat (apic_base a + apic_irqs a) = unat (apic_base a) + unat (apic_irqs a)"
  by (force simp: apics_ok_def unat_add_exact)

text \<open>
  The IRQ numbers counted from the lowest APIC base stay below the first GSI, because the
  disjoint APIC spans all fit between the two.
\<close>

lemma irqs_below_gsis:
  assumes ok: "apics_ok apics"
  defines "lo \<equiv> unat (min_or_zero (map apic_base apics))"
    and "hi \<equiv> unat (max_or_zero (map (\<lambda>a. apic_base a + apic_irqs a) apics))"
  shows "lo + sum_list (map (unat \<circ> apic_irqs) apics) \<le> hi \<and> hi < 4096
    \<and> 0 < sum_list (map (unat \<circ> apic_irqs) apics)"
proof -
  have ne: "apics \<noteq> []" using ok by (simp add: apics_ok_def)
  have min: "min_or_zero (map apic_base apics) \<le> apic_base a" if "a \<in> set apics" for a
    using ne that by (simp add: min_or_zero_Min)
  have max: "apic_base a + apic_irqs a \<le> max_or_zero (map (\<lambda>a. apic_base a + apic_irqs a) apics)"
    if "a \<in> set apics" for a
    using ne that by (simp add: max_or_zero_Max)
  have "apic_span a \<subseteq> {lo..<hi}" if a: "a \<in> set apics" for a
    using min [OF a] max [OF a] apic_end_unat [OF ok a]
    by (auto simp: apic_span_def lo_def hi_def word_le_nat_alt)
  then have "(\<Union>a \<in> set apics. apic_span a) \<subseteq> {lo..<hi}" by blast
  from card_mono [OF _ this]
  have sum: "sum_list (map (unat \<circ> apic_irqs) apics) \<le> hi - lo"
    using ok by (simp add: apics_ok_def card_apic_spans)
  have "max_or_zero (map (\<lambda>a. apic_base a + apic_irqs a) apics)
      \<in> set (map (\<lambda>a. apic_base a + apic_irqs a) apics)"
    using ne Max_in [of "set (map (\<lambda>a. apic_base a + apic_irqs a) apics)"]
    by (simp add: max_or_zero_Max)
  then obtain a where a: "a \<in> set apics" and "hi = unat (apic_base a + apic_irqs a)"
    by (auto simp: hi_def)
  then have "hi < 4096" using apic_end_unat [OF ok a] ok by (auto simp: apics_ok_def)
  obtain b where b: "b \<in> set apics" using ne by (cases apics) auto
  then have "unat (apic_irqs b) \<noteq> 0" using ok by (auto simp: apics_ok_def unat_eq_0)
  moreover have "unat (apic_irqs b) \<le> sum_list (map (unat \<circ> apic_irqs) apics)"
    using b by (simp add: member_le_sum_list)
  ultimately have "0 < sum_list (map (unat \<circ> apic_irqs) apics)" by simp
  with sum \<open>hi < 4096\<close> show ?thesis by simp
qed

lemma ga_new_parts:
  assumes ok: "apics_ok apics"
  shows "\<exists>g. ga_new apics = Some g \<and> ia_wf (ga_irqs g) \<and> ia_wf (ga_gsis g)
    \<and> ia_range (ga_irqs g) \<inter> ia_range (ga_gsis g) = {}
    \<and> ia_range (ga_irqs g) \<union> ia_range (ga_gsis g) \<subseteq> {..<unat MAX_GUEST_IRQS}"
proof -
  define lo where "lo = min_or_zero (map apic_base apics)"
  define hi where "hi = max_or_zero (map (\<lambda>a. apic_base a + apic_irqs a) apics)"
  define n where "n = sum_list (map apic_irqs apics)"
  note b = irqs_below_gsis [OF ok, folded lo_def hi_def]
  then have n: "unat n = sum_list (map (unat \<circ> apic_irqs) apics)"
    unfolding n_def by (subst unat_sum_list_u32) (simp_all add: comp_def)
  have m: "unat (MAX_GUEST_IRQS - hi) = 4096 - unat hi"
    using b by (subst unat_sub) (simp_all add: MAX_GUEST_IRQS_def word_le_nat_alt)
  have "n \<noteq> 0" "unat lo + unat n < 2 ^ 32" using b n by (metis less_not_refl unat_0, simp)
  then obtain ia where ia: "ia_new n lo = Some ia" using ia_new_Some by blast
  obtain gs where gs: "ia_new (MAX_GUEST_IRQS - hi) hi = Some gs"
    using ia_new_Some [of "MAX_GUEST_IRQS - hi" hi] b m by (auto simp: unat_eq_0 [symmetric])
  from ia gs have "\<exists>g. ga_new apics = Some g \<and> ga_irqs g = ia \<and> ga_gsis g = gs"
    by (simp add: ga_new_def Let_def lo_def hi_def n_def)
  moreover have "ia_range ia = {unat lo..<unat lo + unat n}" "ia_wf ia"
    and "ia_range gs = {unat hi..<4096}" "ia_wf gs"
    using ia_new_wf [OF ia] ia_new_wf [OF gs] m b by auto
  ultimately show ?thesis using b n by (auto simp: MAX_GUEST_IRQS_def)
qed

text \<open>
  C30: for disjoint APICs below the IRQ limit the constructor succeeds, and the numbers it will
  hand out as IRQs and as GSIs are disjoint and stay below \<open>MAX_GUEST_IRQS\<close>.
\<close>
theorem ga_new_disjoint:
  assumes "apics_ok apics"
  shows "\<exists>g. ga_new apics = Some g \<and> ia_wf (ga_irqs g) \<and> ia_wf (ga_gsis g)
    \<and> ia_range (ga_irqs g) \<inter> ia_range (ga_gsis g) = {}
    \<and> ia_range (ga_irqs g) \<union> ia_range (ga_gsis g) \<subseteq> {..<unat MAX_GUEST_IRQS}"
  by (rule ga_new_parts [OF assms])

theorem ga_new_disjoint_witness:
  "\<exists>g. ga_new [\<lparr>apic_base = 5, apic_irqs = 19\<rparr>, \<lparr>apic_base = 40, apic_irqs = 8\<rparr>] = Some g
    \<and> ia_range (ga_irqs g) \<inter> ia_range (ga_gsis g) = {}"
proof -
  have "apics_ok [\<lparr>apic_base = 5, apic_irqs = 19\<rparr>, \<lparr>apic_base = 40, apic_irqs = 8\<rparr>]"
    by (auto simp: apics_ok_def apic_span_def)
  from ga_new_disjoint [OF this] show ?thesis by blast
qed

text \<open>
  C31: an IRQ handed out by \<open>allocate_irq\<close> was free and belongs to one of the APIC ranges; in
  every other case the call returns an exhaustion error and the set of allocated IRQs is what it
  was before. The GSI half of the allocator is never touched, and the call does not panic.
\<close>
theorem allocate_irq_outcomes:
  assumes wf: "ia_wf (ga_irqs g)"
  shows "\<exists>r g'. allocate_irq g = Some (r, g') \<and> ia_wf (ga_irqs g') \<and> ga_gsis g' = ga_gsis g
    \<and> (case r of
         Inl e \<Rightarrow> e = ExhaustedError (ia_size (ga_irqs g)) \<and> ia_used (ga_irqs g') = ia_used (ga_irqs g)
       | Inr v \<Rightarrow> unat v \<notin> ia_used (ga_irqs g)
           \<and> ia_used (ga_irqs g') = insert (unat v) (ia_used (ga_irqs g))
           \<and> (\<exists>(base, irqs) \<in> set (ga_apics g). base \<le> v \<and> v < base + irqs))"
proof -
  obtain r s' where al: "ia_alloc (ga_irqs g) = Some (r, s')" and wf': "ia_wf s'"
    and rng: "ia_range s' = ia_range (ga_irqs g)" and sz: "ia_size s' = ia_size (ga_irqs g)"
    and sp: "case spec_alloc (unat (ia_offset (ga_irqs g)))
        (unat (ia_offset (ga_irqs g)) + unat (ia_size (ga_irqs g))) (ia_used (ga_irqs g)) of
         None \<Rightarrow> r = Inl (ExhaustedError (ia_size (ga_irqs g))) \<and> s' = ga_irqs g
       | Some v \<Rightarrow> r = Inr (of_nat v) \<and> v \<in> ia_range (ga_irqs g) \<and> v \<notin> ia_used (ga_irqs g)
           \<and> ia_used s' = insert v (ia_used (ga_irqs g))"
    using ia_alloc_refines [OF wf] by blast
  show ?thesis
  proof (cases r)
    case (Inl e)
    with al wf' sp show ?thesis by (auto simp: allocate_irq_def split: option.splits)
  next
    case (Inr v)
    with sp obtain n where n: "v = of_nat n" "n \<in> ia_range (ga_irqs g)" "n \<notin> ia_used (ga_irqs g)"
      "ia_used s' = insert n (ia_used (ga_irqs g))" by (auto split: option.splits)
    then have v: "unat v = n" using ia_range_unat [OF wf] by simp
    show ?thesis
    proof (cases "list_ex (\<lambda>(base, irqs). base \<le> v \<and> v < base + irqs) (ga_apics g)")
      case True
      with al Inr n v wf' show ?thesis by (auto simp: allocate_irq_def list_ex_iff)
    next
      case False
      have "unat v \<in> ia_range s'" using n v rng by simp
      then obtain s2 where f: "ia_free s' v = Some (Inr (), s2)" "ia_wf s2"
        "ia_used s2 = ia_used (ga_irqs g)" "ia_size s2 = ia_size (ga_irqs g)"
        using ia_free_in_range [OF wf', of v] n v sz by auto
      with al Inr False show ?thesis by (simp add: allocate_irq_def)
    qed
  qed
qed

theorem allocate_irq_outcomes_witness:
  "\<exists>s r g'. ia_new 19 5 = Some s \<and> ia_wf s \<and>
     allocate_irq \<lparr>ga_apics = [(5, 19)], ga_irqs = s, ga_gsis = s\<rparr> = Some (r, g')"
proof -
  obtain s where s: "ia_new 19 5 = Some s" using ia_new_Some [of 19 5] by auto
  then have "ia_wf (ga_irqs \<lparr>ga_apics = [(5, 19)], ga_irqs = s, ga_gsis = s\<rparr>)"
    using ia_new_wf by simp
  from allocate_irq_outcomes [OF this] this s show ?thesis by auto
qed

end
