(* ===== verification/SystemAlloc.thy ===== *)
theory SystemAlloc
  imports AddressAlloc InterruptAlloc
begin

text \<open>
  \<^verbatim>\<open>vm-allocator/src/system.rs\<close> and \<^verbatim>\<open>vm-allocator/src/memory_slot.rs\<close>: the allocator of the
  whole machine, which owns the port-I/O and platform-MMIO address spaces and the interrupt
  numbers, and the allocator of hypervisor memory slots. The host page size comes from
  \<open>sysconf\<close> and is a parameter.
\<close>

section \<open>Model\<close>

record system_allocator =
  io_address_space :: address_allocator
  platform_mmio_address_space :: address_allocator
  gsi_alloc :: gsi_allocator

text \<open>\<open>None\<close> for the outer option is a panic, for the inner one the \<open>None\<close> of the source.\<close>

definition sys_new ::
  "guest_address_ops \<Rightarrow> u64 \<Rightarrow> u64 \<Rightarrow> u64 \<Rightarrow> u64 \<Rightarrow> gsi_apic list \<Rightarrow> system_allocator option option" where
  "sys_new ops io_base io_size mmio_base mmio_size apics =
     (case aa_new ops io_base io_size of
        None \<Rightarrow> Some None
      | Some io \<Rightarrow>
          (case aa_new ops mmio_base mmio_size of
             None \<Rightarrow> Some None
           | Some mmio \<Rightarrow>
               (case ga_new apics of
                  None \<Rightarrow> None
                | Some g \<Rightarrow>
                    Some (Some \<lparr>io_address_space = io, platform_mmio_address_space = mmio,
                                gsi_alloc = g\<rparr>))))"

definition sys_allocate_irq ::
  "system_allocator \<Rightarrow> ((interrupt_alloc_error + u32) \<times> system_allocator) option" where
  "sys_allocate_irq s = map_option (\<lambda>(r, g). (r, s\<lparr>gsi_alloc := g\<rparr>)) (allocate_irq (gsi_alloc s))"

definition sys_allocate_gsi ::
  "system_allocator \<Rightarrow> ((interrupt_alloc_error + u32) \<times> system_allocator) option" where
  "sys_allocate_gsi s = map_option (\<lambda>(r, g). (r, s\<lparr>gsi_alloc := g\<rparr>)) (allocate_gsi (gsi_alloc s))"

definition sys_free_gsi ::
  "system_allocator \<Rightarrow> u32 \<Rightarrow> ((interrupt_alloc_error + unit) \<times> system_allocator) option" where
  "sys_free_gsi s vector = map_option (\<lambda>(r, g). (r, s\<lparr>gsi_alloc := g\<rparr>)) (free_gsi (gsi_alloc s) vector)"

definition allocate_io_addresses ::
  "guest_address_ops \<Rightarrow> system_allocator \<Rightarrow> u64 option \<Rightarrow> u64 \<Rightarrow> u64 option
     \<Rightarrow> u64 option \<times> system_allocator" where
  "allocate_io_addresses ops s address sz align_size =
     (let (r, a) = aa_allocate ops (io_address_space s) address sz
                     (Some (case align_size of None \<Rightarrow> 1 | Some n \<Rightarrow> n))
      in (r, s\<lparr>io_address_space := a\<rparr>))"

definition move_io_addresses ::
  "guest_address_ops \<Rightarrow> system_allocator \<Rightarrow> u64 \<Rightarrow> u64 \<Rightarrow> u64 \<Rightarrow> u64 option
     \<Rightarrow> u64 option \<times> system_allocator" where
  "move_io_addresses ops s old_address new_address sz align_size =
     (let (r, a) = aa_move_range ops (io_address_space s) old_address new_address sz
                     (Some (case align_size of None \<Rightarrow> 1 | Some n \<Rightarrow> n))
      in (r, s\<lparr>io_address_space := a\<rparr>))"

definition allocate_platform_mmio_addresses ::
  "u64 \<Rightarrow> guest_address_ops \<Rightarrow> system_allocator \<Rightarrow> u64 option \<Rightarrow> u64 \<Rightarrow> u64 option
     \<Rightarrow> u64 option \<times> system_allocator" where
  "allocate_platform_mmio_addresses page_size ops s address sz align_size =
     (let (r, a) = aa_allocate ops (platform_mmio_address_space s) address sz
                     (Some (case align_size of None \<Rightarrow> page_size | Some n \<Rightarrow> n))
      in (r, s\<lparr>platform_mmio_address_space := a\<rparr>))"

definition free_io_addresses :: "system_allocator \<Rightarrow> u64 \<Rightarrow> u64 \<Rightarrow> system_allocator" where
  "free_io_addresses s address sz = s\<lparr>io_address_space := aa_free (io_address_space s) address sz\<rparr>"

text \<open>The free list is a \<open>Vec\<close>: slots are pushed and popped at its end.\<close>

record memory_slot_allocator =
  ms_next :: u32
  ms_free_list :: "u32 list"

definition next_memory_slot :: "memory_slot_allocator \<Rightarrow> u32 \<times> memory_slot_allocator" where
  "next_memory_slot s =
     (if ms_free_list s \<noteq> [] then
        (last (ms_free_list s), s\<lparr>ms_free_list := butlast (ms_free_list s)\<rparr>)
      else (ms_next s, s\<lparr>ms_next := ms_next s + 1\<rparr>))"

definition free_memory_slot :: "memory_slot_allocator \<Rightarrow> u32 \<Rightarrow> memory_slot_allocator" where
  "free_memory_slot s slot = s\<lparr>ms_free_list := ms_free_list s @ [slot]\<rparr>"

section \<open>Runs of the system allocator\<close>

text \<open>
  One call on the system allocator. The guards are the conditions under which the callers use
  it: a range is freed with its real, non-zero size, and a request without an address leaves room
  to align inside the 64-bit address space.
\<close>

inductive sys_step :: "u64 \<Rightarrow> guest_address_ops \<Rightarrow> system_allocator \<Rightarrow> system_allocator \<Rightarrow> bool"
  for page_size :: u64 and ops :: guest_address_ops where
  irq: "sys_allocate_irq s = Some (r, s') \<Longrightarrow> sys_step page_size ops s s'"
| gsi: "sys_allocate_gsi s = Some (r, s') \<Longrightarrow> sys_step page_size ops s s'"
| ungsi: "sys_free_gsi s v = Some (r, s') \<Longrightarrow> sys_step page_size ops s s'"
| io_at: "allocate_io_addresses ops s (Some x) sz al = (r, s') \<Longrightarrow> sys_step page_size ops s s'"
| io_any: "unat (aa_end (io_address_space s)) + 1
      + unat (case al of None \<Rightarrow> 1 | Some n \<Rightarrow> n) \<le> 2 ^ 64 \<Longrightarrow>
    allocate_io_addresses ops s None sz al = (r, s') \<Longrightarrow> sys_step page_size ops s s'"
| io_move: "move_io_addresses ops s old new sz al = (r, s') \<Longrightarrow> sys_step page_size ops s s'"
| mmio_at: "allocate_platform_mmio_addresses page_size ops s (Some x) sz al = (r, s') \<Longrightarrow>
    sys_step page_size ops s s'"
| mmio_any: "unat (aa_end (platform_mmio_address_space s)) + 1
      + unat (case al of None \<Rightarrow> page_size | Some n \<Rightarrow> n) \<le> 2 ^ 64 \<Longrightarrow>
    allocate_platform_mmio_addresses page_size ops s None sz al = (r, s') \<Longrightarrow>
    sys_step page_size ops s s'"
| io_free: "sz \<noteq> 0 \<Longrightarrow> sys_step page_size ops s (free_io_addresses s x sz)"

definition sys_wf :: "system_allocator \<Rightarrow> bool" where
  "sys_wf s \<longleftrightarrow> aa_wf (io_address_space s) \<and> aa_wf (platform_mmio_address_space s)
     \<and> ia_wf (ga_irqs (gsi_alloc s)) \<and> ia_wf (ga_gsis (gsi_alloc s))
     \<and> ia_range (ga_irqs (gsi_alloc s)) \<inter> ia_range (ga_gsis (gsi_alloc s)) = {}"

text \<open>
  The memory-slot allocator with the set of slots in use: no slot is both free and in use, no
  slot is on the free list twice, and every slot ever handed out is below the counter.
\<close>

definition ms_inv :: "memory_slot_allocator \<Rightarrow> u32 set \<Rightarrow> bool" where
  "ms_inv s live \<longleftrightarrow> distinct (ms_free_list s) \<and> set (ms_free_list s) \<inter> live = {}
     \<and> (\<forall>x \<in> set (ms_free_list s) \<union> live. x < ms_next s)"

section \<open>Every operation keeps the components well-formed\<close>

lemma aa_allocate_wf:
  assumes "guest_address_ok ops" "aa_wf a"
    and "address = None \<Longrightarrow> unat (aa_end a) + 1 + unat k \<le> 2 ^ 64"
  shows "aa_wf (snd (aa_allocate ops a address n (Some k)))"
proof (cases "n \<noteq> 0 \<and> is_power_of_two k")
  case True
  show ?thesis
  proof (cases address)
    case None
    with True have "greatest_aligned (unat k) (\<lambda>x. is_free_range a x (unat n))
      (map_option unat (first_available_range ops a n k))"
      by (intro first_available_range_spec assms) auto
    then show ?thesis
      using None True assms(2) aa_insert_wf [OF assms(2)]
      by (auto simp: aa_allocate_def greatest_aligned_def split: option.splits)
  next
    case (Some x)
    then show ?thesis
      using assms(2) aa_insert_wf [OF assms(2)] by (auto simp: aa_allocate_at_eq [OF assms(1,2)])
  qed
next
  case False
  then show ?thesis using assms(2) by (auto simp: aa_allocate_def Let_def)
qed

lemma aa_free_wf: "aa_wf a \<Longrightarrow> n \<noteq> 0 \<Longrightarrow> aa_wf (aa_free a x n)"
  by (auto simp: aa_free_def aa_remove_wf split: option.splits)

lemma aa_move_range_wf:
  assumes "guest_address_ok ops" "aa_wf a"
  shows "aa_wf (snd (aa_move_range ops a old new n al))"
proof (cases "n \<noteq> 0 \<and> bt_get (aa_ranges a) old = Some n")
  case True
  define a1 where "a1 = a\<lparr>aa_ranges := bt_remove old (aa_ranges a)\<rparr>"
  have wf1: "aa_wf a1" unfolding a1_def using True assms by (intro aa_remove_wf) auto
  have undo: "a1\<lparr>aa_ranges := bt_insert old n (aa_ranges a1)\<rparr> = a"
    using True assms by (simp add: a1_def bt_insert_remove aa_wf_def)
  show ?thesis
    using True undo assms aa_insert_wf [OF wf1]
    by (auto simp: aa_move_range_def Let_def a1_def [symmetric] aa_allocate_at_eq [OF assms(1) wf1])
next
  case False
  then have "n = 0 \<or> bt_get (aa_ranges a) old \<noteq> Some n" by simp
  then show ?thesis
  proof
    assume "n = 0"
    with assms(2) show ?thesis
      by (simp add: aa_move_range_def aa_allocate_def Let_def bt_insert_remove aa_wf_def)
  qed (simp add: aa_move_range_def assms(2))
qed

lemma ia_alloc_keeps:
  assumes "ia_wf s" "ia_alloc s = Some (r, s')"
  shows "ia_wf s'" "ia_range s' = ia_range s"
  using ia_alloc_refines [OF assms(1)] assms(2) by auto

lemma ia_free_keeps:
  assumes "ia_wf s" "ia_free s v = Some (r, s')"
  shows "ia_wf s'" "ia_range s' = ia_range s"
proof -
  have "ia_wf s' \<and> ia_range s' = ia_range s"
  proof (cases "unat v \<in> ia_range s")
    case True
    from ia_free_in_range [OF assms(1) True] assms(2) show ?thesis by auto
  next
    case False
    from ia_free_out_of_range [OF assms(1) False] assms show ?thesis by auto
  qed
  then show "ia_wf s'" "ia_range s' = ia_range s" by auto
qed

lemma allocate_irq_keeps:
  assumes "ia_wf (ga_irqs g)" "allocate_irq g = Some (r, g')"
  shows "ia_wf (ga_irqs g') \<and> ia_range (ga_irqs g') = ia_range (ga_irqs g) \<and> ga_gsis g' = ga_gsis g"
proof -
  obtain q a where al: "ia_alloc (ga_irqs g) = Some (q, a)"
    using assms(2) by (auto simp: allocate_irq_def split: option.splits)
  note k = ia_alloc_keeps [OF assms(1) al]
  show ?thesis
  proof (cases q)
    case (Inl e)
    then have "g' = g\<lparr>ga_irqs := a\<rparr>" using assms(2) by (simp add: allocate_irq_def al)
    with k show ?thesis by simp
  next
    case (Inr v)
    show ?thesis
    proof (cases "list_ex (\<lambda>(base, irqs). base \<le> v \<and> v < base + irqs) (ga_apics g)")
      case True
      then have "g' = g\<lparr>ga_irqs := a\<rparr>" using assms(2) by (simp add: allocate_irq_def al Inr)
      with k show ?thesis by simp
    next
      case False
      obtain q2 a2 where fr: "ia_free a v = Some (q2, a2)"
        using assms(2) by (cases "ia_free a v") (auto simp: allocate_irq_def al Inr False)
      have "g' = g\<lparr>ga_irqs := a2\<rparr>"
        using assms(2) by (cases q2) (simp_all add: allocate_irq_def al Inr False fr)
      with ia_free_keeps [OF k(1) fr] k show ?thesis by simp
    qed
  qed
qed

lemmas sys_op_defs = sys_allocate_irq_def sys_allocate_gsi_def sys_free_gsi_def
  allocate_gsi_def free_gsi_def allocate_io_addresses_def move_io_addresses_def
  allocate_platform_mmio_addresses_def free_io_addresses_def

lemma sys_step_wf:
  assumes "sys_step page_size ops s s'" and ok: "guest_address_ok ops" and wf: "sys_wf s"
  shows "sys_wf s'"
  using assms(1)
proof cases
  case (irq r)
  then obtain g' where g: "allocate_irq (gsi_alloc s) = Some (r, g')" and s': "s' = s\<lparr>gsi_alloc := g'\<rparr>"
    by (auto simp: sys_op_defs)
  have "ia_wf (ga_irqs (gsi_alloc s))" using wf by (simp add: sys_wf_def)
  from allocate_irq_keeps [OF this g] s' wf show ?thesis by (simp add: sys_wf_def)
next
  case (gsi r)
  then obtain a where a: "ia_alloc (ga_gsis (gsi_alloc s)) = Some (r, a)"
    and s': "s' = s\<lparr>gsi_alloc := (gsi_alloc s)\<lparr>ga_gsis := a\<rparr>\<rparr>"
    by (auto simp: sys_op_defs)
  have "ia_wf (ga_gsis (gsi_alloc s))" using wf by (simp add: sys_wf_def)
  from ia_alloc_keeps [OF this a] s' wf show ?thesis by (simp add: sys_wf_def)
next
  case (ungsi v r)
  then obtain a where a: "ia_free (ga_gsis (gsi_alloc s)) v = Some (r, a)"
    and s': "s' = s\<lparr>gsi_alloc := (gsi_alloc s)\<lparr>ga_gsis := a\<rparr>\<rparr>"
    by (auto simp: sys_op_defs)
  have "ia_wf (ga_gsis (gsi_alloc s))" using wf by (simp add: sys_wf_def)
  from ia_free_keeps [OF this a] s' wf show ?thesis by (simp add: sys_wf_def)
next
  case (io_at x sz al r)
  with aa_allocate_wf [OF ok, of "io_address_space s" "Some x"] wf show ?thesis
    by (auto simp: sys_op_defs sys_wf_def case_prod_unfold Let_def)
next
  case (io_any al sz r)
  with aa_allocate_wf [OF ok, of "io_address_space s" None] wf show ?thesis
    by (auto simp: sys_op_defs sys_wf_def case_prod_unfold Let_def)
next
  case (io_move old new sz al r)
  with aa_move_range_wf [OF ok, of "io_address_space s"] wf show ?thesis
    by (auto simp: sys_op_defs sys_wf_def case_prod_unfold Let_def)
next
  case (mmio_at x sz al r)
  with aa_allocate_wf [OF ok, of "platform_mmio_address_space s" "Some x"] wf show ?thesis
    by (auto simp: sys_op_defs sys_wf_def case_prod_unfold Let_def)
next
  case (mmio_any al sz r)
  with aa_allocate_wf [OF ok, of "platform_mmio_address_space s" None] wf show ?thesis
    by (auto simp: sys_op_defs sys_wf_def case_prod_unfold Let_def)
next
  case (io_free sz x)
  then show ?thesis using wf aa_free_wf by (simp add: sys_op_defs sys_wf_def)
qed

section \<open>Properties\<close>



text \<open>
  C35: a memory slot handed out is not in use, and handing out and releasing slots keeps the
  free list and the slots in use disjoint, as long as the 32-bit counter has not been used up and
  only slots in use are released.
\<close>
theorem memory_slots_fresh:
  assumes inv: "ms_inv s live" and room: "unat (ms_next s) + 1 < 2 ^ 32"
  shows "(let (slot, s') = next_memory_slot s in slot \<notin> live \<and> ms_inv s' (insert slot live))
    \<and> (\<forall>slot \<in> live. ms_inv (free_memory_slot s slot) (live - {slot}))"
proof -
  have up: "x < ms_next s + 1 \<longleftrightarrow> x \<le> ms_next s" for x
    using room unat_add_exact [of "ms_next s" 1] by (simp add: word_less_nat_alt word_le_nat_alt less_Suc_eq_le)
  have "let (slot, s') = next_memory_slot s in slot \<notin> live \<and> ms_inv s' (insert slot live)"
  proof (cases "ms_free_list s" rule: rev_cases)
    case Nil
    with inv up show ?thesis
      by (auto simp: next_memory_slot_def ms_inv_def)
  next
    case (snoc ys y)
    with inv show ?thesis by (auto simp: next_memory_slot_def ms_inv_def)
  qed
  moreover have "\<forall>slot \<in> live. ms_inv (free_memory_slot s slot) (live - {slot})"
    using inv by (auto simp: free_memory_slot_def ms_inv_def)
  ultimately show ?thesis by blast
qed

theorem memory_slots_fresh_witness:
  "ms_inv \<lparr>ms_next = 3, ms_free_list = [1]\<rparr> {0, 2}
   \<and> fst (next_memory_slot \<lparr>ms_next = 3, ms_free_list = [1]\<rparr>) \<notin> {0, 2}
   \<and> ms_inv (free_memory_slot \<lparr>ms_next = 3, ms_free_list = [1]\<rparr> 2) {0}"
proof -
  have inv: "ms_inv \<lparr>ms_next = 3, ms_free_list = [1]\<rparr> {0, 2}" by (simp add: ms_inv_def)
  have "{0, 2} - {2} = {0 :: u32}" by auto
  with memory_slots_fresh [OF inv] inv show ?thesis
    by (simp add: case_prod_unfold Let_def)
qed

end
