(* ===== verification/InterruptSource.thy ===== *)
theory InterruptSource
  imports InterruptAlloc
begin

text \<open>
  The interface between the devices that raise message-signalled interrupts and the code that
  routes them: the trait \<open>InterruptSourceGroup\<close> of \<^verbatim>\<open>vm-device/src/interrupt/mod.rs\<close>, the
  configurations of \<^verbatim>\<open>hypervisor/src/vm.rs\<close> and the wrapper \<open>MaybeMutInterruptSourceGroup\<close> of
  \<^verbatim>\<open>pci/src/msix.rs\<close>.  The trait object is a record of operations on a state; the locale
  \<open>interrupt_source_group\<close> states what an implementation promises its clients.
\<close>

section \<open>Model\<close>

record msi_config =
  high_addr :: u32
  low_addr :: u32
  msi_data :: u32
  devid :: u32

datatype interrupt_source_config =
    LegacyIrq u32 u32
  | MsiIrq msi_config

datatype irq_error =
    GsiAllocation interrupt_alloc_error
  | IrqfdRegister
  | IrqfdUnregister
  | GsiRouting
  | EventFdFailure
  | InvalidIndex u32
  | Unsupported

text \<open>An operation returns its \<open>Result\<close> and the new state; \<open>None\<close> is a panic.\<close>

type_synonym 'g irq_result = "((irq_error + unit) \<times> 'g) option"

record 'g isg_ops =
  isg_enable :: "'g \<Rightarrow> 'g irq_result"
  isg_disable :: "'g \<Rightarrow> 'g irq_result"
  isg_trigger :: "u32 \<Rightarrow> 'g \<Rightarrow> 'g irq_result"
  isg_update :: "u32 \<Rightarrow> interrupt_source_config \<Rightarrow> bool \<Rightarrow> bool \<Rightarrow> 'g \<Rightarrow> 'g irq_result"
  isg_set_gsi :: "'g \<Rightarrow> 'g irq_result"

text \<open>The default methods of the trait.\<close>

definition isg_default_enable :: "'g \<Rightarrow> 'g irq_result" where
  "isg_default_enable g = Some (Inr (), g)"

definition isg_default_disable :: "'g \<Rightarrow> 'g irq_result" where
  "isg_default_disable g = Some (Inr (), g)"

text \<open>The wrapper forwards \<open>trigger\<close>, \<open>update\<close> and \<open>set_gsi\<close> (and \<open>notifier\<close>) and leaves the
  default methods \<open>enable\<close> and \<open>disable\<close> in place.\<close>

definition maybe_mut :: "'g isg_ops \<Rightarrow> 'g isg_ops" where
  "maybe_mut ops =
     \<lparr> isg_enable = isg_default_enable, isg_disable = isg_default_disable,
       isg_trigger = isg_trigger ops, isg_update = isg_update ops,
       isg_set_gsi = isg_set_gsi ops \<rparr>"

text \<open>The devices log a call that fails and carry on; the log is part of their result.\<close>

definition logged :: "irq_error + unit \<Rightarrow> irq_error list" where
  "logged r = (case r of Inl e \<Rightarrow> [e] | Inr _ \<Rightarrow> [])"

lemma logged_simps [simp]: "logged (Inr u) = []" "logged (Inl e) = [e]" "logged r = [] \<longleftrightarrow> r = Inr ()"
  by (auto simp: logged_def split: sum.splits)

section \<open>The contract\<close>

text \<open>
  \<open>delivers g i c\<close>: an interrupt raised on vector \<open>i\<close> reaches the guest as message \<open>c\<close>;
  \<open>quiet g i\<close>: nothing can be injected through vector \<open>i\<close>.
\<close>

locale interrupt_source_group =
  fixes ops :: "'g isg_ops"
    and invar :: "'g \<Rightarrow> bool"
    and vectors :: "'g \<Rightarrow> u32 set"
    and delivers :: "'g \<Rightarrow> u32 \<Rightarrow> interrupt_source_config \<Rightarrow> bool"
    and quiet :: "'g \<Rightarrow> u32 \<Rightarrow> bool"
  assumes update_total: "invar g \<Longrightarrow> \<exists>r g'. isg_update ops i c m s g = Some (r, g')"
    and update_invar: "invar g \<Longrightarrow> isg_update ops i c m s g = Some (r, g') \<Longrightarrow>
      invar g' \<and> vectors g' = vectors g"
    and update_invalid: "invar g \<Longrightarrow> i \<notin> vectors g \<Longrightarrow>
      isg_update ops i c m s g = Some (Inl (InvalidIndex i), g)"
    and update_unmasked: "invar g \<Longrightarrow> isg_update ops i c False s g = Some (Inr u, g') \<Longrightarrow>
      delivers g' i c"
    and update_masked: "invar g \<Longrightarrow> isg_update ops i c True s g = Some (Inr u, g') \<Longrightarrow> quiet g' i"
    and update_other: "invar g \<Longrightarrow> isg_update ops i c m s g = Some (r, g') \<Longrightarrow> j \<noteq> i \<Longrightarrow>
      delivers g' j d = delivers g j d \<and> quiet g' j = quiet g j"
    and trigger_total: "\<exists>r g'. isg_trigger ops i g = Some (r, g')"
    and trigger_frame: "isg_trigger ops i g = Some (r, g') \<Longrightarrow>
      invar g' = invar g \<and> vectors g' = vectors g \<and> delivers g' = delivers g \<and> quiet g' = quiet g"
    and set_gsi_total: "\<exists>r g'. isg_set_gsi ops g = Some (r, g')"
    and set_gsi_frame: "isg_set_gsi ops g = Some (r, g') \<Longrightarrow>
      invar g' = invar g \<and> vectors g' = vectors g \<and> delivers g' = delivers g \<and> quiet g' = quiet g"
begin

text \<open>A vector is set as wanted: it delivers \<open>c\<close> when unmasked and is quiet when masked.\<close>

definition as_set :: "'g \<Rightarrow> u32 \<Rightarrow> interrupt_source_config \<Rightarrow> bool \<Rightarrow> bool" where
  "as_set g i c m \<longleftrightarrow> (if m then quiet g i else delivers g i c)"

lemma update_as_set:
  "invar g \<Longrightarrow> isg_update ops i c m s g = Some (Inr u, g') \<Longrightarrow> as_set g' i c m"
  using update_unmasked update_masked by (cases m) (auto simp: as_set_def)

lemma update_keeps:
  "invar g \<Longrightarrow> isg_update ops i c m s g = Some (r, g') \<Longrightarrow> j \<noteq> i \<Longrightarrow> as_set g j d n \<Longrightarrow>
   as_set g' j d n"
  using update_other by (auto simp: as_set_def split: if_splits)

lemma trigger_keeps: "isg_trigger ops i g = Some (r, g') \<Longrightarrow> as_set g' = as_set g"
  using trigger_frame by (fastforce simp: as_set_def fun_eq_iff)

lemma set_gsi_keeps: "isg_set_gsi ops g = Some (r, g') \<Longrightarrow> as_set g' = as_set g"
  using set_gsi_frame by (fastforce simp: as_set_def fun_eq_iff)

end

end
