(* ===== verification/MsiGroup.thy ===== *)
theory MsiGroup
  imports SystemAlloc InterruptSource
begin

text \<open>
  \<^verbatim>\<open>vmm/src/interrupt.rs\<close>: the interrupt routes, which allocate a GSI when their vector is first
  unmasked, and the groups of routes that devices hold.  All groups of a machine share the system
  allocator, the table of GSI routes, the interrupt remappings and the hypervisor, which together
  are the state of \<open>MsiInterruptManager\<close>.

  The hypervisor (\<open>register_irqfd\<close>, \<open>unregister_irqfd\<close>, \<open>set_gsi_routing\<close>,
  \<open>make_routing_entry\<close>) and the \<open>EventFd\<close>s are parameters whose state is \<open>'v\<close>; a \<open>False\<close> result is
  a failed call.  The hash maps are key-sorted lists: the code depends on their iteration order
  only for which of several failures it reports first.
\<close>

section \<open>Model\<close>

record ('v, 'e) hyp_ops =
  hv_register_irqfd :: "nat \<Rightarrow> u32 \<Rightarrow> 'v \<Rightarrow> bool \<times> 'v"
  hv_unregister_irqfd :: "nat \<Rightarrow> u32 \<Rightarrow> 'v \<Rightarrow> bool \<times> 'v"
  hv_set_gsi_routing :: "'e list \<Rightarrow> 'v \<Rightarrow> bool \<times> 'v"
  hv_make_routing_entry :: "u32 \<Rightarrow> interrupt_source_config \<Rightarrow> 'e"
  ev_new :: "'v \<Rightarrow> nat option \<times> 'v"
  ev_write :: "nat \<Rightarrow> 'v \<Rightarrow> bool \<times> 'v"

record interrupt_route =
  rt_gsi :: "u32 option"
  rt_irq_fd :: "nat option"
  rt_registered :: bool

record 'e routing_entry =
  re_route :: 'e
  re_masked :: bool

type_synonym interrupt_remapper = "(u32, u32 \<Rightarrow> msi_config \<Rightarrow> msi_config option) btree"

record ('v, 'e) msi_manager =
  mm_allocator :: system_allocator
  mm_vm :: 'v
  mm_routes :: "(u32, 'e routing_entry) btree"
  mm_remappings :: interrupt_remapper

type_synonym irq_routes = "(u32, interrupt_route) btree"

subsection \<open>Routes\<close>

definition rt_new ::
  "('v, 'e) hyp_ops \<Rightarrow> 'v \<Rightarrow> (irq_error + interrupt_route) \<times> 'v" where
  "rt_new H v =
    (case ev_new H v of
       (None, v') \<Rightarrow> (Inl EventFdFailure, v')
     | (Some fd, v') \<Rightarrow>
         (Inr \<lparr> rt_gsi = None, rt_irq_fd = Some fd, rt_registered = False \<rparr>, v'))"

definition rt_allocate_gsi ::
  "interrupt_route \<Rightarrow> system_allocator
    \<Rightarrow> ((irq_error + u32) \<times> interrupt_route \<times> system_allocator) option" where
  "rt_allocate_gsi r a =
    (case rt_gsi r of
       Some existing \<Rightarrow> Some (Inr existing, r, a)
     | None \<Rightarrow>
         (case sys_allocate_gsi a of
            None \<Rightarrow> None
          | Some (Inl e, a') \<Rightarrow> Some (Inl (GsiAllocation e), r, a')
          | Some (Inr new_gsi, a') \<Rightarrow> Some (Inr new_gsi, r\<lparr> rt_gsi := Some new_gsi \<rparr>, a')))"

definition rt_enable ::
  "('v, 'e) hyp_ops \<Rightarrow> interrupt_route \<Rightarrow> 'v \<Rightarrow> (irq_error + unit) \<times> interrupt_route \<times> 'v" where
  "rt_enable H r v =
    (case rt_gsi r of
       None \<Rightarrow> (Inr (), r, v)
     | Some gsi \<Rightarrow>
         if \<not> rt_registered r
         then (case rt_irq_fd r of
                 None \<Rightarrow> (Inr (), r\<lparr> rt_registered := True \<rparr>, v)
               | Some fd \<Rightarrow>
                   (case hv_register_irqfd H fd gsi v of
                      (False, v') \<Rightarrow> (Inl IrqfdRegister, r, v')
                    | (True, v') \<Rightarrow> (Inr (), r\<lparr> rt_registered := True \<rparr>, v')))
         else (Inr (), r, v))"

definition rt_disable ::
  "('v, 'e) hyp_ops \<Rightarrow> interrupt_route \<Rightarrow> 'v \<Rightarrow> (irq_error + unit) \<times> interrupt_route \<times> 'v" where
  "rt_disable H r v =
    (case rt_gsi r of
       None \<Rightarrow> (Inr (), r, v)
     | Some gsi \<Rightarrow>
         if rt_registered r
         then (case rt_irq_fd r of
                 None \<Rightarrow> (Inr (), r\<lparr> rt_registered := False \<rparr>, v)
               | Some fd \<Rightarrow>
                   (case hv_unregister_irqfd H fd gsi v of
                      (False, v') \<Rightarrow> (Inl IrqfdUnregister, r, v')
                    | (True, v') \<Rightarrow> (Inr (), r\<lparr> rt_registered := False \<rparr>, v')))
         else (Inr (), r, v))"

definition rt_trigger :: "('v, 'e) hyp_ops \<Rightarrow> interrupt_route \<Rightarrow> 'v \<Rightarrow> (irq_error + unit) \<times> 'v" where
  "rt_trigger H r v =
    (case rt_irq_fd r of
       None \<Rightarrow> (Inr (), v)
     | Some fd \<Rightarrow>
         (case ev_write H fd v of (ok, v') \<Rightarrow> (if ok then Inr () else Inl EventFdFailure, v')))"

text \<open>A registered route without a GSI panics; a failure to unregister the old descriptor is
  only logged.\<close>

definition rt_set_notifier ::
  "('v, 'e) hyp_ops \<Rightarrow> nat option \<Rightarrow> interrupt_route \<Rightarrow> 'v
    \<Rightarrow> ((irq_error + unit) \<times> interrupt_route \<times> 'v) option" where
  "rt_set_notifier H eventfd r v =
    (let old = rt_irq_fd r; r = r\<lparr> rt_irq_fd := eventfd \<rparr> in
     if rt_registered r
     then case rt_gsi r of
            None \<Rightarrow> None
          | Some gsi \<Rightarrow>
              (case (case eventfd of None \<Rightarrow> (True, v) | Some fd \<Rightarrow> hv_register_irqfd H fd gsi v) of
                 (False, v1) \<Rightarrow> Some (Inl IrqfdRegister, r, v1)
               | (True, v1) \<Rightarrow>
                   Some (Inr (), r, case old of None \<Rightarrow> v1
                                    | Some fd \<Rightarrow> snd (hv_unregister_irqfd H fd gsi v1)))
     else Some (Inr (), r, v))"

text \<open>\<open>Drop\<close>: the GSI goes back to the allocator; a failure panics.\<close>

definition rt_drop :: "interrupt_route \<Rightarrow> system_allocator \<Rightarrow> system_allocator option" where
  "rt_drop r a =
    (case rt_gsi r of
       None \<Rightarrow> Some a
     | Some gsi \<Rightarrow> (case sys_free_gsi a gsi of Some (Inr _, a') \<Rightarrow> Some a' | _ \<Rightarrow> None))"

subsection \<open>Remapping\<close>

definition remap_register ::
  "interrupt_remapper \<Rightarrow> u32 \<Rightarrow> (u32 \<Rightarrow> msi_config \<Rightarrow> msi_config option) \<Rightarrow> interrupt_remapper" where
  "remap_register m dev f = bt_insert dev f m"

definition remap_unregister :: "interrupt_remapper \<Rightarrow> u32 \<Rightarrow> interrupt_remapper" where
  "remap_unregister m dev = bt_remove dev m"

definition remap_resolve :: "interrupt_remapper \<Rightarrow> msi_config \<Rightarrow> msi_config" where
  "remap_resolve m cfg =
    (case Option.bind (bt_get m (devid cfg)) (\<lambda>f. f (devid cfg) cfg) of
       None \<Rightarrow> cfg | Some cfg' \<Rightarrow> cfg')"

subsection \<open>Groups\<close>

definition set_gsi_routes ::
  "('v, 'e) hyp_ops \<Rightarrow> ('v, 'e) msi_manager \<Rightarrow> (irq_error + unit) \<times> ('v, 'e) msi_manager" where
  "set_gsi_routes H m =
    (let entry_vec = map (re_route \<circ> snd) (filter (\<lambda>(_, e). \<not> re_masked e) (mm_routes m)) in
     case hv_set_gsi_routing H entry_vec (mm_vm m) of
       (ok, v) \<Rightarrow> (if ok then Inr () else Inl GsiRouting, m\<lparr> mm_vm := v \<rparr>))"

text \<open>The loops of \<open>enable\<close> and \<open>disable\<close> stop at the first failure.\<close>

fun for_routes ::
  "(interrupt_route \<Rightarrow> 'v \<Rightarrow> (irq_error + unit) \<times> interrupt_route \<times> 'v) \<Rightarrow> irq_routes \<Rightarrow> 'v
    \<Rightarrow> (irq_error + unit) \<times> irq_routes \<times> 'v" where
  "for_routes f [] v = (Inr (), [], v)"
| "for_routes f ((i, r) # rs) v =
    (case f r v of
       (Inl e, r', v') \<Rightarrow> (Inl e, (i, r') # rs, v')
     | (Inr _, r', v') \<Rightarrow>
         (case for_routes f rs v' of (res, rs', v'') \<Rightarrow> (res, (i, r') # rs', v'')))"

definition grp_enable ::
  "('v, 'e) hyp_ops \<Rightarrow> irq_routes \<times> ('v, 'e) msi_manager
    \<Rightarrow> (irq_routes \<times> ('v, 'e) msi_manager) irq_result" where
  "grp_enable H = (\<lambda>(g, m). case for_routes (rt_enable H) g (mm_vm m) of
     (res, g', v) \<Rightarrow> Some (res, g', m\<lparr> mm_vm := v \<rparr>))"

definition grp_disable ::
  "('v, 'e) hyp_ops \<Rightarrow> irq_routes \<times> ('v, 'e) msi_manager
    \<Rightarrow> (irq_routes \<times> ('v, 'e) msi_manager) irq_result" where
  "grp_disable H = (\<lambda>(g, m). case for_routes (rt_disable H) g (mm_vm m) of
     (res, g', v) \<Rightarrow> Some (res, g', m\<lparr> mm_vm := v \<rparr>))"

definition grp_trigger ::
  "('v, 'e) hyp_ops \<Rightarrow> u32 \<Rightarrow> irq_routes \<times> ('v, 'e) msi_manager
    \<Rightarrow> (irq_routes \<times> ('v, 'e) msi_manager) irq_result" where
  "grp_trigger H index = (\<lambda>(g, m).
     case bt_get g index of
       None \<Rightarrow> Some (Inl (InvalidIndex index), g, m)
     | Some r \<Rightarrow> (case rt_trigger H r (mm_vm m) of (res, v) \<Rightarrow> Some (res, g, m\<lparr> mm_vm := v \<rparr>)))"

text \<open>The part of \<open>update\<close> after the GSI is known.\<close>

definition grp_install ::
  "('v, 'e) hyp_ops \<Rightarrow> u32 \<Rightarrow> interrupt_source_config \<Rightarrow> bool \<Rightarrow> bool \<Rightarrow> u32 \<Rightarrow> interrupt_route
    \<Rightarrow> irq_routes \<times> ('v, 'e) msi_manager \<Rightarrow> (irq_error + unit) \<times> irq_routes \<times> ('v, 'e) msi_manager" where
  "grp_install H index config masked set_gsi gsi r = (\<lambda>(g, m).
    let entry = \<lparr> re_route = hv_make_routing_entry H gsi config, re_masked = masked \<rparr> in
    case (if masked then rt_disable H r (mm_vm m) else (Inr (), r, mm_vm m)) of
      (Inl e, r, v) \<Rightarrow> (Inl e, bt_insert index r g, m\<lparr> mm_vm := v \<rparr>)
    | (Inr _, r, v) \<Rightarrow>
        (let m = m\<lparr> mm_vm := v, mm_routes := bt_insert gsi entry (mm_routes m) \<rparr> in
         case (if set_gsi then set_gsi_routes H m else (Inr (), m)) of
           (Inl e, m) \<Rightarrow> (Inl e, bt_insert index r g, m)
         | (Inr _, m) \<Rightarrow>
             if \<not> masked
             then (case rt_enable H r (mm_vm m) of
                     (res, r, v) \<Rightarrow> (res, bt_insert index r g, m\<lparr> mm_vm := v \<rparr>))
             else (Inr (), bt_insert index r g, m)))"

definition remap_config :: "interrupt_remapper \<Rightarrow> interrupt_source_config \<Rightarrow> interrupt_source_config" where
  "remap_config rm config =
    (case config of MsiIrq cfg \<Rightarrow> MsiIrq (remap_resolve rm cfg) | _ \<Rightarrow> config)"

definition grp_update ::
  "('v, 'e) hyp_ops \<Rightarrow> u32 \<Rightarrow> interrupt_source_config \<Rightarrow> bool \<Rightarrow> bool
    \<Rightarrow> irq_routes \<times> ('v, 'e) msi_manager \<Rightarrow> (irq_routes \<times> ('v, 'e) msi_manager) irq_result" where
  "grp_update H index config masked set_gsi = (\<lambda>(g, m).
    let config = remap_config (mm_remappings m) config in
    case bt_get g index of
      None \<Rightarrow> Some (Inl (InvalidIndex index), g, m)
    | Some r \<Rightarrow>
        if masked
        then (case rt_gsi r of
                None \<Rightarrow> Some (Inr (), g, m)
              | Some gsi \<Rightarrow> Some (grp_install H index config masked set_gsi gsi r (g, m)))
        else (case rt_allocate_gsi r (mm_allocator m) of
                None \<Rightarrow> None
              | Some (Inl e, r, a) \<Rightarrow> Some (Inl e, bt_insert index r g, m\<lparr> mm_allocator := a \<rparr>)
              | Some (Inr gsi, r, a) \<Rightarrow>
                  Some (grp_install H index config masked set_gsi gsi r
                          (g, m\<lparr> mm_allocator := a \<rparr>))))"

definition grp_set_gsi ::
  "('v, 'e) hyp_ops \<Rightarrow> irq_routes \<times> ('v, 'e) msi_manager
    \<Rightarrow> (irq_routes \<times> ('v, 'e) msi_manager) irq_result" where
  "grp_set_gsi H = (\<lambda>(g, m). case set_gsi_routes H m of (res, m') \<Rightarrow> Some (res, g, m'))"

definition grp_set_notifier ::
  "('v, 'e) hyp_ops \<Rightarrow> u32 \<Rightarrow> nat option \<Rightarrow> irq_routes \<times> ('v, 'e) msi_manager
    \<Rightarrow> (irq_routes \<times> ('v, 'e) msi_manager) irq_result" where
  "grp_set_notifier H index eventfd = (\<lambda>(g, m).
     case bt_get g index of
       None \<Rightarrow> Some (Inr (), g, m)
     | Some r \<Rightarrow>
         map_option (\<lambda>(res, r', v). (res, bt_insert index r' g, m\<lparr> mm_vm := v \<rparr>))
           (rt_set_notifier H eventfd r (mm_vm m)))"

definition msi_ops :: "('v, 'e) hyp_ops \<Rightarrow> (irq_routes \<times> ('v, 'e) msi_manager) isg_ops" where
  "msi_ops H = \<lparr> isg_enable = grp_enable H, isg_disable = grp_disable H,
     isg_trigger = grp_trigger H, isg_update = grp_update H, isg_set_gsi = grp_set_gsi H \<rparr>"

subsection \<open>The manager\<close>

definition mm_new :: "system_allocator \<Rightarrow> 'v \<Rightarrow> ('v, 'e) msi_manager" where
  "mm_new a v = \<lparr> mm_allocator = a, mm_vm = v, mm_routes = [], mm_remappings = [] \<rparr>"

fun create_routes ::
  "('v, 'e) hyp_ops \<Rightarrow> u32 list \<Rightarrow> irq_routes \<Rightarrow> 'v \<Rightarrow> (irq_error + irq_routes) \<times> 'v" where
  "create_routes H [] g v = (Inr g, v)"
| "create_routes H (i # is) g v =
    (case rt_new H v of
       (Inl e, v') \<Rightarrow> (Inl e, v')
     | (Inr r, v') \<Rightarrow> create_routes H is (bt_insert i r g) v')"

definition create_group ::
  "('v, 'e) hyp_ops \<Rightarrow> u32 \<Rightarrow> u32 \<Rightarrow> ('v, 'e) msi_manager
    \<Rightarrow> (irq_error + irq_routes) \<times> ('v, 'e) msi_manager" where
  "create_group H base count m =
    (case create_routes H (map word_of_nat [unat base..<unat (base + count)]) [] (mm_vm m) of
       (res, v) \<Rightarrow> (res, m\<lparr> mm_vm := v \<rparr>))"

fun drop_routes :: "irq_routes \<Rightarrow> system_allocator \<Rightarrow> system_allocator option" where
  "drop_routes [] a = Some a"
| "drop_routes ((i, r) # rs) a =
    (case rt_drop r a of None \<Rightarrow> None | Some a' \<Rightarrow> drop_routes rs a')"

definition drop_group :: "irq_routes \<Rightarrow> ('v, 'e) msi_manager \<Rightarrow> ('v, 'e) msi_manager option" where
  "drop_group g m = map_option (\<lambda>a. m\<lparr> mm_allocator := a \<rparr>) (drop_routes g (mm_allocator m))"

section \<open>The GSI pool behind the allocator\<close>

abbreviation gsi_pool :: "system_allocator \<Rightarrow> interrupt_allocator" where
  "gsi_pool a \<equiv> ga_gsis (gsi_alloc a)"

abbreviation gsi_used :: "system_allocator \<Rightarrow> nat set" where
  "gsi_used a \<equiv> ia_used (gsi_pool a)"

lemma sys_allocate_gsi_cases:
  assumes "ia_wf (gsi_pool a)"
  shows "\<exists>r a'. sys_allocate_gsi a = Some (r, a') \<and> ia_wf (gsi_pool a')
    \<and> (case r of Inl e \<Rightarrow> gsi_used a' = gsi_used a
       | Inr x \<Rightarrow> unat x \<notin> gsi_used a \<and> gsi_used a' = insert (unat x) (gsi_used a))"
proof -
  let ?s = "gsi_pool a"
  obtain r s' where al: "ia_alloc ?s = Some (r, s')" and wf: "ia_wf s'"
    and sp: "case spec_alloc (unat (ia_offset ?s)) (unat (ia_offset ?s) + unat (ia_size ?s))
           (ia_used ?s) of
         None \<Rightarrow> r = Inl (ExhaustedError (ia_size ?s)) \<and> s' = ?s
       | Some v \<Rightarrow> r = Inr (of_nat v) \<and> v \<in> ia_range ?s \<and> v \<notin> ia_used ?s
           \<and> ia_used s' = insert v (ia_used ?s)"
    using ia_alloc_refines [OF assms] by blast
  have "sys_allocate_gsi a = Some (r, a\<lparr> gsi_alloc := (gsi_alloc a)\<lparr> ga_gsis := s' \<rparr> \<rparr>)"
    by (simp add: sys_allocate_gsi_def allocate_gsi_def al)
  then show ?thesis
    using sp wf ia_range_unat(2) [OF assms] by (auto split: option.splits)
qed

lemma sys_free_gsi_used:
  assumes "ia_wf (gsi_pool a)" "unat x \<in> gsi_used a"
  shows "\<exists>a'. sys_free_gsi a x = Some (Inr (), a') \<and> ia_wf (gsi_pool a')
    \<and> gsi_used a' = gsi_used a - {unat x}"
proof -
  have "unat x \<in> ia_range (gsi_pool a)" using assms(2) by (simp add: ia_used_def)
  from ia_free_in_range [OF assms(1) this] assms(2)
  obtain s' where "ia_free (gsi_pool a) x = Some (Inr (), s')" "ia_wf s'"
      "ia_used s' = gsi_used a - {unat x}"
    by auto
  then show ?thesis by (simp add: sys_free_gsi_def free_gsi_def)
qed

section \<open>Invariant\<close>

text \<open>
  \<open>routes_ok X U G\<close>: the GSIs of the routes \<open>G\<close> are allocated (in \<open>U\<close>), owned by nobody else
  (not in \<open>X\<close>) and pairwise distinct; a registered route has a GSI.
\<close>

definition routes_ok :: "nat set \<Rightarrow> nat set \<Rightarrow> (u32 \<Rightarrow> interrupt_route option) \<Rightarrow> bool" where
  "routes_ok X U G \<longleftrightarrow> X \<subseteq> U
     \<and> (\<forall>i r x. G i = Some r \<longrightarrow> rt_gsi r = Some x \<longrightarrow> unat x \<in> U \<and> unat x \<notin> X)
     \<and> (\<forall>i j r s x. G i = Some r \<longrightarrow> G j = Some s \<longrightarrow> rt_gsi r = Some x \<longrightarrow> rt_gsi s = Some x
          \<longrightarrow> i = j)
     \<and> (\<forall>i r. G i = Some r \<longrightarrow> rt_registered r \<longrightarrow> rt_gsi r \<noteq> None)"

definition msi_inv :: "nat set \<Rightarrow> irq_routes \<times> ('v, 'e) msi_manager \<Rightarrow> bool" where
  "msi_inv X = (\<lambda>(g, m). bt_wf g \<and> bt_wf (mm_routes m) \<and> ia_wf (gsi_pool (mm_allocator m))
     \<and> routes_ok X (gsi_used (mm_allocator m)) (bt_get g))"

definition msi_vectors :: "irq_routes \<times> ('v, 'e) msi_manager \<Rightarrow> u32 set" where
  "msi_vectors = (\<lambda>(g, m). dom (bt_get g))"

definition msi_delivers ::
  "('v, 'e) hyp_ops \<Rightarrow> irq_routes \<times> ('v, 'e) msi_manager \<Rightarrow> u32 \<Rightarrow> interrupt_source_config \<Rightarrow> bool" where
  "msi_delivers H = (\<lambda>(g, m) i c. \<exists>r x. bt_get g i = Some r \<and> rt_registered r \<and> rt_gsi r = Some x
     \<and> bt_get (mm_routes m) x = Some \<lparr> re_route = hv_make_routing_entry H x
          (remap_config (mm_remappings m) c), re_masked = False \<rparr>)"

definition msi_quiet :: "irq_routes \<times> ('v, 'e) msi_manager \<Rightarrow> u32 \<Rightarrow> bool" where
  "msi_quiet = (\<lambda>(g, m) i. \<forall>r. bt_get g i = Some r \<longrightarrow> \<not> rt_registered r)"

text \<open>No vector that is masked in the routing table has its event descriptor registered with the
  hypervisor (the condition the comments of \<open>update\<close> ask for).\<close>

definition no_masked_irqfd :: "irq_routes \<times> ('v, 'e) msi_manager \<Rightarrow> bool" where
  "no_masked_irqfd = (\<lambda>(g, m). \<forall>i r. bt_get g i = Some r \<longrightarrow> rt_registered r \<longrightarrow>
     (\<exists>x e. rt_gsi r = Some x \<and> bt_get (mm_routes m) x = Some e \<and> \<not> re_masked e))"

lemma routes_ok_same_gsi:
  assumes "routes_ok X U G" "G i = Some r" "rt_gsi r' = rt_gsi r"
    and "rt_registered r' \<Longrightarrow> rt_gsi r' \<noteq> None"
  shows "routes_ok X U (G(i \<mapsto> r'))"
  unfolding routes_ok_def
proof (intro conjI allI impI)
  show "X \<subseteq> U" using assms(1) by (simp add: routes_ok_def)
next
  fix j s x assume "(G(i \<mapsto> r')) j = Some s" "rt_gsi s = Some x"
  then have "\<exists>t k. G k = Some t \<and> rt_gsi t = Some x"
    using assms(2,3) by (auto split: if_splits)
  then show "unat x \<in> U" "unat x \<notin> X" using assms(1) unfolding routes_ok_def by blast+
next
  fix j k s t x assume "(G(i \<mapsto> r')) j = Some s" "(G(i \<mapsto> r')) k = Some t"
    "rt_gsi s = Some x" "rt_gsi t = Some x"
  then have "(\<exists>s. G j = Some s \<and> rt_gsi s = Some x) \<and> (\<exists>t. G k = Some t \<and> rt_gsi t = Some x)"
    using assms(2,3) by (auto split: if_splits)
  then show "j = k" using assms(1) unfolding routes_ok_def by blast
next
  fix j s assume "(G(i \<mapsto> r')) j = Some s" "rt_registered s"
  then show "rt_gsi s \<noteq> None"
    using assms unfolding routes_ok_def by (cases "j = i") (fastforce split: if_splits)+
qed

lemma routes_ok_fresh:
  assumes "routes_ok X U G" "unat x \<notin> U" "rt_gsi r' = Some x"
  shows "routes_ok X (insert (unat x) U) (G(i \<mapsto> r'))"
  using assms unfolding routes_ok_def by (fastforce split: if_splits)

section \<open>One route, one update\<close>

lemma rt_enable_shape:
  assumes "rt_enable H r v = (res, r', v')"
  shows "rt_gsi r' = rt_gsi r" "rt_irq_fd r' = rt_irq_fd r"
    "rt_registered r \<Longrightarrow> res = Inr () \<and> r' = r"
    "rt_registered r' \<Longrightarrow> \<not> rt_registered r \<Longrightarrow> rt_gsi r \<noteq> None"
    "res = Inr () \<Longrightarrow> rt_gsi r \<noteq> None \<Longrightarrow> rt_registered r'"
  using assms
  by (auto simp: rt_enable_def split: option.splits if_splits prod.splits bool.splits)

lemma rt_disable_shape:
  assumes "rt_disable H r v = (res, r', v')"
  shows "rt_gsi r' = rt_gsi r" "rt_irq_fd r' = rt_irq_fd r"
    "rt_registered r' \<Longrightarrow> rt_registered r"
    "res = Inr () \<Longrightarrow> rt_gsi r \<noteq> None \<Longrightarrow> \<not> rt_registered r'"
  using assms
  by (auto simp: rt_disable_def split: option.splits if_splits prod.splits bool.splits)

lemma set_gsi_routes_shape:
  "set_gsi_routes H m = (res, m') \<Longrightarrow> \<exists>v. m' = m\<lparr> mm_vm := v \<rparr>"
  by (auto simp: set_gsi_routes_def Let_def case_prod_unfold)

text \<open>What installing an entry for a GSI leaves behind, whatever fails.\<close>

lemma grp_install_shape:
  assumes "grp_install H i c k s x r (g, m) = (res, g', m')" "rt_gsi r = Some x"
  shows "\<exists>r'. g' = bt_insert i r' g \<and> rt_gsi r' = Some x
    \<and> mm_allocator m' = mm_allocator m \<and> mm_remappings m' = mm_remappings m
    \<and> (mm_routes m' = bt_insert x \<lparr> re_route = hv_make_routing_entry H x c, re_masked = k \<rparr> (mm_routes m)
         \<and> (rt_registered r' \<longrightarrow> \<not> k)
       \<or> mm_routes m' = mm_routes m \<and> rt_registered r' = rt_registered r \<and> res \<noteq> Inr ())
    \<and> (res = Inr () \<longrightarrow> rt_registered r' = (\<not> k))"
proof -
  define entry where "entry = \<lparr> re_route = hv_make_routing_entry H x c, re_masked = k \<rparr>"
  obtain d r1 v1 where d: "(if k then rt_disable H r (mm_vm m) else (Inr (), r, mm_vm m)) = (d, r1, v1)"
    by (cases "if k then rt_disable H r (mm_vm m) else (Inr (), r, mm_vm m)") auto
  have r1: "rt_gsi r1 = Some x"
    using d assms(2) rt_disable_shape(1) [of H r "mm_vm m" d r1 v1] by (cases k) simp_all
  have quiet: "\<not> rt_registered r1" if "k" "d = Inr ()"
    using d that assms(2) rt_disable_shape(4) [of H r "mm_vm m" d r1 v1] by simp
  show ?thesis
  proof (cases d)
    case (Inl e)
    then have "k" using d by (auto split: if_splits)
    then have "r1 = r" using d Inl
      by (auto simp: rt_disable_def split: option.splits if_splits prod.splits bool.splits)
    then show ?thesis
      using assms d Inl by (auto simp: grp_install_def Let_def)
  next
    case (Inr u)
    define m1 where "m1 = m\<lparr> mm_vm := v1, mm_routes := bt_insert x entry (mm_routes m) \<rparr>"
    obtain q m2 where q: "(if s then set_gsi_routes H m1 else (Inr (), m1)) = (q, m2)"
      by (cases "if s then set_gsi_routes H m1 else (Inr (), m1)") auto
    have "\<exists>v. m2 = m1\<lparr> mm_vm := v \<rparr>"
    proof (cases s)
      case True
      then show ?thesis using q set_gsi_routes_shape by auto
    next
      case False
      then have "m2 = m1\<lparr> mm_vm := mm_vm m1 \<rparr>" using q by simp
      then show ?thesis by blast
    qed
    then obtain v2 where m2: "m2 = m1\<lparr> mm_vm := v2 \<rparr>" by blast
    have inst: "(res, g', m') = (case q of Inl e \<Rightarrow> (Inl e, bt_insert i r1 g, m2)
        | Inr _ \<Rightarrow> if \<not> k then (case rt_enable H r1 (mm_vm m2) of
            (res, r, v) \<Rightarrow> (res, bt_insert i r g, m2\<lparr> mm_vm := v \<rparr>))
          else (Inr (), bt_insert i r1 g, m2))"
      using assms(1) d q [unfolded m1_def entry_def] Inr
      by (simp add: grp_install_def Let_def split: sum.splits)
    obtain e r2 v3 where e: "rt_enable H r1 (mm_vm m2) = (e, r2, v3)"
      by (cases "rt_enable H r1 (mm_vm m2)") auto
    note en = rt_enable_shape [OF e]
    show ?thesis
    proof (cases "q = Inr () \<and> \<not> k")
      case True
      then show ?thesis
        using inst e en r1 by (simp add: m2 m1_def entry_def) blast
    next
      case False
      then have "g' = bt_insert i r1 g" "m' = m2" "res = Inr () \<longrightarrow> k"
        using inst by (auto split: sum.splits if_splits)
      then show ?thesis
        using quiet r1 Inr by (auto simp: m2 m1_def entry_def)
    qed
  qed
qed

lemma rt_allocate_gsi_cases:
  assumes "ia_wf (gsi_pool a)" and "routes_ok X (gsi_used a) G" and "G i = Some r"
  shows "\<exists>res r' a'. rt_allocate_gsi r a = Some (res, r', a') \<and> ia_wf (gsi_pool a')
    \<and> routes_ok X (gsi_used a') (G(i \<mapsto> r')) \<and> rt_registered r' = rt_registered r
    \<and> (\<forall>x. res = Inr x \<longrightarrow> rt_gsi r' = Some x)"
proof (cases "rt_gsi r")
  case (Some x)
  moreover have "G(i \<mapsto> r) = G" using assms(3) by auto
  ultimately show ?thesis using assms by (simp add: rt_allocate_gsi_def)
next
  case None
  obtain q a' where q: "sys_allocate_gsi a = Some (q, a')" "ia_wf (gsi_pool a')"
    and cs: "case q of Inl e \<Rightarrow> gsi_used a' = gsi_used a
       | Inr x \<Rightarrow> unat x \<notin> gsi_used a \<and> gsi_used a' = insert (unat x) (gsi_used a)"
    using sys_allocate_gsi_cases [OF assms(1)] by blast
  show ?thesis
  proof (cases q)
    case (Inl e)
    moreover have "G(i \<mapsto> r) = G" using assms(3) by auto
    ultimately show ?thesis using q cs None assms by (simp add: rt_allocate_gsi_def)
  next
    case (Inr x)
    then have "routes_ok X (gsi_used a') (G(i \<mapsto> r\<lparr> rt_gsi := Some x \<rparr>))"
      using cs routes_ok_fresh [OF assms(2), of x] by simp
    then show ?thesis using q Inr None by (simp add: rt_allocate_gsi_def)
  qed
qed

text \<open>What \<open>update\<close> leaves behind for an existing vector, on every path: the route \<open>r'\<close> of the
  vector, and the routing table either untouched or with the new entry for the GSI of \<open>r'\<close>.\<close>

definition update_effect ::
  "('v, 'e) hyp_ops \<Rightarrow> nat set \<Rightarrow> u32 \<Rightarrow> interrupt_source_config \<Rightarrow> bool \<Rightarrow> irq_routes
    \<Rightarrow> ('v, 'e) msi_manager \<Rightarrow> interrupt_route \<Rightarrow> irq_error + unit \<Rightarrow> irq_routes
    \<Rightarrow> ('v, 'e) msi_manager \<Rightarrow> interrupt_route \<Rightarrow> bool" where
  "update_effect H X i c k g m r res g' m' r' \<longleftrightarrow>
     bt_wf g' \<and> bt_wf (mm_routes m') \<and> ia_wf (gsi_pool (mm_allocator m'))
   \<and> routes_ok X (gsi_used (mm_allocator m')) (bt_get g')
   \<and> mm_remappings m' = mm_remappings m \<and> bt_get g' = (bt_get g)(i \<mapsto> r')
   \<and> (bt_get (mm_routes m') = bt_get (mm_routes m) \<and> rt_registered r' = rt_registered r
        \<and> (rt_registered r \<longrightarrow> rt_gsi r' = rt_gsi r)
        \<and> (res = Inr () \<longrightarrow> k \<and> \<not> rt_registered r')
      \<or> (\<exists>x. rt_gsi r' = Some x
           \<and> bt_get (mm_routes m') = (bt_get (mm_routes m))(x \<mapsto> \<lparr> re_route =
               hv_make_routing_entry H x (remap_config (mm_remappings m) c), re_masked = k \<rparr>)
           \<and> (rt_registered r' \<longrightarrow> \<not> k) \<and> (res = Inr () \<longrightarrow> rt_registered r' = (\<not> k))))"

lemma grp_install_effect:
  assumes "bt_wf g" "bt_wf (mm_routes m)" "ia_wf (gsi_pool (mm_allocator m))"
    "routes_ok X (gsi_used (mm_allocator m)) ((bt_get g)(i \<mapsto> r))" "rt_gsi r = Some x"
    "rt_registered r = rt_registered r0" "rt_registered r0 \<longrightarrow> rt_gsi r0 = rt_gsi r"
    and inst: "grp_install H i (remap_config (mm_remappings m) c) k s x r (g, m) = (res, g', m')"
  shows "\<exists>r'. update_effect H X i c k g m r0 res g' m' r'"
proof -
  obtain r' where r': "g' = bt_insert i r' g" "rt_gsi r' = Some x"
      "mm_allocator m' = mm_allocator m" "mm_remappings m' = mm_remappings m"
    and alt: "mm_routes m' = bt_insert x \<lparr> re_route = hv_make_routing_entry H x
            (remap_config (mm_remappings m) c), re_masked = k \<rparr> (mm_routes m)
         \<and> (rt_registered r' \<longrightarrow> \<not> k)
       \<or> mm_routes m' = mm_routes m \<and> rt_registered r' = rt_registered r \<and> res \<noteq> Inr ()"
    and ok: "res = Inr () \<longrightarrow> rt_registered r' = (\<not> k)"
    using grp_install_shape [OF inst assms(5)] by blast
  have "routes_ok X (gsi_used (mm_allocator m)) ((bt_get g)(i \<mapsto> r, i \<mapsto> r'))"
    by (rule routes_ok_same_gsi [OF assms(4)]) (use r'(2) assms(5) in auto)
  then have ro: "routes_ok X (gsi_used (mm_allocator m')) ((bt_get g)(i \<mapsto> r'))"
    using r'(3) by simp
  have wf: "bt_wf (mm_routes m')" using alt assms(2) by auto
  have "update_effect H X i c k g m r0 res g' m' r'"
    unfolding update_effect_def
    using assms(1,3,5,6,7) r' alt ok ro wf by (auto simp: bt_simps)
  then show ?thesis by blast
qed

lemma grp_update_effect:
  assumes inv: "msi_inv X (g, m)" and r: "bt_get g i = Some r"
  shows "\<exists>res g' m' r'. grp_update H i c k s (g, m) = Some (res, g', m')
    \<and> update_effect H X i c k g m r res g' m' r'"
proof -
  have wf: "bt_wf g" "bt_wf (mm_routes m)" "ia_wf (gsi_pool (mm_allocator m))"
    and ok: "routes_ok X (gsi_used (mm_allocator m)) (bt_get g)"
    using inv by (simp_all add: msi_inv_def)
  have same: "(bt_get g)(i \<mapsto> r) = bt_get g" using r by auto
  have reg: "rt_registered r \<Longrightarrow> rt_gsi r \<noteq> None" using ok r unfolding routes_ok_def by blast
  show ?thesis
  proof (cases k)
    case masked: True
    show ?thesis
    proof (cases "rt_gsi r")
      case None
      then have "grp_update H i c k s (g, m) = Some (Inr (), g, m)"
        using r masked by (simp add: grp_update_def Let_def)
      moreover have "update_effect H X i c k g m r (Inr ()) g m r"
        using wf ok same reg None masked by (auto simp: update_effect_def)
      ultimately show ?thesis by blast
    next
      case (Some x)
      obtain res g' m' where inst: "grp_install H i (remap_config (mm_remappings m) c) k s x r (g, m)
          = (res, g', m')"
        by (metis prod_cases3)
      then have "grp_update H i c k s (g, m) = Some (res, g', m')"
        using r masked Some by (simp add: grp_update_def Let_def)
      with grp_install_effect [OF wf _ Some _ _ inst, of X r] ok same
      show ?thesis by auto
    qed
  next
    case unmasked: False
    obtain q r1 a where q: "rt_allocate_gsi r (mm_allocator m) = Some (q, r1, a)"
      and a: "ia_wf (gsi_pool a)" "routes_ok X (gsi_used a) ((bt_get g)(i \<mapsto> r1))"
        "rt_registered r1 = rt_registered r" "\<forall>x. q = Inr x \<longrightarrow> rt_gsi r1 = Some x"
      using rt_allocate_gsi_cases [OF wf(3) ok r] by blast
    have keep: "rt_registered r \<longrightarrow> rt_gsi r = rt_gsi r1"
      using q reg by (auto simp: rt_allocate_gsi_def split: option.splits)
    let ?m = "m\<lparr> mm_allocator := a \<rparr>"
    show ?thesis
    proof (cases q)
      case (Inl e)
      then have "grp_update H i c k s (g, m) = Some (Inl e, bt_insert i r1 g, ?m)"
        using r unmasked q by (simp add: grp_update_def Let_def)
      moreover have "update_effect H X i c k g m r (Inl e) (bt_insert i r1 g) ?m r1"
        using wf a keep by (auto simp: update_effect_def bt_simps)
      ultimately show ?thesis by blast
    next
      case (Inr x)
      obtain res g' m' where inst: "grp_install H i (remap_config (mm_remappings m) c) k s x r1 (g, ?m)
          = (res, g', m')"
        by (metis prod_cases3)
      then have "grp_update H i c k s (g, m) = Some (res, g', m')"
        using r unmasked q Inr by (simp add: grp_update_def Let_def)
      moreover have "\<exists>r'. update_effect H X i c k g ?m r res g' m' r'"
        using wf a keep Inr inst by (intro grp_install_effect [of g ?m X i r1 x]) auto
      ultimately show ?thesis by (auto simp: update_effect_def)
    qed
  qed
qed

section \<open>The group implements the interface\<close>

lemma update_effect_other:
  assumes eff: "update_effect H X i c k g m r res g' m' r'" and "j \<noteq> i"
  shows "msi_delivers H (g', m') j d = msi_delivers H (g, m) j d"
    and "msi_quiet (g', m') j = msi_quiet (g, m) j"
proof -
  have get: "bt_get g' = (bt_get g)(i \<mapsto> r')"
    and ok: "routes_ok X (gsi_used (mm_allocator m')) (bt_get g')"
    and rm: "mm_remappings m' = mm_remappings m"
    using eff unfolding update_effect_def by blast+
  show "msi_quiet (g', m') j = msi_quiet (g, m) j"
    using get assms(2) by (simp add: msi_quiet_def)
  have "bt_get (mm_routes m') y = bt_get (mm_routes m) y"
    if "bt_get g j = Some t" "rt_gsi t = Some y" for t y
  proof -
    have j: "bt_get g' j = Some t" and i: "bt_get g' i = Some r'" using get that assms(2) by auto
    have "rt_gsi r' \<noteq> Some y"
      using ok i j that(2) assms(2) unfolding routes_ok_def by blast
    then show ?thesis using eff by (auto simp: update_effect_def)
  qed
  then show "msi_delivers H (g', m') j d = msi_delivers H (g, m) j d"
    using get assms(2) rm by (auto simp: msi_delivers_def)
qed

lemma update_effect_self:
  assumes eff: "update_effect H X i c k g m r (Inr ()) g' m' r'"
  shows "if k then msi_quiet (g', m') i else msi_delivers H (g', m') i c"
  using assms by (auto simp: update_effect_def msi_quiet_def msi_delivers_def)

lemma grp_update_cases:
  assumes "msi_inv X (g, m)"
  obtains (invalid) "bt_get g i = None"
      "grp_update H i c k s (g, m) = Some (Inl (InvalidIndex i), g, m)"
    | (valid) r res g' m' r' where "bt_get g i = Some r"
      "grp_update H i c k s (g, m) = Some (res, g', m')"
      "update_effect H X i c k g m r res g' m' r'"
proof (cases "bt_get g i")
  case None
  then show ?thesis by (intro invalid) (simp_all add: grp_update_def Let_def)
next
  case (Some r)
  then show ?thesis using grp_update_effect [OF assms Some] valid by metis
qed

lemma grp_update_valid:
  assumes "msi_inv X (g, m)" "grp_update H i c k s (g, m) = Some (Inr u, g', m')"
  shows "\<exists>r r'. bt_get g i = Some r \<and> update_effect H X i c k g m r (Inr u) g' m' r'"
  by (rule grp_update_cases [OF assms(1), of i H c k s]) (use assms(2) in auto)

lemma update_effect_inv: "update_effect H X i c k g m r res g' m' r' \<Longrightarrow> msi_inv X (g', m')"
  unfolding update_effect_def msi_inv_def prod.case by blast

lemma update_effect_get: "update_effect H X i c k g m r res g' m' r' \<Longrightarrow> bt_get g' = (bt_get g)(i \<mapsto> r')"
  unfolding update_effect_def by blast

lemma msi_frame_vm [simp]:
  "msi_inv X (g, m\<lparr> mm_vm := v \<rparr>) = msi_inv X (g, m)"
  "msi_vectors (g, m\<lparr> mm_vm := v \<rparr>) = msi_vectors (g, m)"
  "msi_delivers H (g, m\<lparr> mm_vm := v \<rparr>) = msi_delivers H (g, m)"
  "msi_quiet (g, m\<lparr> mm_vm := v \<rparr>) = msi_quiet (g, m)"
  "no_masked_irqfd (g, m\<lparr> mm_vm := v \<rparr>) = no_masked_irqfd (g, m)"
  by (simp_all add: msi_inv_def msi_vectors_def msi_delivers_def msi_quiet_def no_masked_irqfd_def
      fun_eq_iff)

lemma grp_trigger_shape: "\<exists>res v. grp_trigger H i (g, m) = Some (res, g, m\<lparr> mm_vm := v \<rparr>)"
proof (cases "bt_get g i")
  case None
  then have "grp_trigger H i (g, m) = Some (Inl (InvalidIndex i), g, m\<lparr> mm_vm := mm_vm m \<rparr>)"
    by (simp add: grp_trigger_def)
  then show ?thesis by blast
qed (auto simp: grp_trigger_def split: prod.splits)

lemma grp_set_gsi_shape: "\<exists>res v. grp_set_gsi H (g, m) = Some (res, g, m\<lparr> mm_vm := v \<rparr>)"
  using set_gsi_routes_shape [of H m] by (auto simp: grp_set_gsi_def split: prod.splits)

interpretation msi: interrupt_source_group "msi_ops H" "msi_inv X" msi_vectors "msi_delivers H" msi_quiet
  for H X
proof
  fix st :: "irq_routes \<times> ('a, 'b) msi_manager" and i c k s
  obtain g m where st: "st = (g, m)" by (cases st)
  {
    assume inv: "msi_inv X st"
    note cases = grp_update_cases [OF inv [unfolded st], of i H c k s]
    show "\<exists>r g'. isg_update (msi_ops H) i c k s st = Some (r, g')"
      by (rule cases) (simp_all add: msi_ops_def st)
    show "isg_update (msi_ops H) i c k s st = Some (Inl (InvalidIndex i), st)"
      if "i \<notin> msi_vectors st"
      using that by (simp add: msi_ops_def st grp_update_def msi_vectors_def dom_def Let_def)
    fix r st'
    assume up: "isg_update (msi_ops H) i c k s st = Some (r, st')"
    show "msi_inv X st' \<and> msi_vectors st' = msi_vectors st"
    proof (rule cases)
      fix r0 res g' m' r'
      assume r0: "bt_get g i = Some r0" "grp_update H i c k s (g, m) = Some (res, g', m')"
        and eff: "update_effect H X i c k g m r0 res g' m' r'"
      have "dom (bt_get g') = dom (bt_get g)"
        unfolding update_effect_get [OF eff] using r0(1) by auto
      then show ?thesis
        using up r0(2) update_effect_inv [OF eff] by (auto simp: msi_ops_def st msi_vectors_def)
    qed (use up inv in \<open>simp_all add: msi_ops_def st\<close>)
    show "msi_delivers H st' j d = msi_delivers H st j d \<and> msi_quiet st' j = msi_quiet st j"
      if "j \<noteq> i" for j d
    proof (rule cases)
      fix r0 res g' m' r'
      assume "grp_update H i c k s (g, m) = Some (res, g', m')"
        and eff: "update_effect H X i c k g m r0 res g' m' r'"
      then show ?thesis
        using up update_effect_other [OF eff that] by (auto simp: msi_ops_def st)
    qed (use up in \<open>simp_all add: msi_ops_def st\<close>)
  }
  have self: "if k then msi_quiet st' i else msi_delivers H st' i c"
    if "msi_inv X st" "isg_update (msi_ops H) i c k s st = Some (Inr u, st')" for u st' k
  proof (rule grp_update_cases [OF that(1) [unfolded st], of i H c k s])
    fix r0 res g' m' r'
    assume "grp_update H i c k s (g, m) = Some (res, g', m')"
      and eff: "update_effect H X i c k g m r0 res g' m' r'"
    then have "res = Inr ()" "st' = (g', m')" using that(2) by (simp_all add: msi_ops_def st)
    then show ?thesis using update_effect_self eff by blast
  qed (use that(2) in \<open>simp_all add: msi_ops_def st\<close>)
  show "msi_delivers H st' i c"
    if "msi_inv X st" "isg_update (msi_ops H) i c False s st = Some (Inr u, st')" for u st'
    using self [OF that] by simp
  show "msi_quiet st' i"
    if "msi_inv X st" "isg_update (msi_ops H) i c True s st = Some (Inr u, st')" for u st'
    using self [OF that] by simp
  fix r st'
  show "\<exists>r g'. isg_trigger (msi_ops H) i st = Some (r, g')"
    using grp_trigger_shape [of H i g m] by (auto simp: msi_ops_def st)
  show "\<exists>r g'. isg_set_gsi (msi_ops H) st = Some (r, g')"
    using grp_set_gsi_shape [of H g m] by (auto simp: msi_ops_def st)
  show "msi_inv X st' = msi_inv X st \<and> msi_vectors st' = msi_vectors st
      \<and> msi_delivers H st' = msi_delivers H st \<and> msi_quiet st' = msi_quiet st"
    if "isg_trigger (msi_ops H) i st = Some (r, st')"
    using that grp_trigger_shape [of H i g m] by (auto simp: msi_ops_def st)
  show "msi_inv X st' = msi_inv X st \<and> msi_vectors st' = msi_vectors st
      \<and> msi_delivers H st' = msi_delivers H st \<and> msi_quiet st' = msi_quiet st"
    if "isg_set_gsi (msi_ops H) st = Some (r, st')"
    using that grp_set_gsi_shape [of H g m] by (auto simp: msi_ops_def st)
qed

section \<open>Loops over the routes\<close>

definition route_rel ::
  "(interrupt_route \<Rightarrow> interrupt_route \<Rightarrow> bool) \<Rightarrow> u32 \<times> interrupt_route \<Rightarrow> u32 \<times> interrupt_route \<Rightarrow> bool"
  where "route_rel P a b \<longleftrightarrow> fst a = fst b \<and> P (snd a) (snd b)"

lemma route_rel_Pair [simp]: "route_rel P (i, r) (j, s) \<longleftrightarrow> i = j \<and> P r s"
  by (simp add: route_rel_def)

lemma for_routes_rel:
  assumes "for_routes f g v = (res, g', v')" and "\<And>r v. P r (fst (snd (f r v)))" "\<And>r. P r r"
  shows "list_all2 (route_rel P) g g'"
  using assms(1)
proof (induction g arbitrary: v res g' v')
  case Nil
  then show ?case by simp
next
  case (Cons a rs)
  obtain i r where a: "a = (i, r)" by (cases a)
  obtain q r1 v1 where q: "f r v = (q, r1, v1)" by (metis prod_cases3)
  have refl: "list_all2 (route_rel P) rs rs"
    by (rule list_all2_refl) (simp add: route_rel_def assms(3))
  have "P r r1" using assms(2) [of r v] q by simp
  then show ?case
    using Cons q refl a by (cases q) (auto split: prod.splits)
qed

lemma routes_rel_get:
  assumes "list_all2 (route_rel P) g g'"
  shows "rel_option P (bt_get g i) (bt_get g' i)" and "bt_wf g' = bt_wf g"
proof -
  show "rel_option P (bt_get g i) (bt_get g' i)"
    using assms by (induction rule: list_all2_induct) (auto simp: bt_get_def route_rel_def)
  have "map fst g' = map fst g"
    using assms by (induction rule: list_all2_induct) (auto simp: route_rel_def)
  then show "bt_wf g' = bt_wf g" by (simp add: bt_wf_def)
qed

definition same_gsi :: "interrupt_route \<Rightarrow> interrupt_route \<Rightarrow> bool" where
  "same_gsi r r' \<longleftrightarrow> rt_gsi r' = rt_gsi r \<and> (rt_registered r' \<longrightarrow> rt_registered r \<or> rt_gsi r \<noteq> None)"

lemma routes_ok_rel:
  assumes "routes_ok X U G" and "\<And>i. rel_option same_gsi (G i) (G' i)"
  shows "routes_ok X U G'"
proof -
  have pre: "\<exists>r. G i = Some r \<and> same_gsi r r'" if "G' i = Some r'" for i r'
    using assms(2) [of i] that by (auto simp: option_rel_Some2)
  have gsi: "\<exists>r. G i = Some r \<and> rt_gsi r = Some x" if "G' i = Some r'" "rt_gsi r' = Some x" for i r' x
    using pre [OF that(1)] that(2) by (auto simp: same_gsi_def)
  show ?thesis
    unfolding routes_ok_def
  proof (intro conjI allI impI)
    show "X \<subseteq> U" using assms(1) by (simp add: routes_ok_def)
  next
    fix i r x assume "G' i = Some r" "rt_gsi r = Some x"
    then have "\<exists>r. G i = Some r \<and> rt_gsi r = Some x" by (rule gsi)
    then show "unat x \<in> U" "unat x \<notin> X" using assms(1) unfolding routes_ok_def by blast+
  next
    fix i j r s x assume "G' i = Some r" "G' j = Some s" "rt_gsi r = Some x" "rt_gsi s = Some x"
    then have "(\<exists>r. G i = Some r \<and> rt_gsi r = Some x) \<and> (\<exists>s. G j = Some s \<and> rt_gsi s = Some x)"
      using gsi by blast
    then show "i = j" using assms(1) unfolding routes_ok_def by blast
  next
    fix i r assume "G' i = Some r" "rt_registered r"
    then obtain r0 where "G i = Some r0" "same_gsi r0 r" using pre by blast
    moreover have "rt_gsi r0 \<noteq> None" if "rt_registered r0"
      using assms(1) that calculation(1) unfolding routes_ok_def by blast
    ultimately show "rt_gsi r \<noteq> None"
      using \<open>rt_registered r\<close> by (auto simp: same_gsi_def)
  qed
qed

lemma rt_enable_same_gsi: "same_gsi r (fst (snd (rt_enable H r v)))"
proof -
  obtain res r' v' where e: "rt_enable H r v = (res, r', v')" by (metis prod_cases3)
  from rt_enable_shape(1,3,4) [OF e] show ?thesis by (auto simp: e same_gsi_def)
qed

lemma rt_disable_same_gsi: "same_gsi r (fst (snd (rt_disable H r v)))"
proof -
  obtain res r' v' where e: "rt_disable H r v = (res, r', v')" by (metis prod_cases3)
  from rt_disable_shape(1,3,4) [OF e] show ?thesis by (auto simp: e same_gsi_def)
qed

lemma grp_loop_inv:
  assumes "msi_inv X (g, m)" "for_routes f g (mm_vm m) = (res, g', v)"
    and "\<And>r v. same_gsi r (fst (snd (f r v)))"
  shows "msi_inv X (g', m\<lparr> mm_vm := v \<rparr>)"
proof -
  have "list_all2 (route_rel same_gsi) g g'"
    by (rule for_routes_rel [OF assms(2), where P = same_gsi]) (rule assms(3), simp add: same_gsi_def)
  note rel = routes_rel_get [OF this]
  show ?thesis
    using assms(1) rel(2) routes_ok_rel [OF _ rel(1)] by (simp add: msi_inv_def)
qed

end
