(* ===== verification/MsiManager.thy ===== *)
theory MsiManager
  imports MsiGroup
begin

text \<open>
  What holds of the groups of \<^verbatim>\<open>vmm/src/interrupt.rs\<close> over whole runs: vectors that are masked
  are not registered with the hypervisor, and all groups of one manager together never share a
  GSI, give back exactly what they hold when dropped, and do not disturb each other.
\<close>

section \<open>Masked vectors are not registered\<close>

lemma no_masked_rel:
  assumes "no_masked_irqfd (g, m)" and "\<And>i. rel_option P (bt_get g i) (bt_get g' i)"
    and "\<And>r r'. P r r' \<Longrightarrow> rt_gsi r' = rt_gsi r \<and> (rt_registered r' \<longrightarrow> rt_registered r)"
  shows "no_masked_irqfd (g', m)"
proof -
  have "\<exists>x e. rt_gsi r' = Some x \<and> bt_get (mm_routes m) x = Some e \<and> \<not> re_masked e"
    if t: "bt_get g' i = Some r'" "rt_registered r'" for i r'
  proof -
    obtain r where "bt_get g i = Some r" "P r r'"
      using assms(2) [of i] t(1) by (cases "bt_get g i") auto
    then show ?thesis
      using assms(1) assms(3) [of r r'] t(2) unfolding no_masked_irqfd_def by auto
  qed
  then show ?thesis by (simp add: no_masked_irqfd_def)
qed

lemma update_keeps_no_masked:
  assumes eff: "update_effect H X i c k g m r res g' m' r'" and "bt_get g i = Some r"
    and "no_masked_irqfd (g, m)"
  shows "no_masked_irqfd (g', m')"
proof -
  have get: "bt_get g' = (bt_get g)(i \<mapsto> r')" by (rule update_effect_get [OF eff])
  have ok: "routes_ok X (gsi_used (mm_allocator m')) (bt_get g')"
    using eff unfolding update_effect_def by blast
  have "\<exists>x e. rt_gsi t = Some x \<and> bt_get (mm_routes m') x = Some e \<and> \<not> re_masked e"
    if t: "bt_get g' j = Some t" "rt_registered t" for j t
  proof (cases "j = i")
    case True
    then have "t = r'" using t get by simp
    show ?thesis
      using eff
    proof (unfold update_effect_def, elim conjE disjE)
      assume "bt_get (mm_routes m') = bt_get (mm_routes m)" "rt_registered r' = rt_registered r"
        "rt_registered r \<longrightarrow> rt_gsi r' = rt_gsi r"
      then show ?thesis
        using assms(2,3) t \<open>t = r'\<close> unfolding no_masked_irqfd_def by auto
    next
      assume "\<exists>x. rt_gsi r' = Some x
           \<and> bt_get (mm_routes m') = (bt_get (mm_routes m))(x \<mapsto> \<lparr> re_route =
               hv_make_routing_entry H x (remap_config (mm_remappings m) c), re_masked = k \<rparr>)
           \<and> (rt_registered r' \<longrightarrow> \<not> k) \<and> (res = Inr () \<longrightarrow> rt_registered r' = (\<not> k))"
      then show ?thesis using t \<open>t = r'\<close> by auto
    qed
  next
    case False
    then have "bt_get g j = Some t" using t get by simp
    then obtain x e where x: "rt_gsi t = Some x" "bt_get (mm_routes m) x = Some e" "\<not> re_masked e"
      using assms(3) t(2) unfolding no_masked_irqfd_def by blast
    have "rt_gsi r' \<noteq> Some x"
      using ok t(1) x(1) get False unfolding routes_ok_def by (metis fun_upd_same)
    then have "bt_get (mm_routes m') x = bt_get (mm_routes m) x"
      using eff unfolding update_effect_def by auto
    then show ?thesis using x by auto
  qed
  then show ?thesis by (simp add: no_masked_irqfd_def)
qed

text \<open>The calls a device makes on its group, other than \<open>enable\<close>.\<close>

inductive grp_step :: "('v, 'e) hyp_ops \<Rightarrow> irq_routes \<times> ('v, 'e) msi_manager
    \<Rightarrow> irq_routes \<times> ('v, 'e) msi_manager \<Rightarrow> bool" for H where
  update: "grp_update H i c k s st = Some (res, st') \<Longrightarrow> grp_step H st st'"
| disable: "grp_disable H st = Some (res, st') \<Longrightarrow> grp_step H st st'"
| trigger: "grp_trigger H i st = Some (res, st') \<Longrightarrow> grp_step H st st'"
| set_gsi: "grp_set_gsi H st = Some (res, st') \<Longrightarrow> grp_step H st st'"

lemma grp_step_keeps:
  assumes "grp_step H st st'" "msi_inv X st" "no_masked_irqfd st"
  shows "msi_inv X st' \<and> no_masked_irqfd st'"
proof -
  obtain g m where st: "st = (g, m)" by (cases st)
  show ?thesis
    using assms(1)
  proof cases
    case (update i c k s res)
    show ?thesis
    proof (rule grp_update_cases [OF assms(2) [unfolded st], of i H c k s])
      fix r res' g' m' r'
      assume "bt_get g i = Some r" "grp_update H i c k s (g, m) = Some (res', g', m')"
        and eff: "update_effect H X i c k g m r res' g' m' r'"
      then show ?thesis
        using update update_effect_inv [OF eff] update_keeps_no_masked [OF eff] assms(3)
        by (auto simp: st)
    qed (use update assms in \<open>simp_all add: st\<close>)
  next
    case (disable res)
    obtain res' g' v where loop: "for_routes (rt_disable H) g (mm_vm m) = (res', g', v)"
      by (metis prod_cases3)
    then have st': "st' = (g', m\<lparr> mm_vm := v \<rparr>)" using disable by (simp add: grp_disable_def st)
    let ?P = "\<lambda>r r'. rt_gsi r' = rt_gsi r \<and> (rt_registered r' \<longrightarrow> rt_registered r)"
    have shape: "?P r (fst (snd (rt_disable H r v)))" for r v
      using rt_disable_shape(1,3) [of H r v] by (metis prod.collapse)
    have "list_all2 (route_rel ?P) g g'"
      by (rule for_routes_rel [OF loop, where P = ?P]) (rule shape, simp)
    note rel = routes_rel_get(1) [OF this]
    have "no_masked_irqfd (g', m)"
      by (rule no_masked_rel [OF assms(3) [unfolded st] rel]) blast
    then show ?thesis
      using grp_loop_inv [OF assms(2) [unfolded st] loop rt_disable_same_gsi] by (simp add: st')
  next
    case (trigger i res)
    then show ?thesis using grp_trigger_shape [of H i g m] assms by (auto simp: st)
  next
    case (set_gsi res)
    then show ?thesis using grp_set_gsi_shape [of H g m] assms by (auto simp: st)
  qed
qed

definition idle_route :: "interrupt_route \<Rightarrow> bool" where
  "idle_route r \<longleftrightarrow> rt_gsi r = None \<and> \<not> rt_registered r"

lemma create_routes_idle:
  "create_routes H is g v = (Inr g', v') \<Longrightarrow> bt_wf g \<Longrightarrow> (\<forall>i r. bt_get g i = Some r \<longrightarrow> idle_route r)
   \<Longrightarrow> bt_wf g' \<and> (\<forall>i r. bt_get g' i = Some r \<longrightarrow> idle_route r)"
proof (induction "is" arbitrary: g v)
  case Nil
  then show ?case by simp
next
  case (Cons i "is")
  then obtain r v1 where r: "rt_new H v = (Inr r, v1)"
      and rest: "create_routes H is (bt_insert i r g) v1 = (Inr g', v')"
    by (auto split: prod.splits sum.splits)
  have "idle_route r" using r by (auto simp: rt_new_def idle_route_def split: prod.splits option.splits)
  then have "\<forall>j t. bt_get (bt_insert i r g) j = Some t \<longrightarrow> idle_route t"
    using Cons.prems(3) by (auto simp: bt_simps)
  with Cons.IH [OF rest] Cons.prems(2) show ?case by simp
qed

lemma create_group_idle:
  assumes "create_group H base count m = (Inr g, m')"
  shows "bt_wf g" "\<And>i r. bt_get g i = Some r \<Longrightarrow> idle_route r" "\<exists>v. m' = m\<lparr> mm_vm := v \<rparr>"
proof -
  obtain q v where c: "create_routes H (map word_of_nat [unat base..<unat (base + count)]) [] (mm_vm m)
      = (q, v)" by (metis surj_pair)
  then have q: "q = Inr g" "m' = m\<lparr> mm_vm := v \<rparr>" using assms by (auto simp: create_group_def)
  from create_routes_idle [OF c [unfolded q(1)]] q(2)
  show "bt_wf g" "\<And>i r. bt_get g i = Some r \<Longrightarrow> idle_route r" "\<exists>v. m' = m\<lparr> mm_vm := v \<rparr>"
    by (auto simp: bt_get_def)
qed

lemma create_group_inv:
  assumes "create_group H base count m = (Inr g, m')"
    and "ia_wf (gsi_pool (mm_allocator m))" "bt_wf (mm_routes m)"
    and "X \<subseteq> gsi_used (mm_allocator m)"
  shows "msi_inv X (g, m')" "no_masked_irqfd (g, m')"
proof -
  obtain v where m': "m' = m\<lparr> mm_vm := v \<rparr>" using create_group_idle(3) [OF assms(1)] by blast
  note idle = create_group_idle(1,2) [OF assms(1)]
  have "routes_ok X (gsi_used (mm_allocator m)) (bt_get g)"
    using idle(2) assms(4) unfolding routes_ok_def idle_route_def by fastforce
  then show "msi_inv X (g, m')" using idle(1) assms by (simp add: msi_inv_def m')
  show "no_masked_irqfd (g, m')"
    using idle(2) by (auto simp: no_masked_irqfd_def idle_route_def)
qed

text \<open>
  C11: A vector that is masked never has its event descriptor registered with the hypervisor.
  After \<open>create_group\<close> and any sequence of \<open>update\<close>, \<open>disable\<close>, \<open>trigger\<close> and \<open>set_gsi\<close> calls, whatever
  hypervisor calls fail on the way, every registered route of the group has a GSI whose entry in
  the routing table is unmasked: \<open>update\<close> unregisters before it masks and registers only after the
  routing table holds the entry.
\<close>
theorem masked_irqfd_unregistered:
  assumes "ia_wf (gsi_pool (mm_allocator m))" "bt_wf (mm_routes m)"
    and "create_group H base count m = (Inr g, m1)"
    and "(grp_step H)\<^sup>*\<^sup>* (g, m1) (g', m')"
  shows "no_masked_irqfd (g', m')"
proof -
  have "msi_inv {} (g', m') \<and> no_masked_irqfd (g', m')"
    using assms(4)
  proof (induction "(g', m')" arbitrary: g' m' rule: rtranclp_induct)
    case base
    then show ?case using create_group_inv [OF assms(3,1,2), of "{}"] by simp
  next
    case (step st g' m')
    then show ?case using grp_step_keeps by (metis surj_pair)
  qed
  then show ?thesis ..
qed

text \<open>A hypervisor whose calls succeed and whose descriptors are numbered from its state.\<close>

definition calm_hyp :: "(nat, u32 \<times> interrupt_source_config) hyp_ops" where
  "calm_hyp = \<lparr> hv_register_irqfd = (\<lambda>fd gsi v. (True, v)), hv_unregister_irqfd = (\<lambda>fd gsi v. (True, v)),
     hv_set_gsi_routing = (\<lambda>es v. (True, v)), hv_make_routing_entry = (\<lambda>gsi c. (gsi, c)),
     ev_new = (\<lambda>v. (Some v, Suc v)), ev_write = (\<lambda>fd v. (True, v)) \<rparr>"

lemma sample_manager:
  obtains m :: "(nat, u32 \<times> interrupt_source_config) msi_manager"
  where "ia_wf (gsi_pool (mm_allocator m))" "bt_wf (mm_routes m)" "mm_vm m = 0"
    "gsi_used (mm_allocator m) = {}"
proof -
  obtain a where new: "ia_new 64 24 = Some a" using ia_new_Some [of 64 24] by auto
  define sys where "sys = \<lparr> io_address_space = \<lparr> aa_base = 0, aa_end = 1, aa_ranges = [] \<rparr>,
     platform_mmio_address_space = \<lparr> aa_base = 0, aa_end = 1, aa_ranges = [] \<rparr>,
     gsi_alloc = \<lparr> ga_apics = [], ga_irqs = a, ga_gsis = a \<rparr> \<rparr>"
  show ?thesis
    using ia_new_wf [OF new] by (intro that [of "mm_new sys 0"]) (simp_all add: mm_new_def sys_def)
qed

theorem masked_irqfd_unregistered_witness:
  "\<exists>m g m1 g' m'. ia_wf (gsi_pool (mm_allocator m)) \<and> create_group calm_hyp 0 2 m = (Inr g, m1)
     \<and> grp_step calm_hyp (g, m1) (g', m') \<and> no_masked_irqfd (g', m')"
proof -
  obtain m :: "(nat, u32 \<times> interrupt_source_config) msi_manager"
    where m: "ia_wf (gsi_pool (mm_allocator m))" "bt_wf (mm_routes m)" "mm_vm m = 0"
    using sample_manager by blast
  have "[unat (0 :: u32)..<unat (0 + 2 :: u32)] = [0, 1]" by (simp add: upt_rec)
  then obtain g m1 where g: "create_group calm_hyp 0 2 m = (Inr g, m1)"
    by (simp add: create_group_def rt_new_def calm_hyp_def)
  have "msi_inv {} (g, m1)" using create_group_inv(1) [OF g m(1,2)] by simp
  from msi.update_total [OF this, of calm_hyp 0 "LegacyIrq 0 0" False True]
  obtain r g' m' where "grp_update calm_hyp 0 (LegacyIrq 0 0) False True (g, m1) = Some (r, g', m')"
    by (auto simp: msi_ops_def)
  then have step: "grp_step calm_hyp (g, m1) (g', m')" by (rule grp_step.update)
  from masked_irqfd_unregistered [OF m(1,2) g] step have "no_masked_irqfd (g', m')" by blast
  with m g step show ?thesis by blast
qed

section \<open>Successful loops\<close>

lemma for_routes_success:
  assumes "for_routes f g v = (Inr u, g', v')"
    and "\<And>r v w r' v'. f r v = (Inr w, r', v') \<Longrightarrow> P r r'"
  shows "list_all2 (route_rel P) g g'"
  using assms(1)
proof (induction g arbitrary: v g')
  case Nil
  then show ?case by simp
next
  case (Cons a rs)
  obtain i r where a: "a = (i, r)" by (cases a)
  obtain q r1 v1 where q: "f r v = (q, r1, v1)" by (metis prod_cases3)
  have "q = Inr ()" using Cons.prems q a by (cases q) (auto split: prod.splits)
  moreover obtain q' rs' v2 where rs: "for_routes f rs v1 = (q', rs', v2)" by (metis prod_cases3)
  ultimately have "q' = Inr u" "g' = (i, r1) # rs'" "v2 = v'"
    using Cons.prems q a by auto
  then show ?case using Cons.IH rs q assms(2) \<open>q = Inr ()\<close> a by auto
qed

text \<open>A successful \<open>disable\<close> silences every vector of the group.\<close>

lemma grp_disable_quiet:
  assumes "msi_inv X (g, m)" "grp_disable H (g, m) = Some (Inr u, st')"
  shows "msi_quiet st' i"
proof -
  obtain g' v where loop: "for_routes (rt_disable H) g (mm_vm m) = (Inr (), g', v)"
      and st': "st' = (g', m\<lparr> mm_vm := v \<rparr>)"
    using assms(2) by (auto simp: grp_disable_def split: prod.splits)
  let ?P = "\<lambda>r r'. rt_gsi r \<noteq> None \<or> \<not> rt_registered r \<longrightarrow> \<not> rt_registered r'"
  have shape: "?P r r'" if "rt_disable H r v = (Inr w, r', v')" for r v w r' v'
    using rt_disable_shape(3,4) [OF that] by auto
  have "list_all2 (route_rel ?P) g g'"
    by (rule for_routes_success [OF loop, where P = ?P]) (rule shape)
  note rel = routes_rel_get(1) [OF this, of i]
  have "\<not> rt_registered r'" if r': "bt_get g' i = Some r'" for r'
  proof -
    obtain r where "bt_get g i = Some r" "?P r r'"
      using rel r' by (cases "bt_get g i") auto
    moreover from this(1) have "rt_registered r \<Longrightarrow> rt_gsi r \<noteq> None"
      using assms(1) unfolding msi_inv_def routes_ok_def by blast
    ultimately show ?thesis by blast
  qed
  then show ?thesis by (simp add: msi_quiet_def st')
qed

text \<open>\<open>enable\<close> does not look at the mask: a vector that was unmasked once and is masked now is
  registered again.  \<open>MsiConfig::update\<close> calls it in this situation when MSI is switched off and on
  with a masked vector.\<close>

lemma enable_registers_masked:
  assumes "msi_inv X (g, m)"
    and on: "grp_update H i c False s (g, m) = Some (Inr u1, g1, m1)"
    and off: "grp_update H i c True s' (g1, m1) = Some (Inr u2, g2, m2)"
    and en: "grp_enable H (g2, m2) = Some (Inr u3, g3, m3)"
  shows "\<not> no_masked_irqfd (g3, m3)"
proof -
  obtain r r1 where e1: "update_effect H X i c False g m r (Inr ()) g1 m1 r1"
    using grp_update_valid [OF assms(1) on] by auto
  have inv1: "msi_inv X (g1, m1)" by (rule update_effect_inv [OF e1])
  have r1: "rt_registered r1" "bt_get g1 i = Some r1"
    using e1 update_effect_get [OF e1] unfolding update_effect_def by auto
  obtain r2 where e2: "update_effect H X i c True g1 m1 r1 (Inr ()) g2 m2 r2"
    using grp_update_valid [OF inv1 off] r1(2) by auto
  then obtain x where x: "rt_gsi r2 = Some x" "\<exists>e. bt_get (mm_routes m2) x = Some e \<and> re_masked e"
    using r1(1) unfolding update_effect_def by auto
  obtain v where loop: "for_routes (rt_enable H) g2 (mm_vm m2) = (Inr (), g3, v)"
      and m3: "m3 = m2\<lparr> mm_vm := v \<rparr>"
    using en by (auto simp: grp_enable_def split: prod.splits)
  let ?P = "\<lambda>r r'. rt_gsi r' = rt_gsi r \<and> (rt_gsi r \<noteq> None \<longrightarrow> rt_registered r')"
  have shape: "?P r r'" if "rt_enable H r v = (Inr w, r', v')" for r v w r' v'
    using rt_enable_shape(1,5) [OF that] by auto
  have "list_all2 (route_rel ?P) g2 g3"
    by (rule for_routes_success [OF loop, where P = ?P]) (rule shape)
  from routes_rel_get(1) [OF this, of i]
  obtain r3 where "bt_get g3 i = Some r3" "rt_registered r3" "rt_gsi r3 = Some x"
    using update_effect_get [OF e2] x(1) by (auto simp: option_rel_Some1)
  then show ?thesis
    using x(2) by (auto simp: no_masked_irqfd_def m3 intro!: exI [of _ i] exI [of _ r3])
qed

section \<open>All groups of a machine\<close>

definition gsis_of :: "irq_routes \<Rightarrow> nat set" where
  "gsis_of g = {unat x | i r x. bt_get g i = Some r \<and> rt_gsi r = Some x}"

definition world_inv :: "irq_routes list \<Rightarrow> ('v, 'e) msi_manager \<Rightarrow> bool" where
  "world_inv gs m \<longleftrightarrow> ia_wf (gsi_pool (mm_allocator m)) \<and> bt_wf (mm_routes m)
     \<and> (\<forall>g \<in> set gs. msi_inv {} (g, m))
     \<and> sorted_wrt (\<lambda>g h. gsis_of g \<inter> gsis_of h = {}) gs"

lemma gsis_of_disjoint:
  "gsis_of g \<inter> X = {} \<longleftrightarrow> (\<forall>i r x. bt_get g i = Some r \<longrightarrow> rt_gsi r = Some x \<longrightarrow> unat x \<notin> X)"
  by (auto simp: gsis_of_def)

lemma gsis_of_subset:
  "gsis_of g \<subseteq> U \<longleftrightarrow> (\<forall>i r x. bt_get g i = Some r \<longrightarrow> rt_gsi r = Some x \<longrightarrow> unat x \<in> U)"
  by (auto simp: gsis_of_def)

lemma routes_ok_split:
  "routes_ok X U (bt_get g) \<longleftrightarrow> routes_ok {} U (bt_get g) \<and> X \<subseteq> U \<and> gsis_of g \<inter> X = {}"
  unfolding gsis_of_disjoint routes_ok_def by (rule iffI; elim conjE; intro conjI; blast)

lemma routes_ok_gsis: "routes_ok X U (bt_get g) \<Longrightarrow> gsis_of g \<subseteq> U"
  unfolding gsis_of_subset routes_ok_def by blast

lemma routes_ok_pool:
  "routes_ok {} U (bt_get g) \<Longrightarrow> gsis_of g \<subseteq> U' \<Longrightarrow> routes_ok {} U' (bt_get g)"
  unfolding gsis_of_subset routes_ok_def by blast

lemma msi_inv_split:
  "msi_inv X (g, m) \<longleftrightarrow> msi_inv {} (g, m) \<and> X \<subseteq> gsi_used (mm_allocator m) \<and> gsis_of g \<inter> X = {}"
  unfolding msi_inv_def prod.case routes_ok_split [of X]
  by (rule iffI; elim conjE; intro conjI; assumption)

lemma gsis_of_used: "msi_inv X (g, m) \<Longrightarrow> gsis_of g \<subseteq> gsi_used (mm_allocator m)"
  using routes_ok_gsis by (auto simp: msi_inv_def)

text \<open>An operation on one group keeps the invariant of all of them.\<close>

lemma world_local:
  assumes w: "world_inv (as @ g # bs) m"
    and op: "\<And>X. msi_inv X (g, m) \<Longrightarrow> msi_inv X (g', m')"
  shows "world_inv (as @ g' # bs) m'"
proof -
  define X where "X = (\<Union>h \<in> set (as @ bs). gsis_of h)"
  have h: "msi_inv {} (h, m)" if "h \<in> set (as @ bs)" for h
    using w that by (auto simp: world_inv_def)
  have "msi_inv {} (g, m)" using w by (simp add: world_inv_def)
  moreover have "gsis_of g \<inter> X = {}"
    using w unfolding X_def by (auto simp: world_inv_def sorted_wrt_append)
  moreover have "X \<subseteq> gsi_used (mm_allocator m)" using h gsis_of_used unfolding X_def by blast
  ultimately have "msi_inv X (g, m)" by (simp only: msi_inv_split [of X g m])
  then have "msi_inv X (g', m')" by (rule op)
  then have "msi_inv {} (g', m') \<and> X \<subseteq> gsi_used (mm_allocator m') \<and> gsis_of g' \<inter> X = {}"
    by (rule msi_inv_split [THEN iffD1])
  then have g': "msi_inv {} (g', m')" "X \<subseteq> gsi_used (mm_allocator m')" "gsis_of g' \<inter> X = {}"
    by simp_all
  have inv': "msi_inv {} (h, m')" if "h \<in> set (as @ bs)" for h
  proof -
    have "gsis_of h \<subseteq> gsi_used (mm_allocator m')" using that g'(2) unfolding X_def by blast
    then show ?thesis
      using h [OF that] g'(1) routes_ok_pool by (auto simp: msi_inv_def)
  qed
  have disj: "gsis_of h \<inter> gsis_of g' = {}" "gsis_of g' \<inter> gsis_of h = {}" if "h \<in> set (as @ bs)" for h
    using that g'(3) unfolding X_def by auto
  have "ia_wf (gsi_pool (mm_allocator m'))" "bt_wf (mm_routes m')"
    using g'(1) by (simp_all add: msi_inv_def)
  moreover have "\<forall>h \<in> set (as @ g' # bs). msi_inv {} (h, m')" using inv' g'(1) by simp
  moreover have "sorted_wrt (\<lambda>g h. gsis_of g \<inter> gsis_of h = {}) (as @ g' # bs)"
    using w disj by (simp add: world_inv_def sorted_wrt_append)
  ultimately show ?thesis by (simp add: world_inv_def)
qed

lemma rt_set_notifier_shape:
  assumes "rt_set_notifier H fd r v = Some (res, r', v')"
  shows "r' = r\<lparr> rt_irq_fd := fd \<rparr>"
  using assms by (auto simp: rt_set_notifier_def Let_def split: if_splits option.splits prod.splits bool.splits)

lemma rt_set_notifier_total:
  "(rt_registered r \<Longrightarrow> rt_gsi r \<noteq> None) \<Longrightarrow> \<exists>res r' v'. rt_set_notifier H fd r v = Some (res, r', v')"
  by (auto simp: rt_set_notifier_def Let_def split: if_splits option.splits prod.splits bool.splits)

lemma grp_set_notifier_inv:
  assumes "msi_inv X (g, m)" "grp_set_notifier H i fd (g, m) = Some (res, g', m')"
  shows "msi_inv X (g', m')"
proof (cases "bt_get g i")
  case None
  then show ?thesis using assms by (simp add: grp_set_notifier_def)
next
  case (Some r)
  then obtain r' v where n: "rt_set_notifier H fd r (mm_vm m) = Some (res, r', v)"
      and g': "g' = bt_insert i r' g" "m' = m\<lparr> mm_vm := v \<rparr>"
    using assms(2) by (auto simp: grp_set_notifier_def)
  have inv: "bt_wf g" "routes_ok X (gsi_used (mm_allocator m)) (bt_get g)"
    using assms(1) by (simp_all add: msi_inv_def)
  have reg: "rt_registered r \<Longrightarrow> rt_gsi r \<noteq> None" using inv(2) Some unfolding routes_ok_def by blast
  have "routes_ok X (gsi_used (mm_allocator m)) ((bt_get g)(i \<mapsto> r'))"
    by (rule routes_ok_same_gsi [OF inv(2) Some]) (use rt_set_notifier_shape [OF n] reg in auto)
  then show ?thesis using assms(1) by (simp add: msi_inv_def g' bt_simps)
qed

lemma grp_enable_inv:
  "msi_inv X (g, m) \<Longrightarrow> grp_enable H (g, m) = Some (res, g', m') \<Longrightarrow> msi_inv X (g', m')"
  using grp_loop_inv [OF _ _ rt_enable_same_gsi]
  by (fastforce simp: grp_enable_def split: prod.splits)

lemma grp_disable_inv:
  "msi_inv X (g, m) \<Longrightarrow> grp_disable H (g, m) = Some (res, g', m') \<Longrightarrow> msi_inv X (g', m')"
  using grp_loop_inv [OF _ _ rt_disable_same_gsi]
  by (fastforce simp: grp_disable_def split: prod.splits)

lemma routes_ok_used: "routes_ok X U G \<Longrightarrow> G i = Some r \<Longrightarrow> rt_gsi r = Some x \<Longrightarrow> unat x \<in> U"
  unfolding routes_ok_def by blast

lemma routes_ok_inj:
  "routes_ok X U G \<Longrightarrow> G i = Some r \<Longrightarrow> G j = Some s \<Longrightarrow> rt_gsi r = Some x \<Longrightarrow> rt_gsi s = Some x \<Longrightarrow> i = j"
  unfolding routes_ok_def by blast

lemma routes_ok_submap:
  "routes_ok X U G \<Longrightarrow> (\<And>i r. G' i = Some r \<Longrightarrow> G i = Some r) \<Longrightarrow> routes_ok X U G'"
  unfolding routes_ok_def by blast

lemma gsis_of_Cons:
  assumes "bt_get rs i = None"
  shows "gsis_of ((i, r) # rs) = (case rt_gsi r of None \<Rightarrow> {} | Some x \<Rightarrow> {unat x}) \<union> gsis_of rs"
proof -
  have get: "bt_get ((i, r) # rs) j = Some t \<longleftrightarrow> j = i \<and> t = r \<or> bt_get rs j = Some t" for j t
    using assms by (auto simp: bt_get_def)
  show ?thesis
    unfolding gsis_of_def get by (cases "rt_gsi r") auto
qed

text \<open>Dropping the routes of a group gives exactly their GSIs back.\<close>

lemma drop_routes_free:
  assumes "ia_wf (gsi_pool a)" "bt_wf g" "routes_ok {} (gsi_used a) (bt_get g)"
  shows "\<exists>a'. drop_routes g a = Some a' \<and> ia_wf (gsi_pool a') \<and> gsi_used a' = gsi_used a - gsis_of g"
  using assms
proof (induction g arbitrary: a)
  case Nil
  then show ?case by (simp add: gsis_of_def bt_get_def)
next
  case (Cons e rs)
  obtain i r where e: "e = (i, r)" by (cases e)
  have wf: "bt_wf rs" "bt_get rs i = None"
    using Cons.prems(2) by (auto simp: e bt_get_None_iff)
  have r: "bt_get (e # rs) i = Some r" by (simp add: e bt_get_def)
  have sub: "bt_get (e # rs) j = Some t" if "bt_get rs j = Some t" for j t
    using that wf(2) by (auto simp: e bt_get_def)
  note gs = gsis_of_Cons [OF wf(2), of r]
  have ok: "routes_ok {} (gsi_used a) (bt_get rs)"
    by (rule routes_ok_submap [OF Cons.prems(3) sub])
  show ?case
  proof (cases "rt_gsi r")
    case None
    then show ?thesis
      using Cons.IH [OF Cons.prems(1) wf(1) ok] gs by (simp add: e rt_drop_def)
  next
    case (Some x)
    from sys_free_gsi_used [OF Cons.prems(1) routes_ok_used [OF Cons.prems(3) r Some]]
    obtain a1 where a1: "sys_free_gsi a x = Some (Inr (), a1)" "ia_wf (gsi_pool a1)"
        "gsi_used a1 = gsi_used a - {unat x}" by blast
    have "unat y \<noteq> unat x" if "bt_get rs j = Some t" "rt_gsi t = Some y" for j t y
    proof
      assume "unat y = unat x"
      then have "y = x" by (simp add: word_unat_eq_iff)
      then have "j = i"
        using routes_ok_inj [OF Cons.prems(3) sub [OF that(1)] r _ Some] that(2) by simp
      then show False using that(1) wf(2) by simp
    qed
    then have "gsis_of rs \<subseteq> gsi_used a1"
      using routes_ok_used [OF ok] a1(3) by (simp add: gsis_of_subset)
    from Cons.IH [OF a1(2) wf(1) routes_ok_pool [OF ok this]] a1(3)
    obtain a' where "drop_routes rs a1 = Some a'" "ia_wf (gsi_pool a')"
        "gsi_used a' = gsi_used a - {unat x} - gsis_of rs" by auto
    then show ?thesis using a1(1) gs Some by (auto simp: e rt_drop_def)
  qed
qed

text \<open>A call on one of the groups, the creation of a group, and the end of one.\<close>

inductive mm_step :: "('v, 'e) hyp_ops \<Rightarrow> irq_routes list \<times> ('v, 'e) msi_manager
    \<Rightarrow> irq_routes list \<times> ('v, 'e) msi_manager \<Rightarrow> bool" for H where
  create: "create_group H base count m = (Inr g, m') \<Longrightarrow> mm_step H (gs, m) (g # gs, m')"
| update: "grp_update H i c k s (g, m) = Some (res, g', m') \<Longrightarrow>
    mm_step H (as @ g # bs, m) (as @ g' # bs, m')"
| enable: "grp_enable H (g, m) = Some (res, g', m') \<Longrightarrow>
    mm_step H (as @ g # bs, m) (as @ g' # bs, m')"
| disable: "grp_disable H (g, m) = Some (res, g', m') \<Longrightarrow>
    mm_step H (as @ g # bs, m) (as @ g' # bs, m')"
| notifier: "grp_set_notifier H i fd (g, m) = Some (res, g', m') \<Longrightarrow>
    mm_step H (as @ g # bs, m) (as @ g' # bs, m')"
| drop: "drop_group g m = Some m' \<Longrightarrow> mm_step H (as @ g # bs, m) (as @ bs, m')"

lemma world_drop:
  assumes w: "world_inv (as @ g # bs) m"
  shows "\<exists>m'. drop_group g m = Some m' \<and> world_inv (as @ bs) m'
    \<and> gsi_used (mm_allocator m') = gsi_used (mm_allocator m) - gsis_of g"
proof -
  have g: "msi_inv {} (g, m)" using w by (simp add: world_inv_def)
  obtain a' where a': "drop_routes g (mm_allocator m) = Some a'" "ia_wf (gsi_pool a')"
      "gsi_used a' = gsi_used (mm_allocator m) - gsis_of g"
    using drop_routes_free [of "mm_allocator m" g] g by (auto simp: msi_inv_def)
  let ?m = "m\<lparr> mm_allocator := a' \<rparr>"
  have "msi_inv {} (h, ?m)" if h: "h \<in> set (as @ bs)" for h
  proof -
    have inv: "msi_inv {} (h, m)" using w h by (auto simp: world_inv_def)
    have "gsis_of h \<inter> gsis_of g = {}"
      using w h by (auto simp: world_inv_def sorted_wrt_append Int_commute)
    then have "gsis_of h \<subseteq> gsi_used a'" using gsis_of_used [OF inv] a'(3) by blast
    then show ?thesis using inv a'(2) routes_ok_pool by (auto simp: msi_inv_def)
  qed
  then have "world_inv (as @ bs) ?m"
    using w a'(2) by (auto simp: world_inv_def sorted_wrt_append)
  then show ?thesis using a' by (simp add: drop_group_def)
qed

lemma mm_step_inv:
  assumes "mm_step H (gs, m) (gs', m')" "world_inv gs m"
  shows "world_inv gs' m'"
  using assms(1)
proof cases
  case (create base count g)
  obtain v where m': "m' = m\<lparr> mm_vm := v \<rparr>" using create_group_idle(3) [OF create(2)] by blast
  have wf: "ia_wf (gsi_pool (mm_allocator m))" "bt_wf (mm_routes m)"
    using assms(2) by (simp_all add: world_inv_def)
  have "gsis_of g = {}"
    using create_group_idle(2) [OF create(2)] by (auto simp: gsis_of_def idle_route_def)
  then show ?thesis
    using assms(2) create_group_inv(1) [OF create(2) wf, of "{}"]
    by (simp add: world_inv_def m' create(1))
next
  case (update i c k s g res g' as bs)
  have "msi_inv X (g, m) \<Longrightarrow> msi_inv X (g', m')" for X
    using msi.update_invar [of X "(g, m)" H i c k s res "(g', m')"] update(3)
    by (simp add: msi_ops_def)
  then show ?thesis using world_local assms(2) update(1,2) by blast
next
  case (enable g res g' as bs)
  then show ?thesis using world_local grp_enable_inv assms(2) by blast
next
  case (disable g res g' as bs)
  then show ?thesis using world_local grp_disable_inv assms(2) by blast
next
  case (notifier i fd g res g' as bs)
  then show ?thesis using world_local grp_set_notifier_inv assms(2) by blast
next
  case (drop g as bs)
  then show ?thesis using world_drop assms(2) by fastforce
qed

definition held_gsis :: "irq_routes \<Rightarrow> u32 list" where
  "held_gsis g = List.map_filter (\<lambda>e. rt_gsi (snd e)) g"

lemma group_gsis_distinct:
  assumes "bt_wf g" "routes_ok X U (bt_get g)"
  shows "distinct (held_gsis g)"
    and "unat ` set (held_gsis g) = gsis_of g"
proof -
  have mem: "x \<in> set (held_gsis g) \<longleftrightarrow>
      (\<exists>i r. bt_get g i = Some r \<and> rt_gsi r = Some x)" for x
    using assms(1) by (force simp: held_gsis_def List.map_filter_def bt_get_iff)
  then show "unat ` set (held_gsis g) = gsis_of g"
    unfolding gsis_of_def by blast
  show "distinct (held_gsis g)"
    using assms
  proof (induction g)
    case Nil
    then show ?case by (simp add: held_gsis_def List.map_filter_def)
  next
    case (Cons e rs)
    obtain i r where e: "e = (i, r)" by (cases e)
    have wf: "bt_wf rs" "bt_get rs i = None"
      using Cons.prems(1) by (auto simp: e bt_get_None_iff)
    have sub: "bt_get (e # rs) j = Some t" if "bt_get rs j = Some t" for j t
      using that wf(2) by (auto simp: e bt_get_def)
    have r: "bt_get (e # rs) i = Some r" by (simp add: e bt_get_def)
    have IH: "distinct (held_gsis rs)"
      by (rule Cons.IH [OF wf(1) routes_ok_submap [OF Cons.prems(2) sub]])
    have "x \<notin> set (held_gsis rs)" if x: "rt_gsi r = Some x" for x
    proof
      assume "x \<in> set (held_gsis rs)"
      then obtain j t where "bt_get rs j = Some t" "rt_gsi t = Some x"
        using wf(1) by (force simp: held_gsis_def List.map_filter_def bt_get_iff)
      then show False
        using routes_ok_inj [OF Cons.prems(2) sub r _ x] wf(2) by fastforce
    qed
    then show ?case
      using IH by (cases "rt_gsi r") (simp_all add: e held_gsis_def List.map_filter_simps)
  qed
qed

lemma world_distinct:
  assumes "world_inv gs m"
  shows "distinct (concat (map held_gsis gs))"
  using assms
proof (induction gs)
  case Nil
  then show ?case by simp
next
  case (Cons g gs)
  have g: "bt_wf g" "routes_ok {} (gsi_used (mm_allocator m)) (bt_get g)"
    using Cons.prems by (simp_all add: world_inv_def msi_inv_def)
  have "set (held_gsis g) \<inter> set (held_gsis h) = {}" if "h \<in> set gs" for h
  proof -
    have h: "bt_wf h" "routes_ok {} (gsi_used (mm_allocator m)) (bt_get h)"
      using Cons.prems that by (simp_all add: world_inv_def msi_inv_def)
    have "gsis_of g \<inter> gsis_of h = {}" using Cons.prems that by (simp add: world_inv_def)
    then show ?thesis
      using group_gsis_distinct(2) [OF g] group_gsis_distinct(2) [OF h] by blast
  qed
  then show ?case
    using Cons group_gsis_distinct(1) [OF g] by (auto simp: world_inv_def)
qed


lemma sample_group:
  fixes m :: "(nat, u32 \<times> interrupt_source_config) msi_manager"
  obtains g m' where "create_group calm_hyp 0 2 m = (Inr g, m')"
proof -
  have "[unat (0 :: u32)..<unat (0 + 2 :: u32)] = [0, 1]" by (simp add: upt_rec)
  then show ?thesis using that by (simp add: create_group_def rt_new_def calm_hyp_def)
qed




text \<open>A group of two vectors on which the calls of a device succeed.\<close>

lemma sample_update:
  obtains g and m :: "(nat, u32 \<times> interrupt_source_config) msi_manager"
  where "msi_inv {} (g, m)" "msi_vectors (g, m) = {0, 1}"
    "\<And>c k s. \<exists>g' m'. grp_update calm_hyp 0 c k s (g, m) = Some (Inr (), g', m')"
proof -
  obtain ia where new: "ia_new 64 24 = Some ia" using ia_new_Some [of 64 24] by auto
  define a where "a = \<lparr> io_address_space = \<lparr> aa_base = 0, aa_end = 1, aa_ranges = [] \<rparr>,
     platform_mmio_address_space = \<lparr> aa_base = 0, aa_end = 1, aa_ranges = [] \<rparr>,
     gsi_alloc = \<lparr> ga_apics = [], ga_irqs = ia, ga_gsis = ia \<rparr> \<rparr>"
  have wf: "ia_wf (gsi_pool a)" using ia_new_wf [OF new] by (simp add: a_def)
  define g where "g = [(0 :: u32, \<lparr> rt_gsi = None, rt_irq_fd = Some 0, rt_registered = False \<rparr>),
    (1, \<lparr> rt_gsi = None, rt_irq_fd = Some (Suc 0), rt_registered = False \<rparr>)]"
  define m :: "(nat, u32 \<times> interrupt_source_config) msi_manager"
    where "m = (mm_new a 0)\<lparr> mm_vm := 2 \<rparr>"
  have "[unat (0 :: u32)..<unat (0 + 2 :: u32)] = [0, 1]" by (simp add: upt_rec)
  then have cr: "create_group calm_hyp 0 2 (mm_new a 0) = (Inr g, m)"
    by (simp add: create_group_def rt_new_def calm_hyp_def g_def m_def mm_new_def)
  have inv: "msi_inv {} (g, m)"
    using create_group_inv(1) [OF cr] wf by (simp add: mm_new_def)
  have "take_n ia_take 1 ia \<noteq> None"
    using ia.take_n_total [of ia 1] ia_new_wf [OF new] by simp
  then obtain x ia' where "ia_alloc ia = Some (Inr x, ia')"
    by (auto simp: ia_take_def split: option.splits sum.splits)
  then obtain a' where al: "sys_allocate_gsi a = Some (Inr x, a')"
    by (simp add: sys_allocate_gsi_def allocate_gsi_def a_def)
  have "\<exists>g' m'. grp_update calm_hyp 0 c k s (g, m) = Some (Inr (), g', m')" for c k s
    by (cases k; cases s) (simp_all add: grp_update_def g_def m_def mm_new_def bt_get_def
        rt_allocate_gsi_def al grp_install_def set_gsi_routes_def calm_hyp_def rt_enable_def
        rt_disable_def Let_def)
  moreover have "msi_vectors (g, m) = {0, 1}" by (auto simp: msi_vectors_def g_def bt_get_def dom_def)
  ultimately show thesis using that inv by blast
qed

end
