(* ===== verification/ByteOrder.thy ===== *)
theory ByteOrder
  imports Prelude
begin

text \<open>
  Little-endian access to byte slices.  The devices use the \<open>byteorder\<close> crate, whose functions are
  parameters of the model; \<open>byteorder_ok\<close> is what its documentation says of them (the byte of least
  weight first).  \<open>std_le\<close> is the reference encoder, used to show that the contract can be met.
\<close>

record byteorder_ops =
  read_u16 :: "u8 list \<Rightarrow> u16"
  read_u32 :: "u8 list \<Rightarrow> u32"
  read_u64 :: "u8 list \<Rightarrow> u64"
  write_u16 :: "u16 \<Rightarrow> u8 list"
  write_u32 :: "u32 \<Rightarrow> u8 list"
  write_u64 :: "u64 \<Rightarrow> u8 list"

fun le_bytes :: "nat \<Rightarrow> 'a::len word \<Rightarrow> u8 list" where
  "le_bytes 0 w = []"
| "le_bytes (Suc n) w = ucast w # le_bytes n (drop_bit 8 w)"

fun le_word :: "u8 list \<Rightarrow> 'a::len word" where
  "le_word [] = 0"
| "le_word (b # bs) = ucast b OR push_bit 8 (le_word bs)"

definition byteorder_ok :: "byteorder_ops \<Rightarrow> bool" where
  "byteorder_ok B \<longleftrightarrow>
     (\<forall>bs. length bs = 2 \<longrightarrow> read_u16 B bs = le_word bs)
   \<and> (\<forall>bs. length bs = 4 \<longrightarrow> read_u32 B bs = le_word bs)
   \<and> (\<forall>bs. length bs = 8 \<longrightarrow> read_u64 B bs = le_word bs)
   \<and> (\<forall>w. write_u16 B w = le_bytes 2 w) \<and> (\<forall>w. write_u32 B w = le_bytes 4 w) \<and> (\<forall>w. write_u64 B w = le_bytes 8 w)"

definition std_le :: byteorder_ops where
  "std_le = \<lparr> read_u16 = le_word, read_u32 = le_word, read_u64 = le_word,
     write_u16 = le_bytes 2, write_u32 = le_bytes 4, write_u64 = le_bytes 8 \<rparr>"

lemma std_le_ok: "byteorder_ok std_le"
  by (simp add: byteorder_ok_def std_le_def)

lemma length_le_bytes [simp]: "length (le_bytes n w) = n"
  by (induction n arbitrary: w) auto

lemma le_word_bytes: "le_word (le_bytes n w) = take_bit (8 * n) w" for w :: "'a::len word"
proof (induction n arbitrary: w)
  case 0
  then show ?case by simp
next
  case (Suc n)
  show ?case
    by (rule bit_word_eqI) (auto simp: Suc bit_simps not_less)
qed

lemma bit_le_word: "bit (le_word bs :: 'a::len word) k \<Longrightarrow> k < 8 * length bs"
proof (induction bs arbitrary: k)
  case Nil
  then show ?case by simp
next
  case (Cons c cs)
  then show ?case by (fastforce simp: bit_simps dest: bit_imp_le_length)
qed

lemma le_bytes_word:
  "8 * length bs \<le> LENGTH('a) \<Longrightarrow> le_bytes (length bs) (le_word bs :: 'a::len word) = bs"
proof (induction bs)
  case Nil
  then show ?case by simp
next
  case (Cons b bs)
  let ?w = "le_word bs :: 'a word"
  have "ucast (ucast b OR push_bit 8 ?w) = b"
    using Cons.prems by (intro bit_word_eqI) (auto simp: bit_simps)
  moreover have "drop_bit 8 (ucast b OR push_bit 8 ?w) = ?w"
  proof (rule bit_word_eqI)
    fix k assume "k < LENGTH('a)"
    have "bit ?w k \<Longrightarrow> 8 + k < LENGTH('a)" using bit_le_word [of bs k] Cons.prems by force
    moreover have "\<not> bit b (8 + k)" using bit_imp_le_length [of b "8 + k"] by auto
    ultimately show "bit (drop_bit 8 (ucast b OR push_bit 8 ?w)) k = bit ?w k"
      by (auto simp: bit_simps)
  qed
  ultimately show ?case using Cons by simp
qed

lemma le_bytes_4:
  "le_bytes 4 w = [ucast w, ucast (drop_bit 8 w), ucast (drop_bit 16 w), ucast (drop_bit 24 w)]"
  by (simp add: numeral_eq_Suc)

lemma byteorder_write_read16: "byteorder_ok B \<Longrightarrow> read_u16 B (write_u16 B v) = v"
  by (simp add: byteorder_ok_def le_word_bytes take_bit_word_eq_self)

lemma byteorder_write_read32: "byteorder_ok B \<Longrightarrow> read_u32 B (write_u32 B v) = v"
  by (simp add: byteorder_ok_def le_word_bytes take_bit_word_eq_self)

lemma byteorder_write_read64: "byteorder_ok B \<Longrightarrow> read_u64 B (write_u64 B v) = v"
  by (simp add: byteorder_ok_def le_word_bytes take_bit_word_eq_self)

lemma byteorder_length [simp]:
  "byteorder_ok B \<Longrightarrow> length (write_u16 B u) = 2"
  "byteorder_ok B \<Longrightarrow> length (write_u32 B v) = 4"
  "byteorder_ok B \<Longrightarrow> length (write_u64 B w) = 8"
  by (simp_all add: byteorder_ok_def)

lemma le_bytes_append: "le_bytes (m + n) w = le_bytes m w @ le_bytes n (drop_bit (8 * m) w)"
  by (induction m arbitrary: w) (simp_all add: drop_bit_drop_bit add.commute mult.commute)

lemma le_bytes_cong:
  "(\<And>k. k < 8 * n \<Longrightarrow> bit v k = bit w k) \<Longrightarrow> le_bytes n v = le_bytes n w" for v w :: "'a::len word"
proof (induction n arbitrary: v w)
  case (Suc n)
  have "(ucast v :: u8) = ucast w" by (rule bit_word_eqI) (use Suc.prems in \<open>auto simp: bit_simps\<close>)
  moreover have "le_bytes n (drop_bit 8 v) = le_bytes n (drop_bit 8 w)"
    by (rule Suc.IH) (use Suc.prems in \<open>auto simp: bit_simps\<close>)
  ultimately show ?case by simp
qed simp

lemma le_bytes_ucast:
  "8 * n \<le> LENGTH('a) \<Longrightarrow> 8 * n \<le> LENGTH('b) \<Longrightarrow> le_bytes n (ucast w :: 'b::len word) = le_bytes n w"
  for w :: "'a::len word"
proof (induction n arbitrary: w)
  case (Suc n)
  have "(ucast (ucast w :: 'b word) :: u8) = ucast w"
    using Suc.prems by (intro bit_word_eqI) (auto simp: bit_simps)
  moreover have "le_bytes n (drop_bit 8 (ucast w :: 'b word)) = le_bytes n (ucast (drop_bit 8 w) :: 'b word)"
    by (rule le_bytes_cong) (use Suc.prems in \<open>auto simp: bit_simps\<close>)
  ultimately show ?case using Suc by simp
qed simp

lemma byteorder_halves_write:
  assumes "byteorder_ok B"
  shows "write_u64 B (push_bit 32 (ucast hi) OR ucast lo) = write_u32 B lo @ write_u32 B hi"
proof -
  let ?w = "push_bit 32 (ucast hi) OR ucast lo :: u64"
  have "le_bytes 8 ?w = le_bytes 4 ?w @ le_bytes 4 (drop_bit 32 ?w)"
    using le_bytes_append [of 4 4 ?w] by simp
  also have "le_bytes 4 ?w = le_bytes 4 (ucast lo :: u64)"
    by (rule le_bytes_cong) (auto simp: bit_simps)
  also have "\<dots> = le_bytes 4 lo" by (rule le_bytes_ucast) simp_all
  also have "drop_bit 32 ?w = ucast hi"
    by (rule bit_word_eqI) (auto simp: bit_simps dest: bit_imp_le_length)
  also have "le_bytes 4 (ucast hi :: u64) = le_bytes 4 hi" by (rule le_bytes_ucast) simp_all
  finally show ?thesis using assms by (simp add: byteorder_ok_def)
qed

lemma byteorder_read_write32: "byteorder_ok B \<Longrightarrow> length d = 4 \<Longrightarrow> write_u32 B (read_u32 B d) = d"
  using le_bytes_word [of d, where 'a = 32] by (simp add: byteorder_ok_def)

lemma byteorder_halves_read:
  assumes "byteorder_ok B" "length d1 = 4" "length d2 = 4"
  shows "read_u64 B (d1 @ d2) = push_bit 32 (ucast (read_u32 B d2)) OR ucast (read_u32 B d1)"
proof -
  have "d1 @ d2 = write_u64 B (push_bit 32 (ucast (read_u32 B d2)) OR ucast (read_u32 B d1))"
    using assms by (simp add: byteorder_halves_write byteorder_read_write32)
  then show ?thesis using byteorder_write_read64 [OF assms(1)] by simp
qed

lemma word_halves:
  "ucast ((push_bit 32 (ucast hi) OR ucast lo) AND 0xffffffff :: u64) = (lo :: u32)"
  "ucast (drop_bit 32 (push_bit 32 (ucast hi) OR ucast lo :: u64)) = (hi :: u32)"
proof -
  have m: "(0xffffffff :: u64) = mask 32" by (simp add: mask_eq_exp_minus_1)
  show "ucast ((push_bit 32 (ucast hi) OR ucast lo) AND 0xffffffff :: u64) = (lo :: u32)"
    unfolding m by (rule bit_word_eqI) (auto simp: bit_simps)
  show "ucast (drop_bit 32 (push_bit 32 (ucast hi) OR ucast lo :: u64)) = (hi :: u32)"
    by (rule bit_word_eqI) (auto simp: bit_simps dest: bit_imp_le_length)
qed

end
