(* ===== verification/Ioapic.thy ===== *)
theory Ioapic
  imports MsiManager ByteOrder
begin

text \<open>
  \<^verbatim>\<open>devices/src/ioapic.rs\<close>: the I/O APIC.  Its registers are reached through a selector and a window;
  each of the 24 redirection entries is translated to a message-signalled interrupt of the
  interrupt source group the device holds.  The group is the record of operations of the trait
  object and its state; indexing past the end of an array panics.
\<close>

section \<open>Model\<close>

subsection \<open>Redirection entries\<close>

definition vector :: "u64 \<Rightarrow> u8" where
  "vector entry = ucast (entry AND 0xff)"

definition delivery_mode :: "u64 \<Rightarrow> u8" where
  "delivery_mode entry = ucast (drop_bit 8 entry AND 0x7)"

definition destination_mode :: "u64 \<Rightarrow> u8" where
  "destination_mode entry = ucast (drop_bit 11 entry AND 0x1)"

definition remote_irr :: "u64 \<Rightarrow> u8" where
  "remote_irr entry = ucast (drop_bit 14 entry AND 0x1)"

definition trigger_mode :: "u64 \<Rightarrow> u8" where
  "trigger_mode entry = ucast (drop_bit 15 entry AND 0x1)"

definition interrupt_mask :: "u64 \<Rightarrow> u8" where
  "interrupt_mask entry = ucast (drop_bit 16 entry AND 0x1)"

definition destination_field :: "u64 \<Rightarrow> u8" where
  "destination_field entry = ucast (drop_bit 56 entry AND 0xff)"

definition set_delivery_status :: "u64 \<Rightarrow> u8 \<Rightarrow> u64" where
  "set_delivery_status entry val = (entry AND 0xffffffffffffefff) OR push_bit 12 (ucast (val AND 1))"

definition set_remote_irr :: "u64 \<Rightarrow> u8 \<Rightarrow> u64" where
  "set_remote_irr entry val = (entry AND 0xffffffffffffbfff) OR push_bit 14 (ucast (val AND 1))"

definition NUM_IOAPIC_PINS :: nat where
  "NUM_IOAPIC_PINS = 24"

definition IOAPIC_VERSION_ID :: u32 where
  "IOAPIC_VERSION_ID = 0x00170011"

definition IOWIN_OFF :: u8 where
  "IOWIN_OFF = 0x10"

definition REG_MAX_OFFSET :: u8 where
  "REG_MAX_OFFSET = IOWIN_OFF + (word_of_nat NUM_IOAPIC_PINS * 2) - 1"

definition decode_irq_from_selector :: "u8 \<Rightarrow> nat \<times> bool" where
  "decode_irq_from_selector selector = (unat ((selector - IOWIN_OFF) div 2), selector AND 1 \<noteq> 0)"

subsection \<open>The device\<close>

datatype ioapic_error =
    InvalidTriggerMode
  | InvalidDeliveryMode
  | CreateInterruptSourceGroup irq_error
  | TriggerInterrupt irq_error
  | UpdateInterrupt irq_error

record ioapic =
  id_reg :: u32
  reg_sel :: u32
  reg_entries :: "u64 list"
  used_entries :: "bool list"
  apic_address :: u64

type_synonym ioapic_state = ioapic

definition msi_message :: "u64 \<Rightarrow> u64 \<Rightarrow> msi_config" where
  "msi_message apic_addr entry =
    \<lparr> high_addr = 0,
      low_addr = ucast apic_addr
        OR push_bit 12 (ucast (destination_field entry))
        OR push_bit 3 1
        OR push_bit 2 (ucast (destination_mode entry)),
      msi_data = push_bit 15 (ucast (trigger_mode entry))
        OR push_bit 14 (ucast (remote_irr entry))
        OR push_bit 8 (ucast (delivery_mode entry))
        OR ucast (vector entry),
      devid = 0 \<rparr>"

definition update_entry ::
  "'g isg_ops \<Rightarrow> ioapic \<Rightarrow> nat \<Rightarrow> bool \<Rightarrow> 'g \<Rightarrow> ((ioapic_error + unit) \<times> 'g) option" where
  "update_entry I io irq set_gsi g =
    (if irq < length (reg_entries io)
     then
       let entry = reg_entries io ! irq in
       if \<not> (trigger_mode entry = 0 \<or> trigger_mode entry = 1) then Some (Inl InvalidTriggerMode, g)
       else if \<not> (delivery_mode entry \<le> 7) then Some (Inl InvalidDeliveryMode, g)
       else case isg_update I (word_of_nat irq) (MsiIrq (msi_message (apic_address io) entry))
                   (interrupt_mask entry = 1) set_gsi g of
              None \<Rightarrow> None
            | Some (Inl e, g') \<Rightarrow> Some (Inl (UpdateInterrupt e), g')
            | Some (Inr _, g') \<Rightarrow> Some (Inr (), g')
     else None)"

text \<open>A failed \<open>update_entry\<close> is logged; the entry is marked used all the same.\<close>

definition ioapic_write :: "'g isg_ops \<Rightarrow> ioapic \<Rightarrow> u32 \<Rightarrow> 'g \<Rightarrow> (ioapic \<times> 'g) option" where
  "ioapic_write I io val g =
    (let sel = ucast (reg_sel io) :: u8 in
     if sel = 1 then Some (io, g)
     else if sel = 0 then Some (io\<lparr> id_reg := drop_bit 24 val AND 0xf \<rparr>, g)
     else if IOWIN_OFF \<le> sel \<and> sel \<le> REG_MAX_OFFSET
     then
       let (index, is_high_bits) = decode_irq_from_selector sel in
       if NUM_IOAPIC_PINS < index then Some (io, g)
       else if index < length (reg_entries io)
       then
         let entry = reg_entries io ! index;
             entry' = (if is_high_bits
                       then (entry AND 0xffffffff) OR push_bit 32 (ucast val)
                       else (entry AND 0xffffffff00005000) OR (ucast val AND 0xffffafff));
             io1 = io\<lparr> reg_entries := (reg_entries io)[index := entry'] \<rparr>
         in case update_entry I io1 index True g of
              None \<Rightarrow> None
            | Some (_, g') \<Rightarrow>
                if index < length (used_entries io1)
                then Some (io1\<lparr> used_entries := (used_entries io1)[index := True] \<rparr>, g')
                else None
       else None
     else Some (io, g))"

definition ioapic_read :: "ioapic \<Rightarrow> u32 option" where
  "ioapic_read io =
    (let sel = ucast (reg_sel io) :: u8 in
     if sel = 1 then Some IOAPIC_VERSION_ID
     else if sel = 0 \<or> sel = 2 then Some (push_bit 24 (id_reg io AND 0xf))
     else if IOWIN_OFF \<le> sel \<and> sel \<le> REG_MAX_OFFSET
     then
       let (index, is_high_bits) = decode_irq_from_selector sel in
       if NUM_IOAPIC_PINS < index then Some 0
       else if index < length (reg_entries io)
       then Some (if is_high_bits then ucast (drop_bit 32 (reg_entries io ! index))
                  else ucast (reg_entries io ! index AND 0xffffffff))
       else None
     else Some 0)"

text \<open>The bus interface: the data slice is returned as the device leaves it.\<close>

definition ioapic_bus_read ::
  "byteorder_ops \<Rightarrow> ioapic \<Rightarrow> u64 \<Rightarrow> u8 list \<Rightarrow> u8 list option" where
  "ioapic_bus_read B io offset data =
    (if length data \<noteq> 4 then Some data
     else let off = ucast offset :: u8 in
       if off = 0 then Some (write_u32 B (reg_sel io))
       else if off = IOWIN_OFF then map_option (write_u32 B) (ioapic_read io)
       else Some data)"

definition ioapic_bus_write ::
  "byteorder_ops \<Rightarrow> 'g isg_ops \<Rightarrow> ioapic \<Rightarrow> u64 \<Rightarrow> u8 list \<Rightarrow> 'g \<Rightarrow> (ioapic \<times> 'g) option" where
  "ioapic_bus_write B I io offset data g =
    (if length data \<noteq> 4 then Some (io, g)
     else
       let value = read_u32 B data; off = ucast offset :: u8 in
       if off = 0 then Some (io\<lparr> reg_sel := value \<rparr>, g)
       else if off = IOWIN_OFF then ioapic_write I io value g
       else Some (io, g))"

fun restore_entries ::
  "'g isg_ops \<Rightarrow> ioapic \<Rightarrow> nat \<Rightarrow> bool list \<Rightarrow> 'g \<Rightarrow> ((ioapic_error + unit) \<times> 'g) option" where
  "restore_entries I io irq [] g = Some (Inr (), g)"
| "restore_entries I io irq (entry # es) g =
    (if entry
     then case update_entry I io irq False g of
            None \<Rightarrow> None
          | Some (Inl e, g') \<Rightarrow> Some (Inl e, g')
          | Some (Inr _, g') \<Rightarrow> restore_entries I io (Suc irq) es g'
     else restore_entries I io (Suc irq) es g)"

text \<open>\<open>new\<close>, given the group the interrupt manager created for the 24 pins.\<close>

definition ioapic_new ::
  "'g isg_ops \<Rightarrow> irq_error + 'g \<Rightarrow> u64 \<Rightarrow> ioapic_state option \<Rightarrow> ((ioapic_error + ioapic) \<times> 'g option) option"
  where
  "ioapic_new I created apic_addr state =
    (case created of
       Inl e \<Rightarrow> Some (Inl (CreateInterruptSourceGroup e), None)
     | Inr g \<Rightarrow>
         (case state of
            None \<Rightarrow>
              Some (Inr \<lparr> id_reg = 0, reg_sel = 0, reg_entries = replicate NUM_IOAPIC_PINS 0x10000,
                used_entries = replicate NUM_IOAPIC_PINS False, apic_address = apic_addr \<rparr>, Some g)
          | Some st \<Rightarrow>
              (case restore_entries I st 0 (used_entries st) g of
                 None \<Rightarrow> None
               | Some (Inl e, g') \<Rightarrow> Some (Inl e, Some g')
               | Some (Inr _, g') \<Rightarrow>
                   (case isg_set_gsi I g' of
                      None \<Rightarrow> None
                    | Some (Inl e, g'') \<Rightarrow> Some (Inl (UpdateInterrupt e), Some g'')
                    | Some (Inr _, g'') \<Rightarrow> Some (Inr st, Some g'')))))"

definition ioapic_snapshot :: "ioapic \<Rightarrow> ioapic_state" where
  "ioapic_snapshot io =
    \<lparr> id_reg = id_reg io, reg_sel = reg_sel io, reg_entries = reg_entries io,
      used_entries = used_entries io, apic_address = apic_address io \<rparr>"

definition end_of_interrupt :: "ioapic \<Rightarrow> u8 \<Rightarrow> ioapic" where
  "end_of_interrupt io vec =
    io\<lparr> reg_entries := map (\<lambda>entry. if vector entry = vec \<and> trigger_mode entry = 1
                                  then set_remote_irr entry 0 else entry) (reg_entries io) \<rparr>"

definition service_irq ::
  "'g isg_ops \<Rightarrow> ioapic \<Rightarrow> nat \<Rightarrow> 'g \<Rightarrow> ((ioapic_error + unit) \<times> ioapic \<times> 'g) option" where
  "service_irq I io irq g =
    (if irq < length (reg_entries io)
     then case isg_trigger I (word_of_nat irq) g of
            None \<Rightarrow> None
          | Some (Inl e, g') \<Rightarrow> Some (Inl (TriggerInterrupt e), io, g')
          | Some (Inr _, g') \<Rightarrow>
              (let entry = reg_entries io ! irq;
                   entry = (if trigger_mode entry = 1 then set_remote_irr entry 1 else entry);
                   entry = set_delivery_status entry 0
               in Some (Inr (), io\<lparr> reg_entries := (reg_entries io)[irq := entry] \<rparr>, g'))
     else None)"

section \<open>Fields and messages, bit by bit\<close>

lemma mask_numerals:
  "(0xff :: u64) = mask 8" "(0x7 :: u64) = mask 3" "(0x1 :: u64) = mask 1" "(1 :: u8) = mask 1"
  "(0xffffffff :: u64) = mask 32"
  by (simp_all add: mask_eq_exp_minus_1)

lemma clear_numerals:
  "(0xffffffffffffefff :: u64) = NOT (push_bit 12 (mask 1))"
  "(0xffffffffffffbfff :: u64) = NOT (push_bit 14 (mask 1))"
  by (simp_all add: mask_eq_exp_minus_1)

lemma bit_powers:
  "bit (4096 :: int) n \<longleftrightarrow> n = 12" "bit (16384 :: int) n \<longleftrightarrow> n = 14"
  "bit (4096 :: u64) n \<longleftrightarrow> n = 12" "bit (16384 :: u64) n \<longleftrightarrow> n = 14"
  using bit_exp_iff [where 'a = int, of 12 n] bit_exp_iff [where 'a = int, of 14 n]
    bit_exp_iff [where 'a = u64, of 12 n] bit_exp_iff [where 'a = u64, of 14 n] by auto

lemma bit_read_only:
  "bit (20480 :: int) n \<longleftrightarrow> n = 12 \<or> n = 14"
  "bit (20480 :: u64) n \<longleftrightarrow> n = 12 \<or> n = 14"
  "bit (20480 :: u32) n \<longleftrightarrow> n = 12 \<or> n = 14"
proof -
  show "bit (20480 :: int) n \<longleftrightarrow> n = 12 \<or> n = 14"
    using bit_or_iff [of "4096 :: int" 16384 n] by (simp add: bit_powers)
  show "bit (20480 :: u64) n \<longleftrightarrow> n = 12 \<or> n = 14"
    using bit_or_iff [of "4096 :: u64" 16384 n] by (auto simp: bit_powers)
  show "bit (20480 :: u32) n \<longleftrightarrow> n = 12 \<or> n = 14"
    using bit_or_iff [of "4096 :: u32" 16384 n] bit_exp_iff [where 'a = u32, of 12 n]
      bit_exp_iff [where 'a = u32, of 14 n] by auto
qed

lemma bit_fields [bits_simps]:
  "bit (vector e) n \<longleftrightarrow> n < 8 \<and> bit e n"
  "bit (delivery_mode e) n \<longleftrightarrow> n < 3 \<and> bit e (8 + n)"
  "bit (destination_mode e) n \<longleftrightarrow> n = 0 \<and> bit e 11"
  "bit (remote_irr e) n \<longleftrightarrow> n = 0 \<and> bit e 14"
  "bit (trigger_mode e) n \<longleftrightarrow> n = 0 \<and> bit e 15"
  "bit (interrupt_mask e) n \<longleftrightarrow> n = 0 \<and> bit e 16"
  "bit (destination_field e) n \<longleftrightarrow> n < 8 \<and> bit e (56 + n)"
  unfolding vector_def delivery_mode_def destination_mode_def remote_irr_def trigger_mode_def
    interrupt_mask_def destination_field_def mask_numerals
  by (auto simp: bit_simps)

lemma bit_set_delivery_status [bits_simps]:
  "bit (set_delivery_status e v) n \<longleftrightarrow> n < 64 \<and> (if n = 12 then bit v 0 else bit e n)"
  unfolding set_delivery_status_def clear_numerals mask_numerals
  by (auto simp: bit_simps bit_powers dest: bit_imp_le_length)

lemma bit_set_remote_irr [bits_simps]:
  "bit (set_remote_irr e v) n \<longleftrightarrow> n < 64 \<and> (if n = 14 then bit v 0 else bit e n)"
  unfolding set_remote_irr_def clear_numerals mask_numerals
  by (auto simp: bit_simps bit_powers dest: bit_imp_le_length)

lemma one_bit_eq: "w = 1 \<longleftrightarrow> bit w 0" if "\<And>n. bit w n \<Longrightarrow> n = 0" for w :: "'a::len word"
proof
  assume "bit w 0"
  then show "w = 1" using that by (intro bit_word_eqI) (auto simp: bit_1_iff)
qed simp

lemma trigger_mode_level: "trigger_mode e = 1 \<longleftrightarrow> bit e 15"
  by (subst one_bit_eq) (auto simp: bits_simps)

lemma interrupt_mask_set: "interrupt_mask e = 1 \<longleftrightarrow> bit e 16"
  by (subst one_bit_eq) (auto simp: bits_simps)

lemma trigger_mode_valid: "trigger_mode e = 0 \<or> trigger_mode e = 1"
  by (cases "bit e 15") (auto simp: trigger_mode_level bits_simps intro!: bit_word_eqI)

lemma delivery_mode_valid: "delivery_mode e \<le> 7"
proof -
  have "delivery_mode e = take_bit 3 (delivery_mode e)"
    by (rule bit_word_eqI) (auto simp: bits_simps bit_simps)
  also have "\<dots> \<le> 7"
    using take_bit_nat_less_exp [of 3 "unat (delivery_mode e)"]
    by (simp add: word_le_nat_alt unsigned_take_bit_eq)
  finally show ?thesis .
qed

lemma msi_message_status [simp]:
  "msi_message a (set_delivery_status e v) = msi_message a e"
proof -
  have "vector (set_delivery_status e v) = vector e"
    "delivery_mode (set_delivery_status e v) = delivery_mode e"
    "destination_mode (set_delivery_status e v) = destination_mode e"
    "remote_irr (set_delivery_status e v) = remote_irr e"
    "trigger_mode (set_delivery_status e v) = trigger_mode e"
    "destination_field (set_delivery_status e v) = destination_field e"
    by (auto intro!: bit_word_eqI simp: bits_simps dest: bit_imp_le_length)
  then show ?thesis by (simp add: msi_message_def)
qed

lemma set_irr_simps [simp]:
  "set_remote_irr (set_remote_irr e v) w = set_remote_irr e w"
  "set_remote_irr (set_delivery_status e v) w = set_delivery_status (set_remote_irr e w) v"
  by (auto intro!: bit_word_eqI simp: bits_simps)

lemma set_irr_self: "\<exists>v. set_remote_irr e v = e"
proof
  show "set_remote_irr e (of_bool (bit e 14)) = e"
    by (rule bit_word_eqI) (auto simp: bits_simps bit_simps)
qed

lemma mask_set_simps [simp]:
  "interrupt_mask (set_remote_irr e v) = interrupt_mask e"
  "interrupt_mask (set_delivery_status e v) = interrupt_mask e"
  by (auto intro!: bit_word_eqI simp: bits_simps)

text \<open>The message data is the low half of the entry without the bits that do not belong to an
  interrupt message (destination mode, delivery status, pin polarity).\<close>

lemma msi_data_layout: "msi_data (msi_message a e) = ucast e AND 0xc7ff"
proof (rule bit_word_eqI)
  fix n assume "n < LENGTH(32)"
  have c7ff: "(0xc7ff :: u32) = mask 11 OR push_bit 14 (mask 2)"
    by (simp add: mask_eq_exp_minus_1)
  show "bit (msi_data (msi_message a e)) n = bit (ucast e AND 0xc7ff :: u32) n"
    unfolding c7ff using \<open>n < LENGTH(32)\<close>
    by (cases "n = 14"; cases "n = 15") (auto simp: msi_message_def bits_simps bit_simps)
qed

section \<open>Selectors\<close>

definition entry_selector :: "nat \<Rightarrow> bool \<Rightarrow> u8" where
  "entry_selector i high = IOWIN_OFF + 2 * word_of_nat i + (if high then 1 else 0)"

definition ioapic_wf :: "ioapic \<Rightarrow> bool" where
  "ioapic_wf io \<longleftrightarrow> length (reg_entries io) = NUM_IOAPIC_PINS \<and> length (used_entries io) = NUM_IOAPIC_PINS"

lemma REG_MAX_OFFSET_eq: "REG_MAX_OFFSET = 0x3f"
  by (simp add: REG_MAX_OFFSET_def IOWIN_OFF_def NUM_IOAPIC_PINS_def)

lemma unat_entry_selector:
  assumes "i < NUM_IOAPIC_PINS"
  shows "unat (entry_selector i high) = 16 + 2 * i + (if high then 1 else 0)"
proof -
  have i: "unat (word_of_nat i :: u8) = i"
    using assms by (simp add: NUM_IOAPIC_PINS_def unat_of_nat take_bit_nat_eq_self)
  have "unat (2 * word_of_nat i :: u8) = 2 * i"
    using assms i by (simp add: NUM_IOAPIC_PINS_def unat_word_ariths)
  then show ?thesis
    using assms by (simp add: entry_selector_def IOWIN_OFF_def NUM_IOAPIC_PINS_def unat_word_ariths)
qed

lemma decode_selector:
  assumes "IOWIN_OFF \<le> sel" "sel \<le> REG_MAX_OFFSET"
  shows "decode_irq_from_selector sel = ((unat sel - 16) div 2, odd (unat sel))"
    and "(unat sel - 16) div 2 < NUM_IOAPIC_PINS"
proof -
  have b: "16 \<le> unat sel" "unat sel \<le> 63"
    using assms by (simp_all add: IOWIN_OFF_def REG_MAX_OFFSET_eq word_le_nat_alt)
  have "sel AND 1 \<noteq> 0 \<longleftrightarrow> odd (unat sel)"
    by (simp add: and_one_eq unat_eq_zero [symmetric] unat_mod_distrib even_iff_mod_2_eq_zero
        del: unat_eq_zero)
  then show "decode_irq_from_selector sel = ((unat sel - 16) div 2, odd (unat sel))"
    using b assms(1)
    by (simp add: decode_irq_from_selector_def IOWIN_OFF_def unat_div_distrib unat_sub word_le_nat_alt)
  show "(unat sel - 16) div 2 < NUM_IOAPIC_PINS" using b by (simp add: NUM_IOAPIC_PINS_def)
qed

lemma selects_entry:
  assumes "i < NUM_IOAPIC_PINS" and "ucast sel = entry_selector i high"
  shows "ucast sel \<noteq> (0 :: u8)" "ucast sel \<noteq> (1 :: u8)" "ucast sel \<noteq> (2 :: u8)"
    "IOWIN_OFF \<le> ucast sel" "ucast sel \<le> REG_MAX_OFFSET"
    "decode_irq_from_selector (ucast sel) = (i, high)"
proof -
  note u = unat_entry_selector [OF assms(1), of high]
  have b: "16 \<le> unat (entry_selector i high)" "unat (entry_selector i high) \<le> 63"
    using assms(1) u by (simp_all add: NUM_IOAPIC_PINS_def)
  show "ucast sel \<noteq> (0 :: u8)" "ucast sel \<noteq> (1 :: u8)" "ucast sel \<noteq> (2 :: u8)"
    using b by (auto simp: assms(2) word_unat_eq_iff)
  show r: "IOWIN_OFF \<le> ucast sel" "ucast sel \<le> REG_MAX_OFFSET"
    using b by (simp_all add: assms(2) IOWIN_OFF_def REG_MAX_OFFSET_eq word_le_nat_alt)
  show "decode_irq_from_selector (ucast sel) = (i, high)"
    using decode_selector(1) [OF r] u by (simp add: assms(2))
qed

section \<open>Operations\<close>

definition merge_entry :: "u64 \<Rightarrow> bool \<Rightarrow> u32 \<Rightarrow> u64" where
  "merge_entry e high val =
    (if high then (e AND 0xffffffff) OR push_bit 32 (ucast val)
     else (e AND 0xffffffff00005000) OR (ucast val AND 0xffffafff))"

lemma update_entry_group:
  assumes "irq < length (reg_entries io)"
  shows "update_entry I io irq s g =
    map_option (\<lambda>(r, g'). (map_sum UpdateInterrupt id r, g'))
      (isg_update I (word_of_nat irq) (MsiIrq (msi_message (apic_address io) (reg_entries io ! irq)))
        (interrupt_mask (reg_entries io ! irq) = 1) s g)"
  using assms trigger_mode_valid [of "reg_entries io ! irq"] delivery_mode_valid [of "reg_entries io ! irq"]
  by (auto simp: update_entry_def Let_def split: option.splits sum.splits)

lemma update_entry_used [simp]:
  "update_entry I (io\<lparr> used_entries := u \<rparr>) i s g = update_entry I io i s g"
  by (simp add: update_entry_def Let_def)

lemma ioapic_write_entry:
  assumes "ioapic_wf io" "i < NUM_IOAPIC_PINS" "ucast (reg_sel io) = entry_selector i high"
  shows "ioapic_write I io val g =
    (let io1 = io\<lparr> reg_entries := (reg_entries io)[i := merge_entry (reg_entries io ! i) high val] \<rparr>
     in map_option (\<lambda>(_, g'). (io1\<lparr> used_entries := (used_entries io)[i := True] \<rparr>, g'))
          (update_entry I io1 i True g))"
  using assms(1,2) selects_entry [OF assms(2,3)]
  by (auto simp: ioapic_write_def Let_def ioapic_wf_def merge_entry_def split: option.splits)

lemma ioapic_read_entry:
  assumes "ioapic_wf io" "i < NUM_IOAPIC_PINS" "ucast (reg_sel io) = entry_selector i high"
  shows "ioapic_read io = Some (if high then ucast (drop_bit 32 (reg_entries io ! i))
                               else ucast (reg_entries io ! i AND 0xffffffff))"
  using assms(1,2) selects_entry [OF assms(2,3)]
  by (auto simp: ioapic_read_def Let_def ioapic_wf_def)

lemma selector_entry:
  assumes "IOWIN_OFF \<le> sel" "sel \<le> REG_MAX_OFFSET" and "decode_irq_from_selector sel = (i, high)"
  shows "i < NUM_IOAPIC_PINS" "sel = entry_selector i high"
proof -
  have b: "16 \<le> unat sel" "unat sel \<le> 63"
    using assms by (simp_all add: IOWIN_OFF_def REG_MAX_OFFSET_eq word_le_nat_alt)
  have d: "i = (unat sel - 16) div 2" "high = odd (unat sel)"
    using decode_selector(1) [OF assms(1,2)] assms(3) by simp_all
  show i: "i < NUM_IOAPIC_PINS" using decode_selector(2) [OF assms(1,2)] d by simp
  show "sel = entry_selector i high"
    using b unat_entry_selector [OF i, of high] d
    by (auto simp: word_unat_eq_iff) presburger+
qed

lemma ioapic_write_cases:
  obtains (plain) "ucast (reg_sel io) \<noteq> (0 :: u8) \<Longrightarrow> ioapic_write I io val g = Some (io, g)"
    and "ucast (reg_sel io) = (0 :: u8) \<Longrightarrow>
      ioapic_write I io val g = Some (io\<lparr> id_reg := drop_bit 24 val AND 0xf \<rparr>, g)"
    and "\<And>i high. i < NUM_IOAPIC_PINS \<Longrightarrow> ucast (reg_sel io) \<noteq> entry_selector i high"
  | (redir) i high where "i < NUM_IOAPIC_PINS" "ucast (reg_sel io) = entry_selector i high"
proof (cases "IOWIN_OFF \<le> (ucast (reg_sel io) :: u8) \<and> (ucast (reg_sel io) :: u8) \<le> REG_MAX_OFFSET")
  case True
  then show thesis
    using selector_entry redir by (metis surj_pair)
next
  case False
  then have "ucast (reg_sel io) \<noteq> entry_selector i high" if "i < NUM_IOAPIC_PINS" for i high
    using selects_entry(4,5) [OF that] by blast
  then show thesis using False by (intro plain) (auto simp: ioapic_write_def Let_def)
qed

section \<open>Runs of the device\<close>

text \<open>What reaches the device: guest accesses on the bus, device interrupts on a pin, and the
  end-of-interrupt broadcast of the hypervisor.\<close>

datatype ioapic_event = BusWrite u64 "u8 list" | ServiceIrq nat | EndOfInterrupt u8

fun ioapic_exec :: "byteorder_ops \<Rightarrow> 'g isg_ops \<Rightarrow> ioapic_event \<Rightarrow> ioapic \<Rightarrow> 'g \<Rightarrow> (ioapic \<times> 'g) option" where
  "ioapic_exec B I (BusWrite off data) io g = ioapic_bus_write B I io off data g"
| "ioapic_exec B I (ServiceIrq irq) io g = map_option snd (service_irq I io irq g)"
| "ioapic_exec B I (EndOfInterrupt vec) io g = Some (end_of_interrupt io vec, g)"

text \<open>The pin an event writes the redirection entry of, if any.\<close>

fun programs :: "ioapic \<Rightarrow> ioapic_event \<Rightarrow> nat option" where
  "programs io (BusWrite off data) =
    (let sel = ucast (reg_sel io) :: u8 in
     if length data = 4 \<and> (ucast off :: u8) = IOWIN_OFF \<and> IOWIN_OFF \<le> sel \<and> sel \<le> REG_MAX_OFFSET
     then Some (fst (decode_irq_from_selector sel)) else None)"
| "programs io _ = None"

text \<open>Pins whose last programming the interrupt group accepted.\<close>

definition accepted ::
  "'g isg_ops \<Rightarrow> ioapic_event \<Rightarrow> ioapic \<Rightarrow> 'g \<Rightarrow> ioapic \<Rightarrow> nat set \<Rightarrow> nat set" where
  "accepted I ev io g io' L =
    (case programs io ev of
       None \<Rightarrow> L
     | Some i \<Rightarrow> if \<exists>g'. update_entry I io' i True g = Some (Inr (), g') then insert i L else L - {i})"

inductive ioapic_step ::
  "byteorder_ops \<Rightarrow> 'g isg_ops \<Rightarrow> ioapic \<times> 'g \<times> nat set \<Rightarrow> ioapic \<times> 'g \<times> nat set \<Rightarrow> bool" for B I where
  exec: "ioapic_exec B I ev io g = Some (io', g') \<Longrightarrow>
    (case ev of ServiceIrq irq \<Rightarrow> irq < NUM_IOAPIC_PINS | _ \<Rightarrow> True) \<Longrightarrow>
    ioapic_step B I (io, g, L) (io', g', accepted I ev io g io' L)"

inductive_cases ioapic_stepE: "ioapic_step B I s (io', g', L')"

lemma programs_entry:
  assumes "length data = 4" "(ucast off :: u8) = IOWIN_OFF"
    and "i < NUM_IOAPIC_PINS" "ucast (reg_sel io) = entry_selector i high"
  shows "programs io (BusWrite off data) = Some i"
  using assms selects_entry [OF assms(3,4)] by (simp add: Let_def)

lemma programs_none:
  assumes "\<And>i high. i < NUM_IOAPIC_PINS \<Longrightarrow> ucast (reg_sel io) \<noteq> entry_selector i high"
  shows "programs io (BusWrite off data) = None"
proof -
  have "\<not> (IOWIN_OFF \<le> (ucast (reg_sel io) :: u8) \<and> (ucast (reg_sel io) :: u8) \<le> REG_MAX_OFFSET)"
    using assms selector_entry by (metis surj_pair)
  then show ?thesis by (simp add: Let_def)
qed

lemma IOWIN_OFF_nonzero: "IOWIN_OFF \<noteq> 0"
  by (simp add: IOWIN_OFF_def)

text \<open>A bus write either leaves the redirection entries alone or programs one of them.\<close>

lemma ioapic_bus_write_cases:
  assumes "ioapic_wf io"
  obtains (regs) io' where "ioapic_bus_write B I io off data g = Some (io', g)"
      "programs io (BusWrite off data) = None" "reg_entries io' = reg_entries io"
      "used_entries io' = used_entries io" "apic_address io' = apic_address io"
  | (entry) i high io1 where "i < NUM_IOAPIC_PINS" "programs io (BusWrite off data) = Some i"
      "io1 = io\<lparr> reg_entries := (reg_entries io)[i := merge_entry (reg_entries io ! i) high (read_u32 B data)],
         used_entries := (used_entries io)[i := True] \<rparr>"
      "ioapic_bus_write B I io off data g =
         map_option (\<lambda>(_, g'). (io1, g')) (update_entry I io1 i True g)"
proof (cases "length data = 4 \<and> (ucast off :: u8) = IOWIN_OFF")
  case False
  then show thesis
    by (intro regs [where io' = "if length data = 4 \<and> (ucast off :: u8) = 0
          then io\<lparr> reg_sel := read_u32 B data \<rparr> else io"])
      (auto simp: ioapic_bus_write_def Let_def IOWIN_OFF_nonzero)
next
  case True
  then have w: "ioapic_bus_write B I io off data g = ioapic_write I io (read_u32 B data) g"
    by (simp add: ioapic_bus_write_def IOWIN_OFF_nonzero)
  show thesis
  proof (cases rule: ioapic_write_cases [of io I "read_u32 B data" g])
    case plain
    show thesis
    proof (cases "ucast (reg_sel io) = (0 :: u8)")
      case True
      show thesis
        by (rule regs [OF w [unfolded plain(2) [OF True]] programs_none [OF plain(3)]]) simp_all
    next
      case False
      show thesis
        by (rule regs [OF w [unfolded plain(1) [OF False]] programs_none [OF plain(3)]]) simp_all
    qed
  next
    case (redir i high)
    let ?io = "io\<lparr> reg_entries := (reg_entries io)[i := merge_entry (reg_entries io ! i) high (read_u32 B data)] \<rparr>"
    have "ioapic_bus_write B I io off data g = map_option (\<lambda>(_, g'). (?io\<lparr> used_entries := (used_entries io)[i := True] \<rparr>, g'))
        (update_entry I (?io\<lparr> used_entries := (used_entries io)[i := True] \<rparr>) i True g)"
      using ioapic_write_entry [OF assms redir, of I "read_u32 B data" g]
      by (simp add: w Let_def)
    moreover have "programs io (BusWrite off data) = Some i"
      using programs_entry [OF _ _ redir] True by blast
    ultimately show thesis
      by (intro entry [OF redir(1) _ refl]) simp_all
  qed
qed

section \<open>The interrupt group follows the redirection table\<close>

text \<open>Entries that differ at most in the read-only bits route the interrupt the same way.\<close>

definition same_route :: "u64 \<Rightarrow> u64 \<Rightarrow> bool" where
  "same_route e e' \<longleftrightarrow> interrupt_mask e' = interrupt_mask e
    \<and> (\<forall>a v. msi_message a (set_remote_irr e' v) = msi_message a (set_remote_irr e v))"

lemma same_route_simps [simp]:
  "same_route e e" "same_route e (set_remote_irr e v)" "same_route e (set_delivery_status e v)"
  "same_route e (set_delivery_status (set_remote_irr e v) w)"
  by (simp_all add: same_route_def)

lemma pin_inj:
  "i < NUM_IOAPIC_PINS \<Longrightarrow> j < NUM_IOAPIC_PINS \<Longrightarrow> (word_of_nat i :: u32) = word_of_nat j \<longleftrightarrow> i = j"
  by (simp add: NUM_IOAPIC_PINS_def word_unat_eq_iff unat_of_nat take_bit_nat_eq_self)

context interrupt_source_group
begin

definition reflects :: "'g \<Rightarrow> ioapic \<Rightarrow> nat \<Rightarrow> bool" where
  "reflects g io i \<longleftrightarrow>
    (\<exists>v. as_set g (word_of_nat i)
       (MsiIrq (msi_message (apic_address io) (set_remote_irr (reg_entries io ! i) v)))
       (interrupt_mask (reg_entries io ! i) = 1))"

definition ioapic_inv :: "ioapic \<Rightarrow> 'g \<Rightarrow> nat set \<Rightarrow> bool" where
  "ioapic_inv io g L \<longleftrightarrow> ioapic_wf io \<and> invar g \<and> L \<subseteq> {..<NUM_IOAPIC_PINS}
    \<and> (\<forall>i \<in> L. used_entries io ! i \<and> reflects g io i)"

lemma reflects_frame:
  assumes "reflects g io i" "as_set g' = as_set g" "apic_address io' = apic_address io"
    "same_route (reg_entries io ! i) (reg_entries io' ! i)"
  shows "reflects g' io' i"
  using assms by (simp add: reflects_def same_route_def)

lemma ioapic_inv_frame:
  assumes "ioapic_inv io g L" "as_set g' = as_set g" "invar g'" "apic_address io' = apic_address io"
    "used_entries io' = used_entries io" "length (reg_entries io') = length (reg_entries io)"
    "\<And>i. i < NUM_IOAPIC_PINS \<Longrightarrow> same_route (reg_entries io ! i) (reg_entries io' ! i)"
  shows "ioapic_inv io' g' L"
  unfolding ioapic_inv_def
proof (intro conjI ballI)
  fix i assume "i \<in> L"
  with assms(1) have "i < NUM_IOAPIC_PINS" "reflects g io i" by (auto simp: ioapic_inv_def)
  then show "reflects g' io' i" using reflects_frame assms(2,4,7) by blast
qed (use assms in \<open>auto simp: ioapic_inv_def ioapic_wf_def\<close>)

lemma ioapic_inv_program:
  assumes inv: "ioapic_inv io g L" and i: "i < NUM_IOAPIC_PINS"
    and io': "apic_address io' = apic_address io" "reg_entries io' = (reg_entries io)[i := e]"
      "used_entries io' = (used_entries io)[i := True]"
    and up: "update_entry ops io' i s g = Some (r, g')"
  shows "ioapic_inv io' g' (if r = Inr () then insert i L else L - {i})"
proof -
  have wf: "ioapic_wf io" "ioapic_wf io'" and g: "invar g"
    using inv io' by (auto simp: ioapic_inv_def ioapic_wf_def)
  then have len: "i < length (reg_entries io')" using i by (simp add: ioapic_wf_def)
  then obtain r0 where up0: "isg_update ops (word_of_nat i)
      (MsiIrq (msi_message (apic_address io') (reg_entries io' ! i)))
      (interrupt_mask (reg_entries io' ! i) = 1) s g = Some (r0, g')"
    and r: "r = map_sum UpdateInterrupt id r0"
    using up by (auto simp: update_entry_group)
  have other: "reflects g' io' j" if "j \<in> L" "j \<noteq> i" for j
  proof -
    have "(word_of_nat j :: u32) \<noteq> word_of_nat i"
      using pin_inj [of j i] inv i that by (auto simp: ioapic_inv_def)
    moreover have "reflects g io j" using inv that by (simp add: ioapic_inv_def)
    ultimately show ?thesis
      using update_keeps [OF g up0] that by (auto simp: reflects_def io')
  qed
  have self: "reflects g' io' i" if "r = Inr ()"
  proof -
    obtain v where "set_remote_irr (reg_entries io' ! i) v = reg_entries io' ! i"
      using set_irr_self by blast
    moreover have "r0 = Inr ()" using that r by (cases r0) auto
    ultimately show ?thesis
      using update_as_set [OF g] up0 unfolding reflects_def by metis
  qed
  have "used_entries io' ! j" if "j \<in> insert i L" for j
    using that inv i by (auto simp: ioapic_inv_def ioapic_wf_def io' nth_list_update)
  then show ?thesis
    using inv wf other self update_invar [OF g up0] i by (auto simp: ioapic_inv_def)
qed

lemma service_irq_cases:
  assumes "irq < length (reg_entries io)"
  obtains r g' where "isg_trigger ops (word_of_nat irq) g = Some (r, g')"
    and "service_irq ops io irq g = Some (map_sum TriggerInterrupt id r,
      (case r of Inl _ \<Rightarrow> io | Inr _ \<Rightarrow>
         io\<lparr> reg_entries := (reg_entries io)[irq := set_delivery_status
           (if trigger_mode (reg_entries io ! irq) = 1 then set_remote_irr (reg_entries io ! irq) 1
            else reg_entries io ! irq) 0] \<rparr>), g')"
proof -
  obtain r g' where t: "isg_trigger ops (word_of_nat irq) g = Some (r, g')"
    using trigger_total by blast
  show thesis
    by (rule that [OF t]) (simp add: service_irq_def assms t Let_def split: sum.split)
qed

lemma ioapic_inv_exec:
  assumes inv: "ioapic_inv io g L" and ex: "ioapic_exec B ops ev io g = Some (io', g')"
    and irq: "case ev of ServiceIrq irq \<Rightarrow> irq < NUM_IOAPIC_PINS | _ \<Rightarrow> True"
  shows "ioapic_inv io' g' (accepted ops ev io g io' L)"
proof -
  have wf: "ioapic_wf io" and g: "invar g" using inv by (simp_all add: ioapic_inv_def)
  show ?thesis
  proof (cases ev)
    case (BusWrite off data)
    show ?thesis
    proof (rule ioapic_bus_write_cases [OF wf, of B ops off data g], goal_cases regs entry)
      case (regs io1)
      then have "ioapic_inv io1 g L"
        by (intro ioapic_inv_frame [OF inv refl g]) simp_all
      then show ?thesis using ex BusWrite regs by (simp add: accepted_def del: programs.simps)
    next
      case (entry i high io1)
      then obtain r where "update_entry ops io1 i True g = Some (r, g')" "io' = io1"
        using ex BusWrite by (auto split: option.splits)
      then show ?thesis
        using ioapic_inv_program [OF inv entry(1), of io1] entry(2,3) BusWrite
        by (auto simp: accepted_def simp del: programs.simps)
    qed
  next
    case (ServiceIrq n)
    then have n: "n < length (reg_entries io)" using irq wf by (simp add: ioapic_wf_def)
    from service_irq_cases [OF n, of g] obtain r g1 where
      t: "isg_trigger ops (word_of_nat n) g = Some (r, g1)"
      and s: "service_irq ops io n g = Some (map_sum TriggerInterrupt id r,
      (case r of Inl _ \<Rightarrow> io | Inr _ \<Rightarrow>
         io\<lparr> reg_entries := (reg_entries io)[n := set_delivery_status
           (if trigger_mode (reg_entries io ! n) = 1 then set_remote_irr (reg_entries io ! n) 1
            else reg_entries io ! n) 0] \<rparr>), g1)" by blast
    have iframe: "invar g1" using trigger_frame [OF t] g by simp
    have "ioapic_inv io' g1 L"
      using s ex ServiceIrq n
      by (intro ioapic_inv_frame [OF inv trigger_keeps [OF t] iframe])
        (auto simp: nth_list_update split: sum.splits)
    then show ?thesis using s ex ServiceIrq by (simp add: accepted_def)
  next
    case (EndOfInterrupt vec)
    have "ioapic_inv (end_of_interrupt io vec) g L"
      using wf by (intro ioapic_inv_frame [OF inv refl g])
        (auto simp: end_of_interrupt_def ioapic_wf_def)
    then show ?thesis using ex EndOfInterrupt by (simp add: accepted_def)
  qed
qed

lemma ioapic_exec_total:
  assumes "ioapic_inv io g L" and "case ev of ServiceIrq irq \<Rightarrow> irq < NUM_IOAPIC_PINS | _ \<Rightarrow> True"
  shows "ioapic_exec B ops ev io g \<noteq> None"
proof -
  have wf: "ioapic_wf io" and g: "invar g" using assms(1) by (simp_all add: ioapic_inv_def)
  show ?thesis
  proof (cases ev)
    case (BusWrite off data)
    show ?thesis
    proof (rule ioapic_bus_write_cases [OF wf, of B ops off data g], goal_cases regs entry)
      case (entry i high io1)
      then have "i < length (reg_entries io1)" using wf by (simp add: ioapic_wf_def)
      then show ?thesis using entry BusWrite update_total [OF g] by (simp add: update_entry_group)
    qed (simp add: BusWrite)
  next
    case (ServiceIrq n)
    then have n: "n < length (reg_entries io)" using assms wf by (simp add: ioapic_wf_def)
    then show ?thesis
      using ServiceIrq by (cases rule: service_irq_cases [OF n, of g]) simp
  qed simp
qed

lemma ioapic_inv_run:
  assumes "(ioapic_step B ops)\<^sup>*\<^sup>* (io, g, L) (io', g', L')" "ioapic_inv io g L"
  shows "ioapic_inv io' g' L'"
  using assms
proof (induction "(io', g', L')" arbitrary: io' g' L' rule: rtranclp_induct)
  case (step s io' g' L')
  from step(2) show ?case
    by (rule ioapic_stepE) (use step ioapic_inv_exec in auto)
qed simp

lemma restore_entries_inv:
  assumes "restore_entries ops io k us g = Some (Inr u, g')" "us = drop k (used_entries io)"
    "ioapic_inv io g {i. i < k \<and> used_entries io ! i}"
  shows "ioapic_inv io g' {i. i < NUM_IOAPIC_PINS \<and> used_entries io ! i}"
  using assms
proof (induction us arbitrary: k g)
  case Nil
  then have "NUM_IOAPIC_PINS \<le> k" by (simp add: ioapic_inv_def ioapic_wf_def)
  then have "{i. i < k \<and> used_entries io ! i} = {i. i < NUM_IOAPIC_PINS \<and> used_entries io ! i}"
    using Nil(3) by (auto simp: ioapic_inv_def)
  then show ?case using Nil by simp
next
  case (Cons b us)
  have k: "k < length (used_entries io)" using Cons(3) by (metis drop_eq_Nil list.distinct(1) not_le)
  then have us: "us = drop (Suc k) (used_entries io)" "b = used_entries io ! k"
    using Cons(3) by (simp_all add: Cons_nth_drop_Suc [symmetric])
  have kp: "k < NUM_IOAPIC_PINS" using k Cons(4) by (simp add: ioapic_inv_def ioapic_wf_def)
  have "\<exists>g1. restore_entries ops io (Suc k) us g1 = Some (Inr u, g')
      \<and> ioapic_inv io g1 {i. i < Suc k \<and> used_entries io ! i}"
  proof (cases b)
    case True
    then obtain g1 where up: "update_entry ops io k False g = Some (Inr (), g1)"
      and rest: "restore_entries ops io (Suc k) us g1 = Some (Inr u, g')"
      using Cons(2) by (auto split: option.splits sum.splits prod.splits)
    have "ioapic_inv io g1 (insert k {i. i < k \<and> used_entries io ! i})"
    proof -
      have "used_entries io = (used_entries io)[k := True]" using True us(2) by (metis list_update_id)
      from ioapic_inv_program [OF Cons(4) kp refl list_update_id [symmetric] this up]
      show ?thesis by simp
    qed
    moreover have "insert k {i. i < k \<and> used_entries io ! i} = {i. i < Suc k \<and> used_entries io ! i}"
      using True us(2) less_Suc_eq by blast
    ultimately show ?thesis using rest by metis
  next
    case False
    then have "{i. i < k \<and> used_entries io ! i} = {i. i < Suc k \<and> used_entries io ! i}"
      using us(2) less_Suc_eq by blast
    moreover have "restore_entries ops io (Suc k) us g = Some (Inr u, g')" using Cons(2) False by simp
    ultimately show ?thesis using Cons(4) by metis
  qed
  then obtain g1 where "restore_entries ops io (Suc k) us g1 = Some (Inr u, g')"
    "ioapic_inv io g1 {i. i < Suc k \<and> used_entries io ! i}" by blast
  then show ?case using Cons(1) [OF _ us(1)] by simp
qed

lemma ioapic_new_inv:
  assumes "ioapic_new ops (Inr g) addr st = Some (Inr io, Some g')" "invar g"
    and "\<And>s. st = Some s \<Longrightarrow> ioapic_wf s"
  shows "ioapic_inv io g' {i. i < NUM_IOAPIC_PINS \<and> used_entries io ! i}"
proof (cases st)
  case None
  then show ?thesis using assms
    by (auto simp: ioapic_new_def ioapic_inv_def ioapic_wf_def)
next
  case (Some s)
  then obtain u g1 where r: "restore_entries ops s 0 (used_entries s) g = Some (Inr u, g1)"
    and t: "isg_set_gsi ops g1 = Some (Inr (), g')" and io: "io = s"
    using assms(1) by (auto simp: ioapic_new_def split: option.splits sum.splits prod.splits)
  have "ioapic_inv s g1 {i. i < NUM_IOAPIC_PINS \<and> used_entries s ! i}"
    using assms(2,3) Some by (intro restore_entries_inv [OF r]) (auto simp: ioapic_inv_def)
  moreover then have "invar g'" using set_gsi_frame [OF t] by (simp add: ioapic_inv_def)
  ultimately show ?thesis
    unfolding io by (auto intro: ioapic_inv_frame [OF _ set_gsi_keeps [OF t]])
qed

end

section \<open>Properties\<close>



text \<open>What a window access reads and writes, entry by entry.\<close>

lemma bit_merge_entry:
  "bit (merge_entry e high val) n \<longleftrightarrow> n < 64 \<and>
    (if high then (if n < 32 then bit e n else bit val (n - 32))
     else if n < 32 \<and> n \<noteq> 12 \<and> n \<noteq> 14 then bit val n else bit e n)"
proof -
  have m: "(0xffffffff00005000 :: u64) = NOT (mask 32) OR push_bit 12 (mask 1) OR push_bit 14 (mask 1)"
    "(0xffffafff :: u64) = mask 32 AND NOT (push_bit 12 (mask 1)) AND NOT (push_bit 14 (mask 1))"
    by (simp_all add: mask_eq_exp_minus_1)
  show ?thesis
    unfolding merge_entry_def m mask_numerals
    by (auto simp: bit_simps bit_powers bit_read_only dest: bit_imp_le_length)
qed

lemma merge_entry_readback:
  "ucast (drop_bit 32 (merge_entry e True val)) = val"
  "ucast (merge_entry e False val AND 0xffffffff) = (val AND 0xffffafff) OR (ucast e AND 0x5000)"
proof -
  show "ucast (drop_bit 32 (merge_entry e True val)) = val"
    by (rule bit_word_eqI) (auto simp: bit_simps bit_merge_entry)
  have m: "(0xffffafff :: u32) = NOT (push_bit 12 (mask 1)) AND NOT (push_bit 14 (mask 1))"
    "(0x5000 :: u32) = push_bit 12 (mask 1) OR push_bit 14 (mask 1)"
    by (simp_all add: mask_eq_exp_minus_1)
  show "ucast (merge_entry e False val AND 0xffffffff) = (val AND 0xffffafff) OR (ucast e AND 0x5000)"
    unfolding m mask_numerals by (rule bit_word_eqI) (auto simp: bit_simps bit_merge_entry bit_read_only)
qed

text \<open>
  C25: Redirection entries can be written and read back through the two registers of the device.
  Selecting a half of entry \<open>i\<close> (register offset 0) and writing a value at the window (offset 16)
  never panics, whether the interrupt group accepts the update or not; reading the window then gives the value back, bit for bit in the high half, and in the low half all but the two
  read-only bits, delivery status and remote IRR, which keep their values.  All other entries and
  the device's other registers are untouched.
\<close>
theorem ioapic_entry_roundtrip:
  assumes "byteorder_ok B" "ioapic_wf io" "i < NUM_IOAPIC_PINS"
    and "msi_inv X g" and "I = msi_ops H"
  shows "\<exists>io1 io2 g'. ioapic_bus_write B I io 0 (write_u32 B (ucast (entry_selector i high))) g = Some (io1, g)
    \<and> ioapic_bus_write B I io1 0x10 (write_u32 B val) g = Some (io2, g')
    \<and> ioapic_bus_read B io2 0x10 (replicate 4 0) = Some (write_u32 B
        (if high then val else (val AND 0xffffafff) OR (ucast (reg_entries io ! i) AND 0x5000)))
    \<and> (\<forall>j. j \<noteq> i \<longrightarrow> reg_entries io2 ! j = reg_entries io ! j)
    \<and> id_reg io2 = id_reg io \<and> apic_address io2 = apic_address io"
proof -
  let ?io1 = "io\<lparr> reg_sel := ucast (entry_selector i high) \<rparr>"
  have w1: "ioapic_bus_write B I io 0 (write_u32 B (ucast (entry_selector i high))) g = Some (?io1, g)"
    using assms(1) by (simp add: ioapic_bus_write_def byteorder_write_read32 byteorder_length)
  have sel: "ucast (reg_sel ?io1) = entry_selector i high"
    by (rule bit_word_eqI) (auto simp: bit_simps)
  have wf1: "ioapic_wf ?io1" using assms(2) by (simp add: ioapic_wf_def)
  let ?e = "merge_entry (reg_entries io ! i) high val"
  let ?io2 = "?io1\<lparr> reg_entries := (reg_entries io)[i := ?e], used_entries := (used_entries io)[i := True] \<rparr>"
  have len: "i < length (reg_entries io)" using assms(2,3) by (simp add: ioapic_wf_def)
  then obtain r g' where "update_entry I (?io1\<lparr> reg_entries := (reg_entries io)[i := ?e] \<rparr>) i True g = Some (r, g')"
    using msi.update_total [OF assms(4), of H] assms(5) by (fastforce simp: update_entry_group)
  then have "ioapic_write I ?io1 val g = Some (?io2, g')"
    using ioapic_write_entry [OF wf1 assms(3) sel, of I val g] by simp
  then have w2: "ioapic_bus_write B I ?io1 0x10 (write_u32 B val) g = Some (?io2, g')"
    using assms(1) by (simp add: ioapic_bus_write_def byteorder_write_read32 byteorder_length IOWIN_OFF_def)
  have wf2: "ioapic_wf ?io2" using assms(2) by (simp add: ioapic_wf_def)
  have "ioapic_read ?io2 = Some (if high then val
      else (val AND 0xffffafff) OR (ucast (reg_entries io ! i) AND 0x5000))"
    using ioapic_read_entry [OF wf2 assms(3), of high] sel len merge_entry_readback by simp
  then have "ioapic_bus_read B ?io2 0x10 (replicate 4 0) = Some (write_u32 B
      (if high then val else (val AND 0xffffafff) OR (ucast (reg_entries io ! i) AND 0x5000)))"
    by (simp add: ioapic_bus_read_def IOWIN_OFF_def)
  with w1 w2 show ?thesis by (intro exI conjI) (assumption | simp)+
qed

lemma replicate_4: "replicate 4 x = [x, x, x, x]"
  by (simp add: numeral_eq_Suc)

theorem ioapic_entry_roundtrip_witness:
  "\<exists>g io io1 io2 g'. msi_inv {} g \<and> ioapic_new (msi_ops calm_hyp) (Inr g) 0xfee00000 None = Some (Inr io, Some g)
    \<and> ioapic_bus_write std_le (msi_ops calm_hyp) io 0 [0x16, 0, 0, 0] g = Some (io1, g)
    \<and> ioapic_bus_write std_le (msi_ops calm_hyp) io1 0x10 [0x31, 0x80, 0, 0] g = Some (io2, g')
    \<and> ioapic_bus_read std_le io2 0x10 [0, 0, 0, 0] = Some [0x31, 0x80, 0, 0]"
proof -
  obtain r and m :: "(nat, u32 \<times> interrupt_source_config) msi_manager" where inv: "msi_inv {} (r, m)"
    using sample_update by metis
  define io where "io = \<lparr> id_reg = 0, reg_sel = 0, reg_entries = replicate NUM_IOAPIC_PINS 0x10000,
    used_entries = replicate NUM_IOAPIC_PINS False, apic_address = 0xfee00000 \<rparr>"
  have new: "ioapic_new (msi_ops calm_hyp) (Inr (r, m)) 0xfee00000 None = Some (Inr io, Some (r, m))"
    by (simp add: ioapic_new_def io_def)
  have "ioapic_wf io" "reg_entries io ! 3 = 0x10000"
    by (simp_all add: io_def ioapic_wf_def NUM_IOAPIC_PINS_def)
  moreover have b: "(32817 :: u8) = 49" by simp
  moreover note ioapic_entry_roundtrip [OF std_le_ok _ _ inv refl, where io = io and i = 3 and H = calm_hyp
      and high = False and val = "0x8031"]
  ultimately show ?thesis using inv new
    by (simp add: NUM_IOAPIC_PINS_def entry_selector_def IOWIN_OFF_def std_le_def le_bytes_4
        replicate_4 b) blast
qed

lemma remote_irr_simps:
  "remote_irr (set_remote_irr e 0) = 0" "remote_irr (set_remote_irr e 1) = 1"
  "remote_irr (set_delivery_status e v) = remote_irr e" "remote_irr (merge_entry e high val) = remote_irr e"
  by (auto intro!: bit_word_eqI simp: bits_simps bit_merge_entry bit_1_iff split: if_splits)

text \<open>
  C26: The remote IRR bit of a redirection entry records an unacknowledged level-triggered
  interrupt.  It is set exactly by a successful interrupt on the pin while the entry is
  level-triggered, cleared exactly by an end of interrupt for the entry's vector while the entry
  is level-triggered, and no register write of the guest changes it.
\<close>
theorem remote_irr_protocol:
  assumes "ioapic_wf io" "ioapic_exec B I ev io g = Some (io', g')" "i < NUM_IOAPIC_PINS"
  shows "remote_irr (reg_entries io' ! i) =
    (let e = reg_entries io ! i in
     case ev of
       BusWrite off data \<Rightarrow> remote_irr e
     | ServiceIrq n \<Rightarrow>
         if n = i \<and> trigger_mode e = 1 \<and> (\<exists>g1. isg_trigger I (word_of_nat n) g = Some (Inr (), g1))
         then 1 else remote_irr e
     | EndOfInterrupt vec \<Rightarrow> if vector e = vec \<and> trigger_mode e = 1 then 0 else remote_irr e)"
proof -
  have len: "i < length (reg_entries io)" using assms by (simp add: ioapic_wf_def)
  show ?thesis
  proof (cases ev)
    case (BusWrite off data)
    show ?thesis
    proof (rule ioapic_bus_write_cases [OF assms(1), of B I off data g], goal_cases regs entry)
      case (regs io1)
      then show ?thesis using assms(2) BusWrite by simp
    next
      case (entry n high io1)
      then have "io' = io1" using assms(2) BusWrite by (auto split: option.splits)
      then show ?thesis using entry BusWrite len
        by (cases "n = i") (simp_all add: remote_irr_simps)
    qed
  next
    case (ServiceIrq n)
    then show ?thesis using assms(2) len
      by (auto simp: service_irq_def Let_def remote_irr_simps nth_list_update
          split: option.splits sum.splits if_splits)
  next
    case (EndOfInterrupt vec)
    then show ?thesis using assms(2) len
      by (auto simp: end_of_interrupt_def remote_irr_simps Let_def)
  qed
qed

theorem remote_irr_protocol_witness:
  "\<exists>a io. ioapic_wf io \<and> remote_irr (reg_entries io ! 3) = 1
    \<and> ioapic_exec std_le (msi_ops calm_hyp) (EndOfInterrupt 0x31) io ([], mm_new a 0)
        = Some (end_of_interrupt io 0x31, ([], mm_new a 0))
    \<and> remote_irr (reg_entries (end_of_interrupt io 0x31) ! 3) = 0"
proof -
  obtain a :: system_allocator where True by blast
  define io where "io = \<lparr> id_reg = 0, reg_sel = 0, reg_entries = replicate NUM_IOAPIC_PINS 0xc031,
    used_entries = replicate NUM_IOAPIC_PINS False, apic_address = 0xfee00000 \<rparr>"
  have wf: "ioapic_wf io" and e: "reg_entries io ! 3 = 0xc031"
    by (simp_all add: io_def ioapic_wf_def NUM_IOAPIC_PINS_def)
  have ex: "ioapic_exec std_le (msi_ops calm_hyp) (EndOfInterrupt 0x31) io ([], mm_new a 0)
      = Some (end_of_interrupt io 0x31, ([], mm_new a 0))" by simp
  have "remote_irr (reg_entries (end_of_interrupt io 0x31) ! 3) = 0"
    using remote_irr_protocol [OF wf ex, of 3] e
    by (simp add: NUM_IOAPIC_PINS_def vector_def trigger_mode_def)
  moreover have "remote_irr (reg_entries io ! 3) = 1" by (simp add: e remote_irr_def)
  ultimately show ?thesis using wf ex by blast
qed

end
