(* ===== verification/Writer.thy ===== *)
theory Writer
  imports Prelude
begin

text \<open>
  The trait \<^verbatim>\<open>std::io::Write\<close>.  A writer is a record of its two required methods over a state; what
  the components rely on is the contract \<open>writer_ok\<close>, which is how the trait documents them.
  \<open>None\<close> is a call that panics or does not return.
\<close>

section \<open>Model\<close>

datatype io_error = WouldBlock | Interrupted | WriteZero | OtherIo

record 'w writer =
  w_write :: "u8 list \<Rightarrow> 'w \<Rightarrow> ((io_error + nat) \<times> 'w) option"
  w_flush :: "'w \<Rightarrow> ((io_error + unit) \<times> 'w) option"

text \<open>The provided method \<open>write_all\<close> of the standard library.\<close>

partial_function (option) write_all ::
  "'w writer \<Rightarrow> u8 list \<Rightarrow> 'w \<Rightarrow> ((io_error + unit) \<times> 'w) option" where
  "write_all W bs w =
    (if bs = [] then Some (Inr (), w)
     else case w_write W bs w of
            None \<Rightarrow> None
          | Some (Inr n, w') \<Rightarrow>
              if n = 0 then Some (Inl WriteZero, w')
              else if length bs < n then None
              else write_all W (drop n bs) w'
          | Some (Inl e, w') \<Rightarrow>
              if e = Interrupted then write_all W bs w' else Some (Inl e, w'))"

section \<open>The contract of a writer\<close>

text \<open>\<open>received w\<close> are the bytes the writer has accepted.  A successful \<open>write\<close> accepts a prefix of its
  argument, a failed one nothing; interrupted calls do not reach the caller.\<close>

definition writer_ok :: "'w writer \<Rightarrow> ('w \<Rightarrow> u8 list) \<Rightarrow> bool" where
  "writer_ok W received \<longleftrightarrow>
    (\<forall>bs w. \<exists>r w'. w_write W bs w = Some (r, w') \<and>
       (case r of Inl e \<Rightarrow> e \<noteq> Interrupted \<and> received w' = received w
        | Inr n \<Rightarrow> n \<le> length bs \<and> received w' = received w @ take n bs))
    \<and> (\<forall>w. \<exists>r w'. w_flush W w = Some (r, w') \<and> r \<noteq> Inl Interrupted \<and> received w' = received w)"

lemma writer_okE:
  assumes "writer_ok W received"
  obtains (accept) n w' where "w_write W bs w = Some (Inr n, w')" "n \<le> length bs"
      "received w' = received w @ take n bs"
  | (refuse) e w' where "w_write W bs w = Some (Inl e, w')" "e \<noteq> Interrupted" "received w' = received w"
proof -
  obtain r w' where "w_write W bs w = Some (r, w')" "case r of Inl e \<Rightarrow> e \<noteq> Interrupted \<and> received w' = received w
        | Inr n \<Rightarrow> n \<le> length bs \<and> received w' = received w @ take n bs"
    using assms unfolding writer_ok_def by blast
  then show thesis using that by (cases r) auto
qed

lemma writer_ok_flush:
  assumes "writer_ok W received"
  obtains r w' where "w_flush W w = Some (r, w')" "received w' = received w" "r \<noteq> Inl Interrupted"
  using assms unfolding writer_ok_def by blast

lemma write_all_byte:
  assumes "writer_ok W received"
  obtains r w' where "write_all W [b] w = Some (r, w')"
    "received w' = received w @ (case r of Inl _ \<Rightarrow> [] | Inr _ \<Rightarrow> [b])"
  using assms
proof (cases rule: writer_okE [where bs = "[b]" and w = w])
  case (accept n w')
  then show thesis
    using that [of "if n = 0 then Inl WriteZero else Inr ()" w']
    by (cases n) (auto simp: write_all.simps)
next
  case (refuse e w')
  then show thesis using that [of "Inl e" w'] by (simp add: write_all.simps)
qed

text \<open>A writer whose only failure is that it would block.\<close>

definition only_blocks :: "'w writer \<Rightarrow> bool" where
  "only_blocks W \<longleftrightarrow>
    (\<forall>bs w e w'. w_write W bs w = Some (Inl e, w') \<longrightarrow> e = WouldBlock)
    \<and> (\<forall>w e w'. w_flush W w \<noteq> Some (Inl e, w'))"

text \<open>A writer that takes one byte per call and blocks after three.\<close>

definition slow_writer :: "u8 list writer" where
  "slow_writer = \<lparr> w_write = (\<lambda>bs w. Some (if 3 \<le> length w then (Inl WouldBlock, w)
      else (Inr (min 1 (length bs)), w @ take 1 bs))), w_flush = (\<lambda>w. Some (Inr (), w)) \<rparr>"

lemma slow_writer_ok: "writer_ok slow_writer id"
proof -
  have "take 1 bs = take (min 1 (length bs)) bs" for bs :: "u8 list" by (cases bs) simp_all
  then show ?thesis by (simp add: writer_ok_def slow_writer_def)
qed

lemma slow_writer_blocks: "only_blocks slow_writer"
  by (simp add: only_blocks_def slow_writer_def)

end
