(* ===== verification/SerialBuffer.thy ===== *)
theory SerialBuffer
  imports Writer "HOL-Library.Sublist"
begin

text \<open>
  \<^verbatim>\<open>serial_buffer/src/lib.rs\<close>: the buffer between a serial device and the terminal or socket that may
  not be ready for its output.  The downstream writer is a trait object \<open>dyn Write\<close> and a parameter
  of the model.
\<close>

section \<open>Model\<close>

subsection \<open>The buffer\<close>

record 'w serial_buffer =
  sb_buffer :: "u8 list"
  sb_out :: 'w
  sb_write_out :: bool

definition MAX_BUFFER_SIZE :: nat where
  "MAX_BUFFER_SIZE = 2 ^ 20"

definition sb_new :: "'w \<Rightarrow> bool \<Rightarrow> 'w serial_buffer" where
  "sb_new out write_out = \<lparr> sb_buffer = [], sb_out = out, sb_write_out = write_out \<rparr>"

definition fill_buffer :: "u8 list \<Rightarrow> u8 list \<Rightarrow> u8 list" where
  "fill_buffer buffer buf =
    (if MAX_BUFFER_SIZE \<le> length buf
     then let offset = length buf - MAX_BUFFER_SIZE in drop offset buf
     else
       let num_allowed_bytes = MAX_BUFFER_SIZE - length buf;
           buffer = (if num_allowed_bytes < length buffer
                     then drop (length buffer - num_allowed_bytes) buffer else buffer)
       in buffer @ buf)"

definition sb_set_out :: "'w \<Rightarrow> 'w serial_buffer \<Rightarrow> 'w serial_buffer" where
  "sb_set_out out sb = sb\<lparr> sb_out := out \<rparr>"

fun flush_loop :: "'w writer \<Rightarrow> u8 list \<Rightarrow> 'w \<Rightarrow> (u8 list \<times> 'w) option" where
  "flush_loop W [] w = Some ([], w)"
| "flush_loop W (byte # bs) w =
    (case write_all W [byte] w of
       None \<Rightarrow> None
     | Some (Inl _, w') \<Rightarrow> Some (byte # bs, w')
     | Some (Inr _, w') \<Rightarrow> flush_loop W bs w')"

definition sb_flush :: "'w writer \<Rightarrow> 'w serial_buffer \<Rightarrow> ((io_error + unit) \<times> 'w serial_buffer) option" where
  "sb_flush W sb =
    (if \<not> sb_write_out sb then Some (Inr (), sb)
     else case flush_loop W (sb_buffer sb) (sb_out sb) of
            None \<Rightarrow> None
          | Some (buffer, w) \<Rightarrow>
              map_option (\<lambda>(r, w'). (r, sb\<lparr> sb_buffer := buffer, sb_out := w' \<rparr>)) (w_flush W w))"

text \<open>The loop that hands \<open>data\<close> from \<open>offset\<close> on to the device.\<close>

partial_function (option) direct_loop ::
  "'w writer \<Rightarrow> u8 list \<Rightarrow> nat \<Rightarrow> u8 list \<Rightarrow> 'w \<Rightarrow> ((io_error + u8 list) \<times> 'w) option" where
  "direct_loop W data offset buffer w =
    (if offset < length data
     then case w_write W (drop offset data) w of
            None \<Rightarrow> None
          | Some (Inr written, w') \<Rightarrow>
              if written = 0 then Some (Inr (fill_buffer buffer (drop offset data)), w')
              else direct_loop W data (offset + written) buffer w'
          | Some (Inl e, w') \<Rightarrow>
              if e = WouldBlock then Some (Inr (fill_buffer buffer (drop offset data)), w')
              else Some (Inl e, w')
     else Some (Inr buffer, w))"

definition sb_write ::
  "'w writer \<Rightarrow> u8 list \<Rightarrow> 'w serial_buffer \<Rightarrow> ((io_error + nat) \<times> 'w serial_buffer) option" where
  "sb_write W data sb =
    (if \<not> sb_write_out sb
     then Some (Inr (length data), sb\<lparr> sb_buffer := fill_buffer (sb_buffer sb) data \<rparr>)
     else case sb_flush W sb of
       None \<Rightarrow> None
     | Some (Inl e, sb1) \<Rightarrow> Some (Inl e, sb1)
     | Some (Inr _, sb1) \<Rightarrow>
         if sb_buffer sb1 \<noteq> []
         then Some (Inr (length data), sb1\<lparr> sb_buffer := fill_buffer (sb_buffer sb1) data \<rparr>)
         else case direct_loop W data 0 (sb_buffer sb1) (sb_out sb1) of
           None \<Rightarrow> None
         | Some (Inl e, w) \<Rightarrow> Some (Inl e, sb1\<lparr> sb_out := w \<rparr>)
         | Some (Inr buffer, w) \<Rightarrow>
             (case w_flush W w of
                None \<Rightarrow> None
              | Some (Inl e, w') \<Rightarrow> Some (Inl e, sb1\<lparr> sb_buffer := buffer, sb_out := w' \<rparr>)
              | Some (Inr _, w') \<Rightarrow> Some (Inr (length data), sb1\<lparr> sb_buffer := buffer, sb_out := w' \<rparr>)))"

text \<open>The buffer is itself a writer.\<close>

definition sb_writer :: "'w writer \<Rightarrow> 'w serial_buffer writer" where
  "sb_writer W = \<lparr> w_write = sb_write W, w_flush = sb_flush W \<rparr>"

section \<open>Loops\<close>

definition keep_last :: "nat \<Rightarrow> 'a list \<Rightarrow> 'a list" where
  "keep_last n xs = drop (length xs - n) xs"

lemma keep_last_short [simp]: "length xs \<le> n \<Longrightarrow> keep_last n xs = xs"
  by (simp add: keep_last_def)

lemma length_keep_last [simp]: "length (keep_last n xs) = min n (length xs)"
  by (simp add: keep_last_def)

lemma subseq_keep_last [simp]: "subseq (keep_last n xs) xs"
  unfolding keep_last_def by (rule suffix_imp_subseq) (simp add: suffix_drop)

lemma fill_buffer_keeps_last: "fill_buffer buffer buf = keep_last MAX_BUFFER_SIZE (buffer @ buf)"
  by (auto simp: fill_buffer_def keep_last_def Let_def)

lemma flush_loop_delivers:
  assumes "writer_ok W received"
  shows "\<exists>m w'. flush_loop W bs w = Some (drop m bs, w') \<and> m \<le> length bs \<and> received w' = received w @ take m bs"
proof (induction bs arbitrary: w)
  case (Cons b bs)
  obtain r w1 where w1: "write_all W [b] w = Some (r, w1)"
    "received w1 = received w @ (case r of Inl _ \<Rightarrow> [] | Inr _ \<Rightarrow> [b])"
    by (rule write_all_byte [OF assms])
  show ?case
  proof (cases r)
    case (Inl e)
    then show ?thesis using w1 by (intro exI [of _ 0] exI [of _ w1]) simp
  next
    case (Inr u)
    obtain m w' where "flush_loop W bs w1 = Some (drop m bs, w')" "m \<le> length bs" "received w' = received w1 @ take m bs"
      using Cons by blast
    then show ?thesis using w1 Inr by (intro exI [of _ "Suc m"] exI [of _ w']) simp
  qed
qed simp

lemma sb_flush_delivers:
  assumes "writer_ok W received"
  obtains r m w' where "sb_flush W sb = Some (r, sb\<lparr> sb_buffer := drop m (sb_buffer sb), sb_out := w' \<rparr>)"
    "m \<le> length (sb_buffer sb)" "received w' = received (sb_out sb) @ take m (sb_buffer sb)"
    "r \<noteq> Inl Interrupted"
proof (cases "sb_write_out sb")
  case False
  then show thesis by (intro that [where m = 0 and w' = "sb_out sb" and r = "Inr ()"]) (simp_all add: sb_flush_def)
next
  case True
  obtain m w1 where l: "flush_loop W (sb_buffer sb) (sb_out sb) = Some (drop m (sb_buffer sb), w1)"
    "m \<le> length (sb_buffer sb)" "received w1 = received (sb_out sb) @ take m (sb_buffer sb)"
    using flush_loop_delivers [OF assms] by blast
  obtain r w' where "w_flush W w1 = Some (r, w')" "received w' = received w1" "r \<noteq> Inl Interrupted"
    by (rule writer_ok_flush [OF assms])
  then show thesis using l True by (intro that [where m = m and w' = w' and r = r]) (simp_all add: sb_flush_def)
qed

lemma direct_loop_delivers:
  assumes "writer_ok W received" "length buffer \<le> MAX_BUFFER_SIZE" "off \<le> length data"
  shows "\<exists>r w' m. direct_loop W data off buffer w = Some (r, w') \<and> off \<le> m \<and> m \<le> length data
    \<and> received w' = received w @ take (m - off) (drop off data)
    \<and> (\<forall>b. r = Inr b \<longrightarrow> b = keep_last MAX_BUFFER_SIZE (buffer @ drop m data)) \<and> r \<noteq> Inl Interrupted"
  using assms(3)
proof (induction "length data - off" arbitrary: off w rule: less_induct)
  case less
  show ?case
  proof (cases "off < length data")
    case False
    then show ?thesis using assms(2) less.prems by (auto simp: direct_loop.simps)
  next
    case True
    from assms(1) show ?thesis
    proof (cases rule: writer_okE [where bs = "drop off data" and w = w])
      case (accept n w1)
      show ?thesis
      proof (cases "n = 0")
        case True
        then show ?thesis using accept \<open>off < length data\<close>
          by (intro exI [of _ "Inr (fill_buffer buffer (drop off data))"] exI [of _ w1] exI [of _ off])
            (simp add: direct_loop.simps fill_buffer_keeps_last)
      next
        case False
        have "length data - (off + n) < length data - off" "off + n \<le> length data"
          using False True accept(2) by auto
        from less.hyps [OF this, of w1] obtain r w' m where
          IH: "direct_loop W data (off + n) buffer w1 = Some (r, w')" "off + n \<le> m" "m \<le> length data"
            "received w' = received w1 @ take (m - (off + n)) (drop (off + n) data)"
            "\<forall>b. r = Inr b \<longrightarrow> b = keep_last MAX_BUFFER_SIZE (buffer @ drop m data)"
            "r \<noteq> Inl Interrupted" by blast
        have "take (m - off) (drop off data) = take n (drop off data) @ take (m - (off + n)) (drop (off + n) data)"
          using take_add [of n "m - (off + n)" "drop off data"] IH(2) by (simp add: add.commute)
        then show ?thesis using IH accept False True
          by (intro exI [of _ r] exI [of _ w'] exI [of _ m]) (simp add: direct_loop.simps)
      qed
    next
      case (refuse e w1)
      then show ?thesis using True
        by (intro exI [of _ "if e = WouldBlock then Inr (fill_buffer buffer (drop off data)) else Inl e"]
            exI [of _ w1] exI [of _ off])
          (simp add: direct_loop.simps fill_buffer_keeps_last)
    qed
  qed
qed

section \<open>The stream of bytes\<close>

lemma sb_write_delivers:
  assumes ok: "writer_ok W received" and len: "length (sb_buffer sb) \<le> MAX_BUFFER_SIZE"
  obtains r sb' m where "sb_write W data sb = Some (r, sb')" "sb_write_out sb' = sb_write_out sb"
    "received (sb_out sb') = received (sb_out sb) @ take m (sb_buffer sb @ data)"
    "sb_buffer sb' = keep_last MAX_BUFFER_SIZE (drop m (sb_buffer sb @ data))
     \<or> sb_buffer sb' = drop m (sb_buffer sb) \<and> (\<exists>e. r = Inl e)"
    "\<And>n. r = Inr n \<Longrightarrow> n = length data" "r \<noteq> Inl Interrupted"
proof (cases "sb_write_out sb")
  case False
  then show thesis
    by (intro that [where m = 0 and r = "Inr (length data)" and
          sb' = "sb\<lparr> sb_buffer := fill_buffer (sb_buffer sb) data \<rparr>"])
      (simp_all add: sb_write_def fill_buffer_keeps_last)
next
  case True
  obtain r m w1 where f: "sb_flush W sb = Some (r, sb\<lparr> sb_buffer := drop m (sb_buffer sb), sb_out := w1 \<rparr>)"
    "m \<le> length (sb_buffer sb)" "received w1 = received (sb_out sb) @ take m (sb_buffer sb)"
    "r \<noteq> Inl Interrupted"
    by (rule sb_flush_delivers [OF ok])
  consider (err) e where "r = Inl e" | (full) "r = Inr ()" "m < length (sb_buffer sb)"
    | (direct) "r = Inr ()" "m = length (sb_buffer sb)"
    using f(2) by (cases r; cases "m = length (sb_buffer sb)") auto
  then show thesis
  proof cases
    case err
    then show thesis using f True
      by (intro that [where m = m and r = "Inl e" and sb' = "sb\<lparr> sb_buffer := drop m (sb_buffer sb), sb_out := w1 \<rparr>"])
        (simp_all add: sb_write_def)
  next
    case full
    then show thesis using f True
      by (intro that [where m = m and r = "Inr (length data)" and
            sb' = "sb\<lparr> sb_buffer := fill_buffer (drop m (sb_buffer sb)) data, sb_out := w1 \<rparr>"])
        (simp_all add: sb_write_def fill_buffer_keeps_last)
  next
    case direct
    obtain q w2 k where d: "direct_loop W data 0 [] w1 = Some (q, w2)" "k \<le> length data"
      "received w2 = received w1 @ take k data"
      "\<And>b. q = Inr b \<Longrightarrow> b = keep_last MAX_BUFFER_SIZE (drop k data)" "q \<noteq> Inl Interrupted"
      using direct_loop_delivers [OF ok, of "[]" 0 data w1] by auto
    obtain rf w3 where fl: "w_flush W w2 = Some (rf, w3)" "received w3 = received w2" "rf \<noteq> Inl Interrupted"
      by (rule writer_ok_flush [OF ok])
    define w' where "w' = (case q of Inl _ \<Rightarrow> w2 | Inr _ \<Rightarrow> w3)"
    define b where "b = (case q of Inl _ \<Rightarrow> [] | Inr b \<Rightarrow> b)"
    define r' where "r' = (case q of Inl e \<Rightarrow> Inl e | Inr _ \<Rightarrow> map_sum id (\<lambda>_. length data) rf)"
    have "sb_write W data sb = Some (r', sb\<lparr> sb_buffer := b, sb_out := w' \<rparr>)"
      using True f direct d(1) fl by (cases q; cases rf) (simp_all add: sb_write_def w'_def b_def r'_def)
    moreover have "received w' = received (sb_out sb) @ take (m + k) (sb_buffer sb @ data)"
      using f(3) direct d(3) fl(2) by (simp add: w'_def split: sum.split)
    moreover have "b = keep_last MAX_BUFFER_SIZE (drop (m + k) (sb_buffer sb @ data))
        \<or> b = drop (m + k) (sb_buffer sb) \<and> (\<exists>e. r' = Inl e)"
      using d(4) direct by (cases q) (simp_all add: b_def r'_def)
    moreover have "r' = Inr n \<Longrightarrow> n = length data" for n
      by (auto simp: r'_def split: sum.splits) (cases rf; simp)
    moreover have "r' \<noteq> Inl Interrupted"
      using d(5) fl(3) by (cases q; cases rf) (auto simp: r'_def)
    ultimately show thesis
      by (intro that [where m = "m + k" and r = r' and sb' = "sb\<lparr> sb_buffer := b, sb_out := w' \<rparr>"]) simp_all
  qed
qed

text \<open>Everything the buffer has passed on or still holds.\<close>

definition stream :: "('w \<Rightarrow> u8 list) \<Rightarrow> 'w serial_buffer \<Rightarrow> u8 list" where
  "stream received sb = received (sb_out sb) @ sb_buffer sb"

lemma sb_write_stream:
  assumes "writer_ok W received" "length (sb_buffer sb) \<le> MAX_BUFFER_SIZE" "sb_write W data sb = Some (r, sb')"
  shows "subseq (stream received sb') (stream received sb @ data)" "length (sb_buffer sb') \<le> MAX_BUFFER_SIZE"
    "prefix (received (sb_out sb)) (received (sb_out sb'))" "sb_write_out sb' = sb_write_out sb"
    "length (sb_buffer sb) + length data \<le> MAX_BUFFER_SIZE \<Longrightarrow> r = Inr n \<Longrightarrow>
       stream received sb' = stream received sb @ data"
proof -
  obtain m where m: "received (sb_out sb') = received (sb_out sb) @ take m (sb_buffer sb @ data)"
    "sb_buffer sb' = keep_last MAX_BUFFER_SIZE (drop m (sb_buffer sb @ data))
     \<or> sb_buffer sb' = drop m (sb_buffer sb) \<and> (\<exists>e. r = Inl e)" "sb_write_out sb' = sb_write_out sb"
    using sb_write_delivers [OF assms(1,2), of data] assms(3) by (metis option.inject prod.inject)
  have b: "subseq (sb_buffer sb') (drop m (sb_buffer sb @ data))"
    using m(2) by (auto intro: prefix_imp_subseq)
  have "subseq (take m (sb_buffer sb @ data) @ sb_buffer sb') (take m (sb_buffer sb @ data) @ drop m (sb_buffer sb @ data))"
    using b by (intro list_emb_append_mono) auto
  then have "subseq (received (sb_out sb) @ take m (sb_buffer sb @ data) @ sb_buffer sb')
      (received (sb_out sb) @ sb_buffer sb @ data)"
    unfolding append_take_drop_id by (rule list_emb_append_mono [OF subseq_order.order_refl])
  then show "subseq (stream received sb') (stream received sb @ data)"
    by (simp add: stream_def m(1))
  show "length (sb_buffer sb') \<le> MAX_BUFFER_SIZE" using m(2) assms(2) by auto
  show "prefix (received (sb_out sb)) (received (sb_out sb'))" "sb_write_out sb' = sb_write_out sb"
    using m(1,3) by simp_all
  show "stream received sb' = stream received sb @ data"
    if "length (sb_buffer sb) + length data \<le> MAX_BUFFER_SIZE" "r = Inr n"
  proof -
    have "sb_buffer sb' = drop m (sb_buffer sb @ data)" using m(2) that by auto
    then show ?thesis by (simp add: stream_def m(1) del: take_append drop_append)
  qed
qed

lemma direct_loop_blocks:
  assumes "only_blocks W"
  shows "direct_loop W data off buffer w \<noteq> Some (Inl e, w')"
proof (induction "length data - off" arbitrary: off w rule: less_induct)
  case less
  show ?case
  proof (cases "\<exists>n w1. w_write W (drop off data) w = Some (Inr n, w1) \<and> n \<noteq> 0 \<and> off < length data")
    case True
    then obtain n w1 where n: "w_write W (drop off data) w = Some (Inr n, w1)" "n \<noteq> 0" "off < length data" by blast
    then have "direct_loop W data (off + n) buffer w1 \<noteq> Some (Inl e, w')" by (intro less) simp
    then show ?thesis using n by (simp add: direct_loop.simps [of W data off])
  next
    case False
    moreover have "w_write W (drop off data) w = Some (Inl e, w1) \<Longrightarrow> e = WouldBlock" for e w1
      using assms unfolding only_blocks_def by blast
    ultimately show ?thesis
      by (auto simp: direct_loop.simps [of W data off] split: option.splits sum.splits)
  qed
qed

lemma only_blocks_flush: "only_blocks W \<Longrightarrow> sb_flush W sb \<noteq> Some (Inl e, sb')"
  by (auto simp: sb_flush_def only_blocks_def split: option.splits)

lemma only_blocks_write: "only_blocks W \<Longrightarrow> sb_write W data sb \<noteq> Some (Inl e, sb')"
  using only_blocks_flush [of W sb] direct_loop_blocks [of W data 0]
  by (auto simp: sb_write_def only_blocks_def split: option.splits sum.splits if_splits)

lemma sb_flush_stream:
  assumes "writer_ok W received"
  obtains r sb' where "sb_flush W sb = Some (r, sb')" "stream received sb' = stream received sb"
    "length (sb_buffer sb') \<le> length (sb_buffer sb)" "prefix (received (sb_out sb)) (received (sb_out sb'))"
proof -
  obtain r m w' where "sb_flush W sb = Some (r, sb\<lparr> sb_buffer := drop m (sb_buffer sb), sb_out := w' \<rparr>)"
    "received w' = received (sb_out sb) @ take m (sb_buffer sb)"
    by (rule sb_flush_delivers [OF assms])
  then show thesis
    using that [of r "sb\<lparr> sb_buffer := drop m (sb_buffer sb), sb_out := w' \<rparr>"] by (simp add: stream_def)
qed

text \<open>What happens to the buffer: output of the device, a change of the \<open>write_out\<close> flag by the thread
  that watches the terminal, and a flush.\<close>

datatype sb_event = SbWrite "u8 list" | SbAllow bool | SbFlush

fun sb_exec :: "'w writer \<Rightarrow> sb_event \<Rightarrow> 'w serial_buffer \<Rightarrow> 'w serial_buffer option" where
  "sb_exec W (SbWrite data) sb = map_option snd (sb_write W data sb)"
| "sb_exec W (SbAllow b) sb = Some (sb\<lparr> sb_write_out := b \<rparr>)"
| "sb_exec W SbFlush sb = map_option snd (sb_flush W sb)"

fun sb_run :: "'w writer \<Rightarrow> sb_event list \<Rightarrow> 'w serial_buffer \<Rightarrow> 'w serial_buffer option" where
  "sb_run W [] sb = Some sb"
| "sb_run W (ev # evs) sb = (case sb_exec W ev sb of None \<Rightarrow> None | Some sb' \<Rightarrow> sb_run W evs sb')"

fun sb_written :: "sb_event \<Rightarrow> u8 list" where
  "sb_written (SbWrite data) = data"
| "sb_written _ = []"

lemma sb_exec_stream:
  assumes ok: "writer_ok W received" and len: "length (sb_buffer sb) \<le> MAX_BUFFER_SIZE"
  obtains sb' where "sb_exec W ev sb = Some sb'" "length (sb_buffer sb') \<le> MAX_BUFFER_SIZE"
    "subseq (stream received sb') (stream received sb @ sb_written ev)"
    "prefix (received (sb_out sb)) (received (sb_out sb'))"
proof (cases ev)
  case (SbWrite data)
  obtain r sb' where w: "sb_write W data sb = Some (r, sb')"
    by (rule sb_write_delivers [OF ok len])
  then show thesis using that [of sb'] sb_write_stream [OF ok len w] SbWrite by simp
next
  case (SbAllow b)
  then show thesis using that [of "sb\<lparr> sb_write_out := b \<rparr>"] len by (simp add: stream_def)
next
  case SbFlush
  obtain r sb' where "sb_flush W sb = Some (r, sb')" "stream received sb' = stream received sb"
    "length (sb_buffer sb') \<le> length (sb_buffer sb)" "prefix (received (sb_out sb)) (received (sb_out sb'))"
    by (rule sb_flush_stream [OF ok])
  then show thesis using that [of sb'] SbFlush len by simp
qed

text \<open>
  C17: Console output is never reordered, duplicated or made up.  Whatever the device writes and
  whenever the terminal is allowed, refuses, blocks or accepts bytes in pieces, all calls return,
  the bytes the terminal has received followed by the bytes still buffered are a subsequence of
  the bytes the device wrote, in the order it wrote them; what the terminal received is only
  extended; and the buffer never holds more than 1 MiB.
\<close>
theorem console_stream_in_order:
  assumes "writer_ok W received"
  shows "\<exists>sb'. sb_run W evs (sb_new out allow) = Some sb'
    \<and> subseq (stream received sb') (received out @ concat (map sb_written evs))
    \<and> prefix (received out) (received (sb_out sb')) \<and> length (sb_buffer sb') \<le> MAX_BUFFER_SIZE"
proof -
  have "\<exists>sb'. sb_run W evs sb = Some sb'
    \<and> subseq (stream received sb') (stream received sb @ concat (map sb_written evs))
    \<and> prefix (received (sb_out sb)) (received (sb_out sb')) \<and> length (sb_buffer sb') \<le> MAX_BUFFER_SIZE"
    if "length (sb_buffer sb) \<le> MAX_BUFFER_SIZE" for sb
    using that
  proof (induction evs arbitrary: sb)
    case (Cons ev evs)
    obtain sb1 where 1: "sb_exec W ev sb = Some sb1" "length (sb_buffer sb1) \<le> MAX_BUFFER_SIZE"
      "subseq (stream received sb1) (stream received sb @ sb_written ev)"
      "prefix (received (sb_out sb)) (received (sb_out sb1))"
      by (rule sb_exec_stream [OF assms Cons(2)])
    obtain sb' where 2: "sb_run W evs sb1 = Some sb'"
      "subseq (stream received sb') (stream received sb1 @ concat (map sb_written evs))"
      "prefix (received (sb_out sb1)) (received (sb_out sb'))" "length (sb_buffer sb') \<le> MAX_BUFFER_SIZE"
      using Cons(1) [OF 1(2)] by blast
    have "subseq (stream received sb1 @ concat (map sb_written evs)) ((stream received sb @ sb_written ev) @ concat (map sb_written evs))"
      using 1(3) by (intro list_emb_append_mono) simp_all
    then have "subseq (stream received sb') (stream received sb @ concat (map sb_written (ev # evs)))"
      using 2(2) subseq_order.trans by fastforce
    then show ?case using 1(1,4) 2 prefix_order.trans by fastforce
  qed (auto simp: stream_def)
  from this [of "sb_new out allow"] show ?thesis by (simp add: sb_new_def stream_def)
qed

theorem console_stream_in_order_witness:
  "writer_ok slow_writer id \<and>
    (\<exists>sb'. sb_run slow_writer [SbWrite [1, 2], SbAllow True, SbWrite [3, 4, 5], SbFlush] (sb_new [] False) = Some sb'
       \<and> subseq (stream id sb') [1, 2, 3, 4, 5])"
  using slow_writer_ok
    console_stream_in_order [OF slow_writer_ok, of "[SbWrite [1, 2], SbAllow True, SbWrite [3, 4, 5], SbFlush]" "[]" False]
  by auto



end
