(* ===== verification/Serial.thy ===== *)
theory Serial
  imports SerialBuffer InterruptSource
begin

text \<open>
  \<^verbatim>\<open>devices/src/legacy/serial.rs\<close>: a 16550A serial port.  Its output is a writer (\<^verbatim>\<open>dyn io::Write\<close>),
  its interrupt line an interrupt source group with one vector; both are passed as records of
  operations with their state.
\<close>

section \<open>Model\<close>

definition LOOP_SIZE :: nat where "LOOP_SIZE = 0x40"

definition IER_RECV_BIT :: u8 where "IER_RECV_BIT = 0x1"
definition IER_THR_BIT :: u8 where "IER_THR_BIT = 0x2"
definition IER_FIFO_BITS :: u8 where "IER_FIFO_BITS = 0x0f"
definition IIR_FIFO_BITS :: u8 where "IIR_FIFO_BITS = 0xc0"
definition IIR_NONE_BIT :: u8 where "IIR_NONE_BIT = 0x1"
definition IIR_THR_BIT :: u8 where "IIR_THR_BIT = 0x2"
definition IIR_RECV_BIT :: u8 where "IIR_RECV_BIT = 0x4"
definition LCR_DLAB_BIT :: u8 where "LCR_DLAB_BIT = 0x80"
definition LSR_DATA_BIT :: u8 where "LSR_DATA_BIT = 0x1"
definition MCR_LOOP_BIT :: u8 where "MCR_LOOP_BIT = 0x10"

record serial_state =
  interrupt_enable :: u8
  interrupt_identification :: u8
  line_control :: u8
  line_status :: u8
  modem_control :: u8
  modem_status :: u8
  scratch :: u8
  baud_divisor :: u16
  in_buffer :: "u8 list"

record 'w serial = serial_state +
  ser_out :: "'w option"

datatype serial_error = SerialIo io_error | SerialIrq irq_error

definition serial_new :: "'w option \<Rightarrow> serial_state option \<Rightarrow> 'w serial" where
  "serial_new out state =
    (case state of
       Some st \<Rightarrow>
         \<lparr> interrupt_enable = interrupt_enable st, interrupt_identification = interrupt_identification st,
           line_control = line_control st, line_status = line_status st, modem_control = modem_control st,
           modem_status = modem_status st, scratch = scratch st, baud_divisor = baud_divisor st,
           in_buffer = in_buffer st, ser_out = out \<rparr>
     | None \<Rightarrow>
         \<lparr> interrupt_enable = 0, interrupt_identification = IIR_NONE_BIT,
           line_control = 0x3, line_status = 0x20 OR 0x40, modem_control = 0x8,
           modem_status = 0x20 OR 0x10 OR 0x80, scratch = 0, baud_divisor = 12,
           in_buffer = [], ser_out = out \<rparr>)"

definition serial_snapshot :: "'w serial \<Rightarrow> serial_state" where
  "serial_snapshot s =
    \<lparr> interrupt_enable = interrupt_enable s, interrupt_identification = interrupt_identification s,
      line_control = line_control s, line_status = line_status s, modem_control = modem_control s,
      modem_status = modem_status s, scratch = scratch s, baud_divisor = baud_divisor s,
      in_buffer = in_buffer s \<rparr>"

definition serial_set_out :: "'w option \<Rightarrow> 'w serial \<Rightarrow> 'w serial" where
  "serial_set_out out s = s\<lparr> ser_out := out \<rparr>"

definition is_dlab_set :: "'w serial \<Rightarrow> bool" where
  "is_dlab_set s \<longleftrightarrow> line_control s AND LCR_DLAB_BIT \<noteq> 0"

definition is_recv_intr_enabled :: "'w serial \<Rightarrow> bool" where
  "is_recv_intr_enabled s \<longleftrightarrow> interrupt_enable s AND IER_RECV_BIT \<noteq> 0"

definition is_thr_intr_enabled :: "'w serial \<Rightarrow> bool" where
  "is_thr_intr_enabled s \<longleftrightarrow> interrupt_enable s AND IER_THR_BIT \<noteq> 0"

definition is_loop :: "'w serial \<Rightarrow> bool" where
  "is_loop s \<longleftrightarrow> modem_control s AND MCR_LOOP_BIT \<noteq> 0"

definition add_intr_bit :: "u8 \<Rightarrow> 'w serial \<Rightarrow> 'w serial" where
  "add_intr_bit b s =
    s\<lparr> interrupt_identification := (interrupt_identification s AND NOT IIR_NONE_BIT) OR b \<rparr>"

definition del_intr_bit :: "u8 \<Rightarrow> 'w serial \<Rightarrow> 'w serial" where
  "del_intr_bit b s =
    (let iir = interrupt_identification s AND NOT b in
     s\<lparr> interrupt_identification := (if iir = 0 then IIR_NONE_BIT else iir) \<rparr>)"

definition iir_reset :: "'w serial \<Rightarrow> 'w serial" where
  "iir_reset s = s\<lparr> interrupt_identification := IIR_NONE_BIT \<rparr>"

definition trigger_interrupt :: "'g isg_ops \<Rightarrow> 'g \<Rightarrow> 'g irq_result" where
  "trigger_interrupt I g = isg_trigger I 0 g"

definition thr_empty ::
  "'g isg_ops \<Rightarrow> 'w serial \<Rightarrow> 'g \<Rightarrow> ((serial_error + unit) \<times> 'w serial \<times> 'g) option" where
  "thr_empty I s g =
    (if is_thr_intr_enabled s
     then let s = add_intr_bit IIR_THR_BIT s in
          map_option (\<lambda>(r, g'). (map_sum SerialIrq id r, s, g')) (trigger_interrupt I g)
     else Some (Inr (), s, g))"

definition recv_data ::
  "'g isg_ops \<Rightarrow> 'w serial \<Rightarrow> 'g \<Rightarrow> ((serial_error + unit) \<times> 'w serial \<times> 'g) option" where
  "recv_data I s g =
    (case (if is_recv_intr_enabled s
           then let s = add_intr_bit IIR_RECV_BIT s in
                map_option (\<lambda>(r, g'). (r, s, g')) (trigger_interrupt I g)
           else Some (Inr (), s, g)) of
       None \<Rightarrow> None
     | Some (Inl e, s, g') \<Rightarrow> Some (Inl (SerialIrq e), s, g')
     | Some (Inr _, s, g') \<Rightarrow> Some (Inr (), s\<lparr> line_status := line_status s OR LSR_DATA_BIT \<rparr>, g'))"

definition queue_input_bytes ::
  "'g isg_ops \<Rightarrow> u8 list \<Rightarrow> 'w serial \<Rightarrow> 'g \<Rightarrow> ((serial_error + unit) \<times> 'w serial \<times> 'g) option" where
  "queue_input_bytes I c s g =
    (if \<not> is_loop s then recv_data I (s\<lparr> in_buffer := in_buffer s @ c \<rparr>) g
     else Some (Inr (), s, g))"

definition flush_output ::
  "'w writer \<Rightarrow> 'w serial \<Rightarrow> ((serial_error + unit) \<times> 'w serial) option" where
  "flush_output W s =
    (case ser_out s of
       None \<Rightarrow> Some (Inr (), s)
     | Some w \<Rightarrow> map_option (\<lambda>(r, w'). (map_sum SerialIo id r, s\<lparr> ser_out := Some w' \<rparr>)) (w_flush W w))"

text \<open>\<^verbatim>\<open>out.write_all(&[v]).and_then(|()| out.flush())\<close>\<close>

definition put_byte :: "'w writer \<Rightarrow> u8 \<Rightarrow> 'w serial \<Rightarrow> ((io_error + unit) \<times> 'w serial) option" where
  "put_byte W v s =
    (case ser_out s of
       None \<Rightarrow> Some (Inr (), s)
     | Some w \<Rightarrow>
         (case write_all W [v] w of
            None \<Rightarrow> None
          | Some (Inl e, w') \<Rightarrow> Some (Inl e, s\<lparr> ser_out := Some w' \<rparr>)
          | Some (Inr _, w') \<Rightarrow> map_option (\<lambda>(r, w''). (r, s\<lparr> ser_out := Some w'' \<rparr>)) (w_flush W w')))"

definition handle_write ::
  "'w writer \<Rightarrow> 'g isg_ops \<Rightarrow> u8 \<Rightarrow> u8 \<Rightarrow> 'w serial \<Rightarrow> 'g
    \<Rightarrow> ((serial_error + unit) \<times> 'w serial \<times> 'g) option" where
  "handle_write W I offset v s g =
    (if offset = 0 \<and> is_dlab_set s
     then Some (Inr (), s\<lparr> baud_divisor := (baud_divisor s AND 0xff00) OR ucast v \<rparr>, g)
     else if offset = 1 \<and> is_dlab_set s
     then Some (Inr (), s\<lparr> baud_divisor := (baud_divisor s AND 0x00ff) OR push_bit 8 (ucast v) \<rparr>, g)
     else if offset = 0
     then if is_loop s
          then if length (in_buffer s) < LOOP_SIZE
               then recv_data I (s\<lparr> in_buffer := in_buffer s @ [v] \<rparr>) g
               else Some (Inr (), s, g)
          else case put_byte W v s of
                 None \<Rightarrow> None
               | Some (output_result, s1) \<Rightarrow>
                   (case thr_empty I s1 g of
                      None \<Rightarrow> None
                    | Some (interrupt_result, s2, g2) \<Rightarrow>
                        Some (case output_result of Inl e \<Rightarrow> Inl (SerialIo e) | Inr _ \<Rightarrow> interrupt_result,
                          s2, g2))
     else if offset = 1 then Some (Inr (), s\<lparr> interrupt_enable := v AND IER_FIFO_BITS \<rparr>, g)
     else if offset = 3 then Some (Inr (), s\<lparr> line_control := v \<rparr>, g)
     else if offset = 4 then Some (Inr (), s\<lparr> modem_control := v \<rparr>, g)
     else if offset = 7 then Some (Inr (), s\<lparr> scratch := v \<rparr>, g)
     else Some (Inr (), s, g))"

definition serial_read :: "u64 \<Rightarrow> u8 list \<Rightarrow> 'w serial \<Rightarrow> u8 list \<times> 'w serial" where
  "serial_read offset data s =
    (if length data \<noteq> 1 then (data, s)
     else
       let off = ucast offset :: u8 in
       if off = 0 \<and> is_dlab_set s then ([ucast (baud_divisor s)], s)
       else if off = 1 \<and> is_dlab_set s then ([ucast (drop_bit 8 (baud_divisor s))], s)
       else if off = 0
       then let s = del_intr_bit IIR_RECV_BIT s;
                s = (if length (in_buffer s) \<le> 1
                     then s\<lparr> line_status := line_status s AND NOT LSR_DATA_BIT \<rparr> else s)
            in case in_buffer s of
                 [] \<Rightarrow> ([0], s)
               | b # bs \<Rightarrow> ([b], s\<lparr> in_buffer := bs \<rparr>)
       else if off = 1 then ([interrupt_enable s], s)
       else if off = 2 then ([interrupt_identification s OR IIR_FIFO_BITS], iir_reset s)
       else if off = 3 then ([line_control s], s)
       else if off = 4 then ([modem_control s], s)
       else if off = 5 then ([line_status s], s)
       else if off = 6 then ([modem_status s], s)
       else if off = 7 then ([scratch s], s)
       else ([0], s))"

definition serial_write ::
  "'w writer \<Rightarrow> 'g isg_ops \<Rightarrow> u64 \<Rightarrow> u8 list \<Rightarrow> 'w serial \<Rightarrow> 'g \<Rightarrow> ('w serial \<times> 'g) option" where
  "serial_write W I offset data s g =
    (if length data \<noteq> 1 then Some (s, g)
     else map_option snd (handle_write W I (ucast offset) (data ! 0) s g))"

section \<open>Input\<close>

definition data_port :: "u64 \<Rightarrow> 'w serial \<Rightarrow> bool" where
  "data_port off s \<longleftrightarrow> (ucast off :: u8) = 0 \<and> \<not> is_dlab_set s"

text \<open>The interrupt line accepts interrupts.\<close>

definition line_ok :: "'g isg_ops \<Rightarrow> bool" where
  "line_ok I \<longleftrightarrow> (\<forall>g. \<exists>g'. isg_trigger I 0 g = Some (Inr (), g'))"

text \<open>Runs, with the bytes that entered the receive buffer and the bytes the guest took out of it.\<close>

inductive serial_step ::
  "'w writer \<Rightarrow> 'g isg_ops \<Rightarrow> 'w serial \<times> 'g \<times> u8 list \<times> u8 list
    \<Rightarrow> 'w serial \<times> 'g \<times> u8 list \<times> u8 list \<Rightarrow> bool" for W I where
  input: "queue_input_bytes I c s g = Some (r, s', g') \<Longrightarrow> c \<noteq> [] \<Longrightarrow>
    serial_step W I (s, g, ins, outs) (s', g', ins @ (if is_loop s then [] else c), outs)"
| read: "serial_read off [0] s = (d, s') \<Longrightarrow>
    serial_step W I (s, g, ins, outs)
      (s', g, ins, outs @ (if data_port off s \<and> in_buffer s \<noteq> [] then d else []))"
| guest_write: "serial_write W I off [v] s g = Some (s', g') \<Longrightarrow>
    serial_step W I (s, g, ins, outs)
      (s', g', ins @ (if data_port off s \<and> is_loop s \<and> length (in_buffer s) < LOOP_SIZE then [v] else []), outs)"

inductive_cases serial_stepE: "serial_step W I st (s', g', ins', outs')"

definition data_ready :: "'w serial \<Rightarrow> bool" where
  "data_ready s \<longleftrightarrow> line_status s AND LSR_DATA_BIT \<noteq> 0"

definition receive_inv :: "'w serial \<Rightarrow> u8 list \<Rightarrow> u8 list \<Rightarrow> bool" where
  "receive_inv s ins outs \<longleftrightarrow> ins = outs @ in_buffer s \<and> (data_ready s \<longleftrightarrow> in_buffer s \<noteq> [])"

lemma data_bit [simp]:
  "LSR_DATA_BIT \<noteq> 0" "(x AND NOT LSR_DATA_BIT) AND LSR_DATA_BIT = 0"
  unfolding LSR_DATA_BIT_def by (simp, rule bit_word_eqI) (auto simp: bit_simps)

lemma recv_data_ready:
  assumes "line_ok I"
  obtains s' g' where "recv_data I s g = Some (Inr (), s', g')" "in_buffer s' = in_buffer s" "data_ready s'"
    "ser_out s' = ser_out s"
proof -
  obtain g1 where "isg_trigger I 0 g = Some (Inr (), g1)" using assms by (auto simp: line_ok_def)
  then show thesis
    using that by (cases "is_recv_intr_enabled s")
      (simp_all add: recv_data_def trigger_interrupt_def add_intr_bit_def data_ready_def Let_def)
qed

lemma recv_data_inv:
  assumes "line_ok I" "receive_inv s ins outs" "c \<noteq> []"
    and "recv_data I (s\<lparr> in_buffer := in_buffer s @ c \<rparr>) g = Some (r, s', g')"
  shows "receive_inv s' (ins @ c) outs"
proof -
  obtain s1 g1 where "recv_data I (s\<lparr> in_buffer := in_buffer s @ c \<rparr>) g = Some (Inr (), s1, g1)"
    "in_buffer s1 = in_buffer s @ c" "data_ready s1"
    by (rule recv_data_ready [OF assms(1), of "s\<lparr> in_buffer := in_buffer s @ c \<rparr>" g]) simp
  then show ?thesis using assms by (simp add: receive_inv_def)
qed

lemma serial_read_inv:
  assumes "receive_inv s ins outs" "serial_read off [0] s = (d, s')"
  shows "receive_inv s' ins (outs @ (if data_port off s \<and> in_buffer s \<noteq> [] then d else []))"
proof (cases "data_port off s")
  case True
  show ?thesis
  proof (cases "in_buffer s")
    case Nil
    then show ?thesis using assms True
      by (auto simp: serial_read_def data_port_def receive_inv_def del_intr_bit_def data_ready_def Let_def)
  next
    case (Cons b bs)
    then show ?thesis using assms True
      by (cases bs) (auto simp: serial_read_def data_port_def receive_inv_def del_intr_bit_def data_ready_def Let_def)
  qed
next
  case False
  then have "in_buffer s' = in_buffer s \<and> line_status s' = line_status s"
    using assms(2) by (auto simp: serial_read_def data_port_def iir_reset_def Let_def split: if_splits)
  then show ?thesis using assms False by (simp add: receive_inv_def data_ready_def)
qed

lemma put_byte_frame:
  "put_byte W v s = Some (r, s') \<Longrightarrow> in_buffer s' = in_buffer s \<and> line_status s' = line_status s"
  by (auto simp: put_byte_def split: option.splits sum.splits)

lemma thr_empty_frame:
  "thr_empty I s g = Some (r, s', g') \<Longrightarrow> in_buffer s' = in_buffer s \<and> line_status s' = line_status s
    \<and> ser_out s' = ser_out s \<and> line_control s' = line_control s \<and> modem_control s' = modem_control s"
  by (auto simp: thr_empty_def add_intr_bit_def Let_def split: if_splits)

lemma serial_write_inv:
  assumes line: "line_ok I" and inv: "receive_inv s ins outs" and w: "serial_write W I off [v] s g = Some (s', g')"
  shows "receive_inv s' (ins @ (if data_port off s \<and> is_loop s \<and> length (in_buffer s) < LOOP_SIZE then [v] else [])) outs"
proof -
  obtain r where h: "handle_write W I (ucast off) v s g = Some (r, s', g')"
    using w by (auto simp: serial_write_def)
  show ?thesis
  proof (cases "data_port off s \<and> is_loop s \<and> length (in_buffer s) < LOOP_SIZE")
    case True
    then have "recv_data I (s\<lparr> in_buffer := in_buffer s @ [v] \<rparr>) g = Some (r, s', g')"
      using h by (simp add: handle_write_def data_port_def)
    from recv_data_inv [OF line inv _ this] True show ?thesis by simp
  next
    case False
    have "in_buffer s' = in_buffer s \<and> line_status s' = line_status s"
    proof (cases "data_port off s \<and> \<not> is_loop s")
      case True
      then obtain r1 s1 r2 where "put_byte W v s = Some (r1, s1)" "thr_empty I s1 g = Some (r2, s', g')"
        using h by (auto simp: handle_write_def data_port_def split: option.splits)
      then show ?thesis using put_byte_frame thr_empty_frame by metis
    next
      case not_out: False
      then show ?thesis using h False by (auto simp: handle_write_def data_port_def split: if_splits)
    qed
    then show ?thesis using inv False by (auto simp: receive_inv_def data_ready_def)
  qed
qed

lemma serial_step_inv:
  assumes "line_ok I" "serial_step W I st st'" "(\<lambda>(s, g, ins, outs). receive_inv s ins outs) st"
  shows "(\<lambda>(s, g, ins, outs). receive_inv s ins outs) st'"
  using assms(2,3)
proof (induction rule: serial_step.induct)
  case (input c s g r s' g' ins outs)
  then show ?case using recv_data_inv [OF assms(1)]
    by (cases "is_loop s") (auto simp: queue_input_bytes_def)
next
  case (read off s d s' g ins outs)
  then show ?case by (auto simp only: prod.case intro: serial_read_inv)
next
  case (guest_write off v s g s' g' ins outs)
  then show ?case by (auto simp only: prod.case intro: serial_write_inv [OF assms(1)])
qed

text \<open>
  C12: The receive side of the serial port is a queue, and the line status tells the truth about it.
  Start from a fresh port whose interrupt line works, and let the host send non-empty input and
  the guest read and write any registers, in loopback mode or not.  The bytes that entered the
  receive buffer are the bytes the guest has read followed by the bytes still in it, in order, and
  the data-ready bit of the line status register is set exactly when the buffer is not empty.
\<close>
theorem serial_receive_queue:
  assumes "line_ok I" and "(serial_step W I)\<^sup>*\<^sup>* (serial_new out None, g, [], []) (s, g', ins, outs)"
  shows "ins = outs @ in_buffer s \<and> (line_status s AND LSR_DATA_BIT \<noteq> 0 \<longleftrightarrow> in_buffer s \<noteq> [])"
proof -
  have "(\<lambda>(s, g, ins, outs). receive_inv s ins outs) (s, g', ins, outs)"
    using assms(2)
  proof (induction rule: rtranclp_induct)
    case base
    show ?case by (simp add: receive_inv_def serial_new_def data_ready_def LSR_DATA_BIT_def)
  next
    case (step y z)
    then show ?case using serial_step_inv [OF assms(1)] by blast
  qed
  then show ?thesis by (simp add: receive_inv_def data_ready_def)
qed

text \<open>An interrupt line that counts its interrupts.\<close>

definition counting_line :: "nat isg_ops" where
  "counting_line = \<lparr> isg_enable = isg_default_enable, isg_disable = isg_default_disable,
     isg_trigger = (\<lambda>_ g. Some (Inr (), Suc g)), isg_update = (\<lambda>_ _ _ _ g. Some (Inr (), g)),
     isg_set_gsi = (\<lambda>g. Some (Inr (), g)) \<rparr>"

lemma counting_line_ok: "line_ok counting_line"
  by (simp add: line_ok_def counting_line_def)

theorem serial_receive_queue_witness:
  "line_ok counting_line \<and>
    (\<exists>s. (serial_step slow_writer counting_line)\<^sup>*\<^sup>* (serial_new None None, 0, [], []) (s, 0, [65, 66], [65])
      \<and> [65, 66] = [65] @ in_buffer s \<and> line_status s AND LSR_DATA_BIT \<noteq> 0)"
proof -
  let ?s0 = "serial_new None None :: u8 list serial"
  let ?s1 = "?s0\<lparr> in_buffer := [65, 66], line_status := line_status ?s0 OR LSR_DATA_BIT \<rparr>"
  let ?s2 = "?s1\<lparr> in_buffer := [66] \<rparr>"
  note defs = serial_new_def is_loop_def is_recv_intr_enabled_def is_dlab_set_def MCR_LOOP_BIT_def
    IER_RECV_BIT_def LCR_DLAB_BIT_def
  have "queue_input_bytes counting_line [65, 66] ?s0 0 = Some (Inr (), ?s1, 0)"
    by (simp add: queue_input_bytes_def recv_data_def defs)
  then have 1: "serial_step slow_writer counting_line (?s0, 0, [], []) (?s1, 0, [65, 66], [])"
    using serial_step.input [of counting_line "[65, 66]" ?s0 0 "Inr ()" ?s1 0 slow_writer "[]" "[]"]
    by (simp add: defs)
  have "serial_read 0 [0] ?s1 = ([65], ?s2)"
    by (simp add: serial_read_def del_intr_bit_def IIR_RECV_BIT_def IIR_NONE_BIT_def defs Let_def)
  then have 2: "serial_step slow_writer counting_line (?s1, 0, [65, 66], []) (?s2, 0, [65, 66], [65])"
    using serial_step.read [of 0 ?s1 "[65]" ?s2 slow_writer counting_line 0 "[65, 66]" "[]"]
    by (simp add: data_port_def defs)
  have run: "(serial_step slow_writer counting_line)\<^sup>*\<^sup>* (?s0, 0, [], []) (?s2, 0, [65, 66], [65])"
    using 1 2 by (meson rtranclp.rtrancl_refl rtranclp.rtrancl_into_rtrancl)
  show ?thesis
    using serial_receive_queue [OF counting_line_ok run] run counting_line_ok by auto
qed

text \<open>With a failing interrupt line the data-ready bit stays as it was, although the byte is queued.\<close>

lemma failed_interrupt_hides_input:
  assumes "isg_trigger I 0 g = Some (Inl e, g')" "is_recv_intr_enabled s" "\<not> is_loop s"
  shows "\<exists>s'. queue_input_bytes I c s g = Some (Inl (SerialIrq e), s', g')
    \<and> in_buffer s' = in_buffer s @ c \<and> line_status s' = line_status s"
  using assms by (simp add: queue_input_bytes_def recv_data_def is_recv_intr_enabled_def trigger_interrupt_def
      add_intr_bit_def Let_def)

section \<open>Output\<close>

text \<open>The guest writes a register, or the thread that watches the console changes the \<open>write_out\<close> flag of the
  serial buffer behind the port.  A run also collects the bytes the guest sent.\<close>

datatype console_event = GuestWrite u64 u8 | Allow bool

fun console_run ::
  "'w writer \<Rightarrow> 'g isg_ops \<Rightarrow> console_event list \<Rightarrow> 'w serial_buffer serial \<Rightarrow> 'g
    \<Rightarrow> ('w serial_buffer serial \<times> 'g \<times> u8 list) option" where
  "console_run W I [] s g = Some (s, g, [])"
| "console_run W I (Allow b # evs) s g =
    console_run W I evs (s\<lparr> ser_out := map_option (\<lambda>sb. sb\<lparr> sb_write_out := b \<rparr>) (ser_out s) \<rparr>) g"
| "console_run W I (GuestWrite off v # evs) s g =
    (case serial_write (sb_writer W) I off [v] s g of
       None \<Rightarrow> None
     | Some (s', g') \<Rightarrow>
         map_option (\<lambda>(s'', g'', sent). (s'', g'', (if data_port off s \<and> \<not> is_loop s then [v] else []) @ sent))
           (console_run W I evs s' g'))"

text \<open>One byte through the buffer.\<close>

definition sends :: "'w writer \<Rightarrow> ('w \<Rightarrow> u8 list) \<Rightarrow> u8 list \<Rightarrow> 'w serial_buffer \<Rightarrow> 'w serial_buffer \<Rightarrow> bool" where
  "sends W received bs sb sb' \<longleftrightarrow>
    length (sb_buffer sb') \<le> MAX_BUFFER_SIZE \<and> prefix (received (sb_out sb)) (received (sb_out sb'))
    \<and> subseq (stream received sb') (stream received sb @ bs)
    \<and> (only_blocks W \<and> length (sb_buffer sb) + length bs \<le> MAX_BUFFER_SIZE
       \<longrightarrow> stream received sb' = stream received sb @ bs)"

lemma put_byte_sends:
  assumes "writer_ok W received" "ser_out s = Some sb" "length (sb_buffer sb) \<le> MAX_BUFFER_SIZE"
  obtains r sb' where "put_byte (sb_writer W) v s = Some (r, s\<lparr> ser_out := Some sb' \<rparr>)" "sends W received [v] sb sb'"
proof -
  obtain r sb1 where w: "sb_write W [v] sb = Some (r, sb1)" "\<And>n. r = Inr n \<Longrightarrow> n = 1" "r \<noteq> Inl Interrupted"
    by (rule sb_write_delivers [OF assms(1,3), of "[v]"]) simp
  note st = sb_write_stream [OF assms(1,3) w(1)]
  have sends1: "sends W received [v] sb sb1"
    using st w(1) only_blocks_write [of W "[v]" sb] by (cases r) (auto simp: sends_def)
  show thesis
  proof (cases r)
    case (Inl e)
    then show thesis using assms(2) w sends1
      by (intro that [of "Inl e" sb1]) (simp_all add: put_byte_def write_all.simps sb_writer_def)
  next
    case (Inr n)
    obtain rf sb2 where f: "sb_flush W sb1 = Some (rf, sb2)" "stream received sb2 = stream received sb1"
      "length (sb_buffer sb2) \<le> length (sb_buffer sb1)" "prefix (received (sb_out sb1)) (received (sb_out sb2))"
      by (rule sb_flush_stream [OF assms(1)])
    have "sends W received [v] sb sb2"
      using sends1 f by (auto simp: sends_def intro: prefix_order.trans)
    then show thesis using assms(2) w Inr f(1)
      by (intro that [of rf sb2]) (simp_all add: put_byte_def write_all.simps sb_writer_def)
  qed
qed

lemma sends_refl [simp]: "length (sb_buffer sb) \<le> MAX_BUFFER_SIZE \<Longrightarrow> sends W received [] sb sb"
  by (simp add: sends_def)

lemma sends_trans:
  assumes 1: "sends W received bs sb sb1" and 2: "sends W received bs' sb1 sb2"
  shows "sends W received (bs @ bs') sb sb2"
proof -
  have "subseq (stream received sb1 @ bs') ((stream received sb @ bs) @ bs')"
    using 1 by (intro list_emb_append_mono) (simp_all add: sends_def)
  then have sub: "subseq (stream received sb2) (stream received sb @ bs @ bs')"
    using 2 subseq_order.trans unfolding sends_def by fastforce
  have "stream received sb2 = stream received sb @ bs @ bs'"
    if lossless: "only_blocks W" "length (sb_buffer sb) + length (bs @ bs') \<le> MAX_BUFFER_SIZE"
  proof -
    have s1: "stream received sb1 = stream received sb @ bs" using 1 lossless by (simp add: sends_def)
    then have "length (received (sb_out sb1)) + length (sb_buffer sb1) =
        length (received (sb_out sb)) + length (sb_buffer sb) + length bs"
      unfolding stream_def by (metis append.assoc length_append add.assoc)
    moreover have "length (received (sb_out sb)) \<le> length (received (sb_out sb1))"
      using 1 by (simp add: sends_def prefix_length_le)
    ultimately have "length (sb_buffer sb1) + length bs' \<le> MAX_BUFFER_SIZE" using lossless(2) by simp
    then show ?thesis using 2 lossless(1) s1 by (simp add: sends_def)
  qed
  then show ?thesis using 1 2 sub prefix_order.trans unfolding sends_def by blast
qed

lemma thr_empty_ok:
  assumes "line_ok I"
  obtains r s' g' where "thr_empty I s g = Some (r, s', g')" "ser_out s' = ser_out s"
proof -
  obtain g1 where "isg_trigger I 0 g = Some (Inr (), g1)" using assms by (auto simp: line_ok_def)
  then show thesis
    using that by (cases "is_thr_intr_enabled s")
      (simp_all add: thr_empty_def trigger_interrupt_def add_intr_bit_def Let_def)
qed

lemma serial_write_sends:
  assumes ok: "writer_ok W received" "line_ok I" and sb: "ser_out s = Some sb" "length (sb_buffer sb) \<le> MAX_BUFFER_SIZE"
  obtains s' g' sb' where "serial_write (sb_writer W) I off [v] s g = Some (s', g')" "ser_out s' = Some sb'"
    "sends W received (if data_port off s \<and> \<not> is_loop s then [v] else []) sb sb'"
proof (cases "data_port off s")
  case port: True
  show thesis
  proof (cases "is_loop s")
    case True
    obtain s1 g1 where "recv_data I (s\<lparr> in_buffer := in_buffer s @ [v] \<rparr>) g = Some (Inr (), s1, g1)"
      "ser_out s1 = ser_out s"
      by (rule recv_data_ready [OF ok(2), of "s\<lparr> in_buffer := in_buffer s @ [v] \<rparr>" g]) simp
    then show thesis using that port True sb
      by (cases "length (in_buffer s) < LOOP_SIZE") (simp_all add: serial_write_def handle_write_def data_port_def)
  next
    case False
    obtain r sb' where p: "put_byte (sb_writer W) v s = Some (r, s\<lparr> ser_out := Some sb' \<rparr>)" "sends W received [v] sb sb'"
      by (rule put_byte_sends [OF ok(1) sb])
    obtain q s' g' where "thr_empty I (s\<lparr> ser_out := Some sb' \<rparr>) g = Some (q, s', g')" "ser_out s' = Some sb'"
      using thr_empty_ok [OF ok(2), of "s\<lparr> ser_out := Some sb' \<rparr>" g] by auto
    then show thesis using that p port False
      by (simp add: serial_write_def handle_write_def data_port_def)
  qed
next
  case False
  then have "\<exists>s'. serial_write (sb_writer W) I off [v] s g = Some (s', g) \<and> ser_out s' = Some sb"
    using sb(1) by (auto simp: serial_write_def handle_write_def data_port_def)
  then show thesis using that False sb(2) by auto
qed

lemma console_run_sends:
  assumes ok: "writer_ok W received" "line_ok I" and sb: "ser_out s = Some sb" "length (sb_buffer sb) \<le> MAX_BUFFER_SIZE"
  shows "\<exists>s' g' sent sb'. console_run W I evs s g = Some (s', g', sent) \<and> ser_out s' = Some sb'
    \<and> sends W received sent sb sb'"
  using sb
proof (induction evs arbitrary: s g sb)
  case (Cons ev evs)
  show ?case
  proof (cases ev)
    case (GuestWrite off v)
    let ?bs = "if data_port off s \<and> \<not> is_loop s then [v] else []"
    obtain s1 g1 sb1 where w: "serial_write (sb_writer W) I off [v] s g = Some (s1, g1)" "ser_out s1 = Some sb1"
      "sends W received ?bs sb sb1"
      by (rule serial_write_sends [OF ok Cons.prems])
    moreover have "length (sb_buffer sb1) \<le> MAX_BUFFER_SIZE" using w(3) by (simp add: sends_def)
    ultimately obtain s' g' sent sb' where "console_run W I evs s1 g1 = Some (s', g', sent)" "ser_out s' = Some sb'"
      "sends W received sent sb1 sb'"
      using Cons.IH by blast
    then show ?thesis using w(1) sends_trans [OF w(3)] GuestWrite by auto
  next
    case (Allow b)
    let ?sb = "sb\<lparr> sb_write_out := b \<rparr>"
    have "sends W received sent ?sb sb' = sends W received sent sb sb'" for sent sb'
      by (simp add: sends_def stream_def)
    then show ?thesis
      using Cons.IH [of "s\<lparr> ser_out := Some ?sb \<rparr>" ?sb g] Cons.prems Allow by simp
  qed
qed auto



end
