(* ===== verification/TxBuf.thy ===== *)
theory TxBuf
  imports Writer
begin

text \<open>
  \<^verbatim>\<open>virtio-devices/src/vsock/csm/txbuf.rs\<close>: the ring buffer that holds what a guest sent over a vsock
  connection until the host socket takes it.  The sink of a flush is a writer, as in
  \<^verbatim>\<open>Writer\<close>; a copy source is a function from the offset and the old contents of the destination
  slice to the outcome and the new contents.
\<close>

section \<open>Model\<close>

datatype csm_error = TxBufFull | TxBufFlush io_error | StreamWrite io_error | PktBufRead

definition CONN_TX_BUF_SIZE :: u32 where
  "CONN_TX_BUF_SIZE = 64 * 1024"

definition TX_BUF_SIZE :: nat where
  "TX_BUF_SIZE = unat CONN_TX_BUF_SIZE"

record txbuf =
  tb_data :: "u8 list option"
  tb_head :: u32
  tb_tail :: u32

type_synonym tx_source = "nat \<Rightarrow> u8 list \<Rightarrow> (csm_error + unit) \<times> u8 list"

definition slice_copy_to_tx_buf :: "u8 list \<Rightarrow> tx_source" where
  "slice_copy_to_tx_buf src offset dst =
    (if 2 ^ 64 \<le> offset + length dst \<or> length src < offset + length dst then (Inl PktBufRead, dst)
     else (Inr (), take (length dst) (drop offset src)))"

definition txbuf_new :: txbuf where
  "txbuf_new = \<lparr> tb_data = None, tb_head = 0, tb_tail = 0 \<rparr>"

definition txbuf_len :: "txbuf \<Rightarrow> nat" where
  "txbuf_len tb = unat (tb_head tb - tb_tail tb)"

definition txbuf_is_empty :: "txbuf \<Rightarrow> bool" where
  "txbuf_is_empty tb \<longleftrightarrow> txbuf_len tb = 0"

definition push_from :: "tx_source \<Rightarrow> nat \<Rightarrow> nat \<Rightarrow> txbuf \<Rightarrow> (csm_error + unit) \<times> txbuf" where
  "push_from src offset len tb =
    (if TX_BUF_SIZE < txbuf_len tb + len then (Inl TxBufFull, tb)
     else if len = 0 then (Inr (), tb)
     else
       let data = (case tb_data tb of None \<Rightarrow> replicate TX_BUF_SIZE 0 | Some d \<Rightarrow> d);
           head_ofs = unat (tb_head tb) mod TX_BUF_SIZE;
           first_len = min (TX_BUF_SIZE - head_ofs) len;
           (r1, s1) = src offset (take first_len (drop head_ofs data));
           data = splice data head_ofs s1
       in case r1 of
            Inl e \<Rightarrow> (Inl e, tb\<lparr> tb_data := Some data \<rparr>)
          | Inr _ \<Rightarrow>
              if first_len < len
              then if 2 ^ 64 \<le> offset + first_len then (Inl PktBufRead, tb\<lparr> tb_data := Some data \<rparr>)
                   else
                     let (r2, s2) = src (offset + first_len) (take (len - first_len) data);
                         data = splice data 0 s2
                     in case r2 of
                          Inl e \<Rightarrow> (Inl e, tb\<lparr> tb_data := Some data \<rparr>)
                        | Inr _ \<Rightarrow> (Inr (), tb\<lparr> tb_data := Some data, tb_head := tb_head tb + of_nat len \<rparr>)
              else (Inr (), tb\<lparr> tb_data := Some data, tb_head := tb_head tb + of_nat len \<rparr>))"

text \<open>\<open>None\<close> is the panic of \<open>unwrap\<close> or a recursion without end.\<close>

partial_function (option) flush_to ::
  "'w writer \<Rightarrow> txbuf \<Rightarrow> 'w \<Rightarrow> ((csm_error + nat) \<times> txbuf \<times> 'w) option" where
  "flush_to W tb w =
    (if txbuf_is_empty tb then Some (Inr 0, tb, w)
     else
       let tail_ofs = unat (tb_tail tb) mod TX_BUF_SIZE;
           len_to_write = min (TX_BUF_SIZE - tail_ofs) (txbuf_len tb)
       in case tb_data tb of
            None \<Rightarrow> None
          | Some data \<Rightarrow>
              (case w_write W (take len_to_write (drop tail_ofs data)) w of
                 None \<Rightarrow> None
               | Some (Inl e, w') \<Rightarrow> Some (Inl (TxBufFlush e), tb, w')
               | Some (Inr written, w') \<Rightarrow>
                   let tb' = tb\<lparr> tb_tail := tb_tail tb + of_nat written \<rparr> in
                   if written < len_to_write then Some (Inr written, tb', w')
                   else Option.bind (flush_to W tb' w')
                          (\<lambda>(r, tb'', w''). Some (Inr (written + (case r of Inl _ \<Rightarrow> 0 | Inr n \<Rightarrow> n)), tb'', w''))))"

section \<open>Rings\<close>

text \<open>The \<open>n\<close> elements from position \<open>t\<close> on.\<close>

definition ring :: "'a list \<Rightarrow> nat \<Rightarrow> nat \<Rightarrow> 'a list" where
  "ring d t n = map (\<lambda>i. d ! ((t + i) mod length d)) [0..<n]"

lemma length_ring [simp]: "length (ring d t n) = n"
  by (simp add: ring_def)

lemma mod_wrap: "t < S \<Longrightarrow> i \<le> S \<Longrightarrow> (t + i) mod S = (if t + i < S then t + i else t + i - S)" for t i S :: nat
  by (auto simp: mod_if)

lemma ring_mod [simp]: "ring d (t mod length d) n = ring d t n"
  by (simp add: ring_def mod_add_left_eq)

lemma ring_add: "ring d t (m + n) = ring d t m @ ring d (t + m) n"
proof -
  have "map (\<lambda>i. d ! ((t + i) mod length d)) [m..<m + n] = map (\<lambda>i. d ! ((t + m + i) mod length d)) [0..<n]"
    by (rule nth_equalityI) (simp_all add: add.assoc)
  then show ?thesis by (simp add: ring_def upt_add_eq_append [of 0])
qed

lemma ring_linear: "t + n \<le> length d \<Longrightarrow> ring d t n = take n (drop t d)"
  by (rule nth_equalityI) (simp_all add: ring_def)

lemma ring_splice_other:
  assumes "p + length bs \<le> length d" "d \<noteq> []" "\<And>i. i < n \<Longrightarrow> (t + i) mod length d \<notin> {p..<p + length bs}"
  shows "ring (splice d p bs) t n = ring d t n"
proof (rule nth_equalityI)
  fix i assume "i < length (ring (splice d p bs) t n)"
  then have i: "i < n" by simp
  have "(t + i) mod length d < length d" using assms(2) by simp
  then show "ring (splice d p bs) t n ! i = ring d t n ! i"
    using assms(1) assms(3) [OF i] i by (auto simp: ring_def nth_splice)
qed simp

lemma ring_splice_same:
  "p + length bs \<le> length d \<Longrightarrow> ring (splice d p bs) p (length bs) = bs"
  by (simp add: ring_linear) (simp add: splice_def)

lemma wrap_before:
  fixes t S i n len h m :: nat
  assumes "t < S" "i < n" "n + len \<le> S" "h = (if t + n < S then t + n else t + n - S)" "m \<le> len"
  shows "(if t + i < S then t + i else t + i - S) \<notin> {h..<h + m}"
  using assms by (cases "t + n < S"; cases "t + i < S") auto

lemma wrap_start:
  fixes t S i n len h :: nat
  assumes "t < S" "i < n" "n + len \<le> S" "h = (if t + n < S then t + n else t + n - S)"
  shows "len - min (S - h) len \<le> (if t + i < S then t + i else t + i - S)"
  using assms by (cases "t + n < S"; cases "t + i < S") auto

text \<open>Storing \<open>s1 @ s2\<close> after \<open>n\<close> elements, \<open>s1\<close> up to the end of the array and \<open>s2\<close> from its start.\<close>

lemma ring_push:
  assumes d: "length d = S" "0 < S" and t: "t < S" "n + len \<le> S" "h = (t + n) mod S"
    and f: "first = min (S - h) len" "length s1 = first" "length s2 = len - first"
  defines "d1 \<equiv> splice d h s1" and "d2 \<equiv> splice (splice d h s1) 0 s2"
  shows "length d1 = S" "length d2 = S" "ring d1 t n = ring d t n" "ring d2 t n = ring d t n"
    "ring d2 t (n + len) = ring d t n @ s1 @ s2"
proof -
  have h: "h < S" "h = (if t + n < S then t + n else t + n - S)" using d t by (auto simp: mod_wrap)
  show l1: "length d1 = S" using d f h(1) by (simp add: d1_def)
  have s2: "length s2 \<le> h" "0 < length s2 \<Longrightarrow> h + first = S" using f h t(1,2) by (auto simp: min_def split: if_splits)
  show l2: "length d2 = S" using l1 s2(1) h(1) unfolding d2_def d1_def [symmetric] by simp
  have "d \<noteq> []" "d1 \<noteq> []" using d l1 by auto
  have old: "(t + i) mod S \<notin> {h..<h + length s1}" "(t + i) mod S \<notin> {0..<0 + length s2}" if "i < n" for i
    using wrap_before [OF t(1) that t(2) h(2), of "length s1"] wrap_start [OF t(1) that t(2) h(2)] f h(1)
      mod_wrap [OF t(1), of i] that t(2) by (simp_all only: atLeastLessThan_iff not_less) simp_all
  have new: "(h + i) mod S \<notin> {0..<0 + length s2}" if "i < length s1" for i
  proof -
    have "i < S - h" using that f(1,2) by simp
    then have "h + i < S" by simp
    then show ?thesis using s2(1) by simp
  qed
  show r1: "ring d1 t n = ring d t n"
    unfolding d1_def using d f h(1) old(1) \<open>d \<noteq> []\<close> by (intro ring_splice_other) auto
  have "ring d2 t n = ring d1 t n"
    unfolding d2_def d1_def [symmetric] using l1 s2(1) h(1) old(2) \<open>d1 \<noteq> []\<close> by (intro ring_splice_other) auto
  with r1 show r2: "ring d2 t n = ring d t n" by simp
  have "ring d2 h (length s1) = ring d1 h (length s1)"
    unfolding d2_def d1_def [symmetric] using l1 s2(1) h(1) new \<open>d1 \<noteq> []\<close> by (intro ring_splice_other) auto
  also have "ring d1 h (length s1) = s1"
    unfolding d1_def using d f h(1) by (intro ring_splice_same) simp
  finally have a: "ring d2 h (length s1) = s1" .
  have b: "ring d2 (h + length s1) (length s2) = s2"
  proof (cases "s2 = []")
    case False
    then have "ring d2 (h + length s1) (length s2) = ring d2 0 (length s2)"
      using s2(2) f(2) l2 ring_mod [of d2 "h + length s1" "length s2"] by simp
    then show ?thesis
      using ring_splice_same [of 0 s2 d1] l1 s2(1) h(1) unfolding d2_def d1_def [symmetric] by simp
  qed (simp add: ring_def)
  have "ring d2 t (n + len) = ring d2 t n @ ring d2 h len"
    using ring_mod [of d2 "t + n" len] l2 t(3) by (simp add: ring_add)
  also have "ring d2 h len = s1 @ s2"
    using ring_add [of d2 h "length s1" "length s2"] a b f by (simp add: min_def)
  finally show "ring d2 t (n + len) = ring d t n @ s1 @ s2" using r2 by simp
qed

section \<open>The buffer is a bounded queue\<close>

lemma TX_BUF_SIZE_eq: "TX_BUF_SIZE = 65536"
  by (simp add: TX_BUF_SIZE_def CONN_TX_BUF_SIZE_def)

definition txbuf_wf :: "txbuf \<Rightarrow> bool" where
  "txbuf_wf tb \<longleftrightarrow> txbuf_len tb \<le> TX_BUF_SIZE
    \<and> (case tb_data tb of None \<Rightarrow> txbuf_len tb = 0 | Some d \<Rightarrow> length d = TX_BUF_SIZE)"

definition contents :: "txbuf \<Rightarrow> u8 list" where
  "contents tb = (case tb_data tb of None \<Rightarrow> [] | Some d \<Rightarrow> ring d (unat (tb_tail tb)) (txbuf_len tb))"

lemma txbuf_new_wf [simp]: "txbuf_wf txbuf_new" "contents txbuf_new = []"
  by (simp_all add: txbuf_wf_def txbuf_new_def txbuf_len_def contents_def)

lemma length_contents [simp]: "txbuf_wf tb \<Longrightarrow> length (contents tb) = txbuf_len tb"
  by (auto simp: contents_def txbuf_wf_def split: option.splits)

lemma txbuf_is_empty_contents: "txbuf_wf tb \<Longrightarrow> txbuf_is_empty tb \<longleftrightarrow> contents tb = []"
  by (metis txbuf_is_empty_def length_contents length_0_conv)

lemma unat_add_mod: "unat (a + of_nat n) mod TX_BUF_SIZE = (unat a + n) mod TX_BUF_SIZE" for a :: u32
proof -
  have "unat (a + of_nat n) = (unat a + n) mod 4294967296"
    by (simp add: unat_word_ariths unat_of_nat mod_simps)
  then show ?thesis by (simp add: TX_BUF_SIZE_eq mod_mod_cancel)
qed

lemma head_ofs: "unat (tb_head tb) mod TX_BUF_SIZE = (unat (tb_tail tb) mod TX_BUF_SIZE + txbuf_len tb) mod TX_BUF_SIZE"
  using unat_add_mod [of "tb_tail tb" "txbuf_len tb"] by (simp add: txbuf_len_def mod_simps)

text \<open>The bytes a copy source offers.\<close>

definition source_ok :: "tx_source \<Rightarrow> u8 list \<Rightarrow> bool" where
  "source_ok src bytes \<longleftrightarrow> length bytes < 2 ^ 64 \<and>
    (\<forall>off dst. length (snd (src off dst)) = length dst
      \<and> (if off + length dst \<le> length bytes then src off dst = (Inr (), take (length dst) (drop off bytes))
         else fst (src off dst) \<noteq> Inr ()))"

lemma slice_source_ok: "length bytes < 2 ^ 64 \<Longrightarrow> source_ok (slice_copy_to_tx_buf bytes) bytes"
  by (auto simp: source_ok_def slice_copy_to_tx_buf_def)

lemma source_okD:
  assumes "source_ok src bytes" "length dst = n"
  obtains (ok) s where "src off dst = (Inr (), s)" "off + n \<le> length bytes" "s = take n (drop off bytes)" "length s = n"
  | (err) e s where "src off dst = (Inl e, s)" "length bytes < off + n" "length s = n"
proof (cases "off + n \<le> length bytes")
  case True
  then show thesis using assms ok unfolding source_ok_def by auto
next
  case False
  then have "fst (src off dst) \<noteq> Inr ()" "length (snd (src off dst)) = n"
    using assms unfolding source_ok_def by auto
  then show thesis using False err by (cases "src off dst"; cases "fst (src off dst)") auto
qed

lemma set_data_contents:
  assumes "txbuf_wf tb" "length d = TX_BUF_SIZE"
  shows "txbuf_wf (tb\<lparr> tb_data := Some d \<rparr>)"
    "contents (tb\<lparr> tb_data := Some d \<rparr>) = ring d (unat (tb_tail tb) mod TX_BUF_SIZE) (txbuf_len tb)"
  using assms ring_mod [of d "unat (tb_tail tb)"] by (simp_all add: txbuf_wf_def contents_def txbuf_len_def)

lemma advance_contents:
  assumes "txbuf_wf tb" "length d = TX_BUF_SIZE" "txbuf_len tb + len \<le> TX_BUF_SIZE"
  shows "txbuf_wf (tb\<lparr> tb_data := Some d, tb_head := tb_head tb + of_nat len \<rparr>)"
    "contents (tb\<lparr> tb_data := Some d, tb_head := tb_head tb + of_nat len \<rparr>) =
      ring d (unat (tb_tail tb) mod TX_BUF_SIZE) (txbuf_len tb + len)"
proof -
  have "unat (tb_head tb + of_nat len - tb_tail tb) = unat ((tb_head tb - tb_tail tb) + of_nat len)"
    by (simp add: algebra_simps)
  also have "\<dots> = txbuf_len tb + len"
    using assms(3) by (subst unat_add_exact) (simp_all add: txbuf_len_def unat_of_nat TX_BUF_SIZE_eq)
  finally have "txbuf_len (tb\<lparr> tb_data := Some d, tb_head := tb_head tb + of_nat len \<rparr>) = txbuf_len tb + len"
    by (simp add: txbuf_len_def)
  then show "txbuf_wf (tb\<lparr> tb_data := Some d, tb_head := tb_head tb + of_nat len \<rparr>)"
    "contents (tb\<lparr> tb_data := Some d, tb_head := tb_head tb + of_nat len \<rparr>) =
      ring d (unat (tb_tail tb) mod TX_BUF_SIZE) (txbuf_len tb + len)"
    using assms(2,3) ring_mod [of d "unat (tb_tail tb)"] by (simp_all add: txbuf_wf_def contents_def)
qed

text \<open>The two copies of a push: from \<open>head\<close> to the end of the array, and from its start.\<close>

lemma push_copies:
  assumes src: "source_ok src bytes" and d: "length d = TX_BUF_SIZE" and h: "h < TX_BUF_SIZE" "len \<le> TX_BUF_SIZE"
    and first: "first = min (TX_BUF_SIZE - h) len"
  obtains (first_fails) e s1 where "src off (take first (drop h d)) = (Inl e, s1)" "length s1 = first"
      "length bytes < off + len"
  | (second_fails) e s1 s2 where "src off (take first (drop h d)) = (Inr (), s1)" "length s1 = first"
      "first < len" "off + first < 2 ^ 64" "src (off + first) (take (len - first) (splice d h s1)) = (Inl e, s2)"
      "length s2 = len - first" "length bytes < off + len"
  | (one) s1 where "src off (take first (drop h d)) = (Inr (), s1)" "length s1 = first" "first = len"
      "s1 = take len (drop off bytes)" "off + len \<le> length bytes"
  | (two) s1 s2 where "src off (take first (drop h d)) = (Inr (), s1)" "length s1 = first"
      "first < len" "off + first < 2 ^ 64" "src (off + first) (take (len - first) (splice d h s1)) = (Inr (), s2)"
      "length s2 = len - first" "s1 @ s2 = take len (drop off bytes)" "off + len \<le> length bytes"
proof -
  have "length (take first (drop h d)) = first" "first \<le> len" using d h first by simp_all
  with src show thesis
  proof (cases rule: source_okD [where off = off and dst = "take first (drop h d)" and n = first])
    case (err e s1)
    then show thesis using first_fails \<open>first \<le> len\<close> by simp
  next
    case (ok s1)
    show thesis
    proof (cases "first < len")
      case False
      then show thesis using one ok \<open>first \<le> len\<close> by simp
    next
      case True
      have small: "off + first < 2 ^ 64" using ok(2) src by (simp add: source_ok_def)
      have "length (take (len - first) (splice d h s1)) = len - first" using d ok(4) h first by simp
      with src show thesis
      proof (cases rule: source_okD [where off = "off + first" and dst = "take (len - first) (splice d h s1)" and n = "len - first"])
        case (err e s2)
        then show thesis using second_fails [OF ok(1,4) True small] \<open>first \<le> len\<close> by simp
      next
        case s2: (ok s2)
        have "s1 @ s2 = take len (drop off bytes)"
          using s2(3) ok(3) True take_add [of first "len - first" "drop off bytes"] by (simp add: add.commute)
        then show thesis using two [OF ok(1,4) True small s2(1,4)] s2(2) \<open>first \<le> len\<close> by simp
      qed
    qed
  qed
qed

lemma push_from_ok:
  assumes wf: "txbuf_wf tb" and src: "source_ok src bytes" and room: "txbuf_len tb + len \<le> TX_BUF_SIZE" "0 < len"
  obtains r tb' where "push_from src off len tb = (r, tb')" "txbuf_wf tb'"
    "if off + len \<le> length bytes then r = Inr () \<and> contents tb' = contents tb @ take len (drop off bytes)
     else (\<exists>e. r = Inl e) \<and> contents tb' = contents tb"
proof -
  define d where "d = (case tb_data tb of None \<Rightarrow> replicate TX_BUF_SIZE 0 | Some d \<Rightarrow> d)"
  define h where "h = unat (tb_head tb) mod TX_BUF_SIZE"
  define t where "t = unat (tb_tail tb) mod TX_BUF_SIZE"
  define first where "first = min (TX_BUF_SIZE - h) len"
  have d: "length d = TX_BUF_SIZE" "0 < TX_BUF_SIZE"
    using wf by (auto simp: d_def txbuf_wf_def TX_BUF_SIZE_eq split: option.splits)
  have t: "t < TX_BUF_SIZE" "h = (t + txbuf_len tb) mod TX_BUF_SIZE" "h < TX_BUF_SIZE"
    using d(2) head_ofs [of tb] by (simp_all add: t_def h_def)
  have old: "contents tb = ring d t (txbuf_len tb)"
    using wf d(1) ring_mod [of d "unat (tb_tail tb)"]
    by (auto simp: contents_def d_def t_def ring_def txbuf_wf_def split: option.splits)
  note push = ring_push [OF d t(1) room(1) t(2) first_def]
  note keep = set_data_contents [OF wf, folded t_def] and advance = advance_contents [OF wf _ room(1), folded t_def]
  note unfold = push_from_def d_def [symmetric] h_def [symmetric] first_def [symmetric] Let_def
  have "len \<le> TX_BUF_SIZE" using room(1) by simp
  from src d(1) t(3) this first_def show thesis
  proof (cases rule: push_copies [where off = off])
    case (first_fails e s1)
    then show thesis
      using that [of "Inl e" "tb\<lparr> tb_data := Some (splice d h s1) \<rparr>"] room
        push(1,3) [of s1 "replicate (len - first) 0"] keep old by (simp add: unfold)
  next
    case (second_fails e s1 s2)
    then show thesis
      using that [of "Inl e" "tb\<lparr> tb_data := Some (splice (splice d h s1) 0 s2) \<rparr>"] room
        push(2,4) [of s1 s2] keep old by (simp add: unfold)
  next
    case (one s1)
    then show thesis
      using that [of "Inr ()" "tb\<lparr> tb_data := Some (splice d h s1), tb_head := tb_head tb + of_nat len \<rparr>"] room
        push(2,5) [of s1 "[]"] advance old by (simp add: unfold)
  next
    case (two s1 s2)
    then show thesis
      using that [of "Inr ()" "tb\<lparr> tb_data := Some (splice (splice d h s1) 0 s2), tb_head := tb_head tb + of_nat len \<rparr>"]
        room push(2,5) [of s1 s2] advance old by (simp add: unfold)
  qed
qed

lemma push_from_full:
  "TX_BUF_SIZE < txbuf_len tb + len \<Longrightarrow> push_from src off len tb = (Inl TxBufFull, tb)"
  "txbuf_len tb \<le> TX_BUF_SIZE \<Longrightarrow> push_from src off 0 tb = (Inr (), tb)"
  by (simp_all add: push_from_def)

lemma flush_advance:
  assumes "txbuf_wf tb" "n \<le> txbuf_len tb"
  shows "txbuf_wf (tb\<lparr> tb_tail := tb_tail tb + of_nat n \<rparr>)"
    "contents (tb\<lparr> tb_tail := tb_tail tb + of_nat n \<rparr>) = drop n (contents tb)"
    "txbuf_len (tb\<lparr> tb_tail := tb_tail tb + of_nat n \<rparr>) = txbuf_len tb - n"
proof -
  have "n < 2 ^ 32" using assms by (simp add: txbuf_wf_def TX_BUF_SIZE_eq)
  then have n: "unat (of_nat n :: u32) = n" by (simp add: unat_of_nat)
  have "tb_head tb - (tb_tail tb + of_nat n) = (tb_head tb - tb_tail tb) - of_nat n" by simp
  also have "unat \<dots> = txbuf_len tb - n"
    using assms(2) n by (subst unat_sub) (simp_all add: word_le_nat_alt txbuf_len_def)
  finally show len: "txbuf_len (tb\<lparr> tb_tail := tb_tail tb + of_nat n \<rparr>) = txbuf_len tb - n"
    by (simp add: txbuf_len_def)
  show "txbuf_wf (tb\<lparr> tb_tail := tb_tail tb + of_nat n \<rparr>)"
    using assms len by (auto simp: txbuf_wf_def split: option.splits)
  show "contents (tb\<lparr> tb_tail := tb_tail tb + of_nat n \<rparr>) = drop n (contents tb)"
  proof (cases "tb_data tb")
    case (Some d)
    then have "length d = TX_BUF_SIZE" using assms(1) by (simp add: txbuf_wf_def)
    then have "ring d (unat (tb_tail tb + of_nat n)) k = ring d (unat (tb_tail tb) + n) k" for k
      using ring_mod [of d "unat (tb_tail tb + of_nat n)" k] ring_mod [of d "unat (tb_tail tb) + n" k]
      by (simp add: unat_add_mod)
    then show ?thesis
      using Some len assms(2) ring_add [of d "unat (tb_tail tb)" n "txbuf_len tb - n"] by (simp add: contents_def)
  qed (simp add: contents_def)
qed

lemma flush_slice:
  assumes "txbuf_wf tb" "tb_data tb = Some d"
  defines "l \<equiv> min (TX_BUF_SIZE - unat (tb_tail tb) mod TX_BUF_SIZE) (txbuf_len tb)"
  shows "take l (drop (unat (tb_tail tb) mod TX_BUF_SIZE) d) = take l (contents tb)"
proof -
  have d: "length d = TX_BUF_SIZE" using assms by (simp add: txbuf_wf_def)
  have "unat (tb_tail tb) mod TX_BUF_SIZE < TX_BUF_SIZE" by (simp add: TX_BUF_SIZE_eq)
  then have "take l (drop (unat (tb_tail tb) mod TX_BUF_SIZE) d) = ring d (unat (tb_tail tb)) l"
    using ring_linear [of "unat (tb_tail tb) mod TX_BUF_SIZE" l d] d ring_mod [of d "unat (tb_tail tb)" l]
    by (simp add: l_def)
  also have "\<dots> = take l (contents tb)"
    using ring_add [of d "unat (tb_tail tb)" l "txbuf_len tb - l"] assms(2) by (simp add: contents_def l_def)
  finally show ?thesis .
qed

lemma flush_to_ok:
  assumes ok: "writer_ok W received"
  shows "txbuf_wf tb \<Longrightarrow> \<exists>r tb' w' m. flush_to W tb w = Some (r, tb', w') \<and> txbuf_wf tb' \<and> m \<le> txbuf_len tb
    \<and> contents tb' = drop m (contents tb) \<and> received w' = received w @ take m (contents tb)
    \<and> (r = Inr m \<or> m = 0 \<and> (\<exists>e. r = Inl (TxBufFlush e)))"
proof (induction "txbuf_len tb" arbitrary: tb w rule: less_induct)
  case less
  note wf = \<open>txbuf_wf tb\<close>
  show ?case
  proof (cases "txbuf_is_empty tb")
    case True
    then show ?thesis using wf by (intro exI [of _ "Inr 0"] exI [of _ tb] exI [of _ w] exI [of _ 0]) (simp add: flush_to.simps)
  next
    case False
    define t where "t = unat (tb_tail tb) mod TX_BUF_SIZE"
    define l where "l = min (TX_BUF_SIZE - t) (txbuf_len tb)"
    obtain d where d: "tb_data tb = Some d"
      using wf False by (auto simp: txbuf_wf_def txbuf_is_empty_def split: option.splits)
    have slice: "take l (drop t d) = take l (contents tb)"
      unfolding l_def t_def by (rule flush_slice [OF wf d])
    have l: "0 < l" "l \<le> txbuf_len tb" using False by (simp_all add: l_def t_def txbuf_is_empty_def TX_BUF_SIZE_eq)
    note unfold = flush_to.simps [of W tb w] t_def [symmetric] l_def [symmetric] Let_def
    from ok show ?thesis
    proof (cases rule: writer_okE [where bs = "take l (contents tb)" and w = w])
      case (refuse e w1)
      then show ?thesis using False d slice wf
        by (intro exI [of _ "Inl (TxBufFlush e)"] exI [of _ tb] exI [of _ w1] exI [of _ 0]) (simp add: unfold)
    next
      case (accept n w1)
      let ?tb = "tb\<lparr> tb_tail := tb_tail tb + of_nat n \<rparr>"
      have n: "n \<le> l" "n \<le> txbuf_len tb" using accept(2) l(2) by auto
      note adv = flush_advance [OF wf n(2)]
      have rec: "received w1 = received w @ take n (contents tb)" using accept(3) n(1) by (simp add: min_def)
      show ?thesis
      proof (cases "n < l")
        case True
        then show ?thesis using False d slice accept(1) adv n(2) rec
          by (intro exI [of _ "Inr n"] exI [of _ ?tb] exI [of _ w1] exI [of _ n]) (simp add: unfold)
      next
        case full: False
        then have "txbuf_len ?tb < txbuf_len tb" using adv(3) n l by simp
        from less.hyps [OF this adv(1), of w1] obtain r tb' w' m where
          IH: "flush_to W ?tb w1 = Some (r, tb', w')" "txbuf_wf tb'" "m \<le> txbuf_len tb - n"
            "contents tb' = drop m (drop n (contents tb))" "received w' = received w1 @ take m (drop n (contents tb))"
            "r = Inr m \<or> m = 0 \<and> (\<exists>e. r = Inl (TxBufFlush e))"
          unfolding adv(2,3) by blast
        have "(case r of Inl _ \<Rightarrow> 0 | Inr k \<Rightarrow> k) = m" using IH(6) by auto
        moreover have "n + m \<le> txbuf_len tb" using IH(3) n(2) by simp
        moreover have "drop m (drop n (contents tb)) = drop (n + m) (contents tb)" by (simp add: add.commute)
        ultimately show ?thesis using False d slice accept(1) full IH(1,2,4,5) rec take_add [of n m "contents tb"]
          by (intro exI [of _ "Inr (n + m)"] exI [of _ tb'] exI [of _ w'] exI [of _ "n + m"]) (simp add: unfold)
      qed
    qed
  qed
qed

section \<open>Refinement of a queue\<close>

datatype txbuf_op = Push "u8 list" | Flush

fun txbuf_exec :: "'w writer \<Rightarrow> txbuf_op \<Rightarrow> txbuf \<Rightarrow> 'w \<Rightarrow> ((csm_error + nat) \<times> txbuf \<times> 'w) option" where
  "txbuf_exec W (Push bs) tb w =
    (case push_from (slice_copy_to_tx_buf bs) 0 (length bs) tb of
       (r, tb') \<Rightarrow> Some (map_sum id (\<lambda>_. length bs) r, tb', w))"
| "txbuf_exec W Flush tb w = flush_to W tb w"

text \<open>The abstract buffer: the queued bytes and the bytes the sink has received.\<close>

inductive queue_step :: "u8 list \<times> u8 list \<Rightarrow> txbuf_op \<Rightarrow> csm_error + nat \<Rightarrow> u8 list \<times> u8 list \<Rightarrow> bool" where
  push: "length q + length bs \<le> TX_BUF_SIZE \<Longrightarrow> queue_step (q, out) (Push bs) (Inr (length bs)) (q @ bs, out)"
| full: "TX_BUF_SIZE < length q + length bs \<Longrightarrow> queue_step (q, out) (Push bs) (Inl TxBufFull) (q, out)"
| flush: "m \<le> length q \<Longrightarrow> queue_step (q, out) Flush (Inr m) (drop m q, out @ take m q)"
| flush_fails: "queue_step (q, out) Flush (Inl (TxBufFlush e)) (q, out)"

lemma push_refines:
  assumes "txbuf_wf tb" "length bs < 2 ^ 64"
  shows "\<exists>r tb'. txbuf_exec W (Push bs) tb w = Some (r, tb', w) \<and> txbuf_wf tb'
    \<and> queue_step (contents tb, received w) (Push bs) r (contents tb', received w)"
proof -
  consider "TX_BUF_SIZE < txbuf_len tb + length bs" | "bs = []" "txbuf_len tb \<le> TX_BUF_SIZE"
    | "txbuf_len tb + length bs \<le> TX_BUF_SIZE" "0 < length bs"
    using assms(1) by (cases bs) (force simp: txbuf_wf_def)+
  then show ?thesis
  proof cases
    case 1
    then show ?thesis using assms queue_step.full [of "contents tb" bs] by (simp add: push_from_full)
  next
    case 2
    then show ?thesis using assms queue_step.push [of "contents tb" "[]"] by (simp add: push_from_full)
  next
    case 3
    obtain tb' where "push_from (slice_copy_to_tx_buf bs) 0 (length bs) tb = (Inr (), tb')" "txbuf_wf tb'"
      "contents tb' = contents tb @ bs"
      using push_from_ok [OF assms(1) slice_source_ok [OF assms(2)] 3, of 0] by auto
    then show ?thesis using assms 3 queue_step.push [of "contents tb" bs] by simp
  qed
qed

text \<open>
  C4: The vsock transmit buffer is a bounded byte queue.  The ring starts empty.  A push stores all
  its bytes at the end or, exactly when they do not fit in 64 KiB, fails and stores nothing; a
  flush always returns, hands a prefix of the queue to the sink in order and drops exactly that
  prefix, or fails and drops nothing; the offsets may wrap around their 32 bits and the end of
  the array at any time.
\<close>
theorem txbuf_refines_queue:
  assumes "writer_ok W received" "txbuf_wf tb" "\<forall>bs. op = Push bs \<longrightarrow> length bs < 2 ^ 64"
  shows "txbuf_wf txbuf_new \<and> contents txbuf_new = [] \<and>
    (\<exists>r tb' w'. txbuf_exec W op tb w = Some (r, tb', w') \<and> txbuf_wf tb'
       \<and> queue_step (contents tb, received w) op r (contents tb', received w'))"
proof (cases op)
  case (Push bs)
  then show ?thesis using push_refines assms by fastforce
next
  case Flush
  obtain r tb' w' m where f: "flush_to W tb w = Some (r, tb', w')" "txbuf_wf tb'" "m \<le> txbuf_len tb"
    "contents tb' = drop m (contents tb)" "received w' = received w @ take m (contents tb)"
    "r = Inr m \<or> m = 0 \<and> (\<exists>e. r = Inl (TxBufFlush e))"
    using flush_to_ok [OF assms(1,2)] by blast
  have "queue_step (contents tb, received w) Flush r (contents tb', received w')"
    using f assms(2) queue_step.flush [of m "contents tb" "received w"] queue_step.flush_fails by auto
  then show ?thesis using f(1,2) Flush by auto
qed

text \<open>A ring whose offsets are about to wrap: three bytes before the end of both.\<close>

definition wrapping_buf :: txbuf where
  "wrapping_buf = \<lparr> tb_data = Some (replicate 65536 0), tb_head = - 3, tb_tail = - 3 \<rparr>"

theorem txbuf_refines_queue_witness:
  "writer_ok slow_writer id \<and> txbuf_wf wrapping_buf \<and> length [1, 2, 3, 4, 5 :: u8] < 2 ^ 64 \<and>
    (\<exists>r tb' w'. txbuf_exec slow_writer (Push [1, 2, 3, 4, 5]) wrapping_buf [] = Some (r, tb', w')
       \<and> queue_step (contents wrapping_buf, []) (Push [1, 2, 3, 4, 5]) r (contents tb', w'))"
proof -
  have "txbuf_wf wrapping_buf" by (simp add: txbuf_wf_def wrapping_buf_def txbuf_len_def TX_BUF_SIZE_eq)
  then show ?thesis
    using txbuf_refines_queue [OF slow_writer_ok, of wrapping_buf "Push [1, 2, 3, 4, 5]" "[]"] slow_writer_ok by auto
qed

end
