(* ===== verification/VsockPacket.thy ===== *)
theory VsockPacket
  imports ByteOrder Writer TxBuf
begin

text \<open>
  \<^verbatim>\<open>virtio-devices/src/vsock/packet.rs\<close>: a vsock packet, that is a 44 byte header copied from guest
  memory and a data buffer that is either a range of guest memory or an owned copy.

  Guest memory (\<^verbatim>\<open>vm_memory\<close>) is a parameter: its bytes and, for every range, whether a contiguous
  slice, a read or a write of the range succeeds.  The descriptor chain of the virtio queue is the
  list of the outcomes of \<open>next_checked\<close>; its end is the end of the chain.
\<close>

section \<open>Model\<close>

definition MAX_PKT_BUF_SIZE :: nat where "MAX_PKT_BUF_SIZE = 64 * 1024"
definition VSOCK_PKT_HDR_SIZE :: nat where "VSOCK_PKT_HDR_SIZE = 44"
definition HDROFF_SRC_CID :: nat where "HDROFF_SRC_CID = 0"
definition HDROFF_DST_CID :: nat where "HDROFF_DST_CID = 8"
definition HDROFF_SRC_PORT :: nat where "HDROFF_SRC_PORT = 16"
definition HDROFF_DST_PORT :: nat where "HDROFF_DST_PORT = 20"
definition HDROFF_LEN :: nat where "HDROFF_LEN = 24"
definition HDROFF_TYPE :: nat where "HDROFF_TYPE = 28"
definition HDROFF_OP :: nat where "HDROFF_OP = 30"
definition HDROFF_FLAGS :: nat where "HDROFF_FLAGS = 32"
definition HDROFF_BUF_ALLOC :: nat where "HDROFF_BUF_ALLOC = 36"
definition HDROFF_FWD_CNT :: nat where "HDROFF_FWD_CNT = 40"

definition VSOCK_OP_REQUEST :: u16 where "VSOCK_OP_REQUEST = 1"
definition VSOCK_OP_RESPONSE :: u16 where "VSOCK_OP_RESPONSE = 2"
definition VSOCK_OP_RST :: u16 where "VSOCK_OP_RST = 3"
definition VSOCK_OP_SHUTDOWN :: u16 where "VSOCK_OP_SHUTDOWN = 4"
definition VSOCK_OP_RW :: u16 where "VSOCK_OP_RW = 5"
definition VSOCK_OP_CREDIT_UPDATE :: u16 where "VSOCK_OP_CREDIT_UPDATE = 6"
definition VSOCK_OP_CREDIT_REQUEST :: u16 where "VSOCK_OP_CREDIT_REQUEST = 7"
definition VSOCK_FLAGS_SHUTDOWN_RCV :: u32 where "VSOCK_FLAGS_SHUTDOWN_RCV = 1"
definition VSOCK_FLAGS_SHUTDOWN_SEND :: u32 where "VSOCK_FLAGS_SHUTDOWN_SEND = 2"
definition VSOCK_TYPE_STREAM :: u16 where "VSOCK_TYPE_STREAM = 1"
definition VSOCK_HOST_CID :: u64 where "VSOCK_HOST_CID = 2"

datatype vsock_error = BufDescTooSmall | BufDescMissing | GuestMemory | GuestMemoryAccess
  | HdrDescTooSmall u32 | HdrDescMissing | InvalidPktLen u32 | NoData | PktBufMissing
  | UnreadableDescriptor | UnwritableDescriptor

subsection \<open>Guest memory and descriptors\<close>

record guest_mem =
  gm_bytes :: "u64 \<Rightarrow> u8"
  gm_slice :: "u64 \<Rightarrow> nat \<Rightarrow> bool"
  gm_read_ok :: "u64 \<Rightarrow> nat \<Rightarrow> bool"
  gm_write_ok :: "u64 \<Rightarrow> nat \<Rightarrow> bool"

definition mem_bytes :: "guest_mem \<Rightarrow> u64 \<Rightarrow> nat \<Rightarrow> u8 list" where
  "mem_bytes m addr len = map (\<lambda>i. gm_bytes m (addr + of_nat i)) [0..<len]"

fun mem_store :: "u64 \<Rightarrow> u8 list \<Rightarrow> guest_mem \<Rightarrow> guest_mem" where
  "mem_store addr [] m = m"
| "mem_store addr (b # bs) m = mem_store (addr + 1) bs (m\<lparr> gm_bytes := (gm_bytes m)(addr := b) \<rparr>)"

record desc =
  d_addr :: u64
  d_len :: u32
  d_write_only :: bool
  d_has_next :: bool

type_synonym desc_chain = "(unit + desc) list"

subsection \<open>The packet buffer\<close>

datatype packet_buffer = GuestBuf u64 nat | OwnedBuf "u8 list"

definition pb_guest :: "guest_mem \<Rightarrow> u64 \<Rightarrow> nat \<Rightarrow> vsock_error + packet_buffer" where
  "pb_guest m addr len = (if gm_slice m addr len then Inr (GuestBuf addr len) else Inl GuestMemory)"

fun pb_len :: "packet_buffer \<Rightarrow> nat" where
  "pb_len (GuestBuf addr len) = len"
| "pb_len (OwnedBuf buf) = length buf"

definition pb_check_range :: "packet_buffer \<Rightarrow> nat \<Rightarrow> nat \<Rightarrow> vsock_error + unit" where
  "pb_check_range pb offset len =
    (if 2 ^ 64 \<le> offset + len then Inl GuestMemory
     else if pb_len pb < offset \<or> pb_len pb - offset < len
     then Inl (InvalidPktLen (if offset + len < 2 ^ 32 then of_nat (offset + len) else - 1))
     else Inr ())"

definition pb_guest_addr :: "u64 \<Rightarrow> nat \<Rightarrow> vsock_error + u64" where
  "pb_guest_addr addr offset =
    (case checked_add addr (of_nat offset) of None \<Rightarrow> Inl GuestMemory | Some a \<Rightarrow> Inr a)"

text \<open>Copying \<open>n\<close> bytes, the length of the destination.\<close>

definition pb_copy_to_slice :: "guest_mem \<Rightarrow> packet_buffer \<Rightarrow> nat \<Rightarrow> nat \<Rightarrow> vsock_error + u8 list" where
  "pb_copy_to_slice m pb offset n =
    (case pb_check_range pb offset n of
       Inl e \<Rightarrow> Inl e
     | Inr _ \<Rightarrow>
         if n = 0 then Inr []
         else case pb of
           GuestBuf addr _ \<Rightarrow>
             (case pb_guest_addr addr offset of
                Inl e \<Rightarrow> Inl e
              | Inr a \<Rightarrow> if gm_slice m a n then Inr (mem_bytes m a n) else Inl GuestMemory)
         | OwnedBuf buf \<Rightarrow> Inr (take n (drop offset buf)))"

subsection \<open>The host stream\<close>

text \<open>What a connection uses of its host stream: reads and writes through safe and through volatile
  memory, and the shutdown of its write half.\<close>

record 's stream_ops =
  st_read :: "nat \<Rightarrow> 's \<Rightarrow> ((io_error + u8 list) \<times> 's) option"
  st_read_volatile :: "nat \<Rightarrow> 's \<Rightarrow> ((io_error + u8 list) \<times> 's) option"
  st_writer :: "'s writer"
  st_write_volatile :: "u8 list \<Rightarrow> 's \<Rightarrow> ((io_error + nat) \<times> 's) option"
  st_shutdown_wr :: "'s \<Rightarrow> bool \<times> 's"

definition pb_read_volatile_from ::
  "'s stream_ops \<Rightarrow> nat \<Rightarrow> packet_buffer \<Rightarrow> guest_mem \<Rightarrow> 's
    \<Rightarrow> ((io_error + nat) \<times> packet_buffer \<times> guest_mem \<times> 's) option" where
  "pb_read_volatile_from S len pb m s =
    (case pb_check_range pb 0 len of
       Inl e \<Rightarrow> Some (Inl OtherIo, pb, m, s)
     | Inr _ \<Rightarrow>
         (case pb of
            GuestBuf addr _ \<Rightarrow>
              if gm_slice m addr len
              then case st_read_volatile S len s of
                     None \<Rightarrow> None
                   | Some (Inl e, s') \<Rightarrow> Some (Inl e, pb, m, s')
                   | Some (Inr bs, s') \<Rightarrow> Some (Inr (length bs), pb, mem_store addr bs m, s')
              else Some (Inl OtherIo, pb, m, s)
          | OwnedBuf buf \<Rightarrow>
              (case st_read S len s of
                 None \<Rightarrow> None
               | Some (Inl e, s') \<Rightarrow> Some (Inl e, pb, m, s')
               | Some (Inr bs, s') \<Rightarrow> Some (Inr (length bs), OwnedBuf (splice buf 0 bs), m, s'))))"

definition pb_write_volatile_to ::
  "'s stream_ops \<Rightarrow> guest_mem \<Rightarrow> packet_buffer \<Rightarrow> nat \<Rightarrow> nat \<Rightarrow> 's \<Rightarrow> ((io_error + nat) \<times> 's) option" where
  "pb_write_volatile_to S m pb offset len s =
    (case pb_check_range pb offset len of
       Inl e \<Rightarrow> Some (Inl OtherIo, s)
     | Inr _ \<Rightarrow>
         (case pb of
            GuestBuf addr _ \<Rightarrow>
              (case pb_guest_addr addr offset of
                 Inl e \<Rightarrow> Some (Inl OtherIo, s)
               | Inr a \<Rightarrow>
                   if gm_slice m a len then st_write_volatile S (mem_bytes m a len) s
                   else Some (Inl OtherIo, s))
          | OwnedBuf buf \<Rightarrow> w_write (st_writer S) (take len (drop offset buf)) s))"

subsection \<open>The packet\<close>

record vsock_packet =
  guest_hdr_addr :: u64
  hdr :: "u8 list"
  pkt_buf :: "packet_buffer option"

definition get16 :: "byteorder_ops \<Rightarrow> nat \<Rightarrow> vsock_packet \<Rightarrow> u16" where
  "get16 B off pkt = read_u16 B (take 2 (drop off (hdr pkt)))"
definition get32 :: "byteorder_ops \<Rightarrow> nat \<Rightarrow> vsock_packet \<Rightarrow> u32" where
  "get32 B off pkt = read_u32 B (take 4 (drop off (hdr pkt)))"
definition get64 :: "byteorder_ops \<Rightarrow> nat \<Rightarrow> vsock_packet \<Rightarrow> u64" where
  "get64 B off pkt = read_u64 B (take 8 (drop off (hdr pkt)))"
definition set16 :: "byteorder_ops \<Rightarrow> nat \<Rightarrow> u16 \<Rightarrow> vsock_packet \<Rightarrow> vsock_packet" where
  "set16 B off v pkt = pkt\<lparr> hdr := splice (hdr pkt) off (write_u16 B v) \<rparr>"
definition set32 :: "byteorder_ops \<Rightarrow> nat \<Rightarrow> u32 \<Rightarrow> vsock_packet \<Rightarrow> vsock_packet" where
  "set32 B off v pkt = pkt\<lparr> hdr := splice (hdr pkt) off (write_u32 B v) \<rparr>"
definition set64 :: "byteorder_ops \<Rightarrow> nat \<Rightarrow> u64 \<Rightarrow> vsock_packet \<Rightarrow> vsock_packet" where
  "set64 B off v pkt = pkt\<lparr> hdr := splice (hdr pkt) off (write_u64 B v) \<rparr>"

definition src_cid :: "byteorder_ops \<Rightarrow> vsock_packet \<Rightarrow> u64" where
  "src_cid B = get64 B HDROFF_SRC_CID"
definition set_src_cid :: "byteorder_ops \<Rightarrow> u64 \<Rightarrow> vsock_packet \<Rightarrow> vsock_packet" where
  "set_src_cid B = set64 B HDROFF_SRC_CID"
definition dst_cid :: "byteorder_ops \<Rightarrow> vsock_packet \<Rightarrow> u64" where
  "dst_cid B = get64 B HDROFF_DST_CID"
definition set_dst_cid :: "byteorder_ops \<Rightarrow> u64 \<Rightarrow> vsock_packet \<Rightarrow> vsock_packet" where
  "set_dst_cid B = set64 B HDROFF_DST_CID"
definition src_port :: "byteorder_ops \<Rightarrow> vsock_packet \<Rightarrow> u32" where
  "src_port B = get32 B HDROFF_SRC_PORT"
definition set_src_port :: "byteorder_ops \<Rightarrow> u32 \<Rightarrow> vsock_packet \<Rightarrow> vsock_packet" where
  "set_src_port B = set32 B HDROFF_SRC_PORT"
definition dst_port :: "byteorder_ops \<Rightarrow> vsock_packet \<Rightarrow> u32" where
  "dst_port B = get32 B HDROFF_DST_PORT"
definition set_dst_port :: "byteorder_ops \<Rightarrow> u32 \<Rightarrow> vsock_packet \<Rightarrow> vsock_packet" where
  "set_dst_port B = set32 B HDROFF_DST_PORT"
definition pkt_len :: "byteorder_ops \<Rightarrow> vsock_packet \<Rightarrow> u32" where
  "pkt_len B = get32 B HDROFF_LEN"
definition pkt_is_empty :: "byteorder_ops \<Rightarrow> vsock_packet \<Rightarrow> bool" where
  "pkt_is_empty B pkt \<longleftrightarrow> pkt_len B pkt = 0"
definition set_len :: "byteorder_ops \<Rightarrow> u32 \<Rightarrow> vsock_packet \<Rightarrow> vsock_packet" where
  "set_len B = set32 B HDROFF_LEN"
definition pkt_type :: "byteorder_ops \<Rightarrow> vsock_packet \<Rightarrow> u16" where
  "pkt_type B = get16 B HDROFF_TYPE"
definition set_type :: "byteorder_ops \<Rightarrow> u16 \<Rightarrow> vsock_packet \<Rightarrow> vsock_packet" where
  "set_type B = set16 B HDROFF_TYPE"
definition pkt_op :: "byteorder_ops \<Rightarrow> vsock_packet \<Rightarrow> u16" where
  "pkt_op B = get16 B HDROFF_OP"
definition set_op :: "byteorder_ops \<Rightarrow> u16 \<Rightarrow> vsock_packet \<Rightarrow> vsock_packet" where
  "set_op B = set16 B HDROFF_OP"
definition pkt_flags :: "byteorder_ops \<Rightarrow> vsock_packet \<Rightarrow> u32" where
  "pkt_flags B = get32 B HDROFF_FLAGS"
definition set_flags :: "byteorder_ops \<Rightarrow> u32 \<Rightarrow> vsock_packet \<Rightarrow> vsock_packet" where
  "set_flags B = set32 B HDROFF_FLAGS"
definition set_flag :: "byteorder_ops \<Rightarrow> u32 \<Rightarrow> vsock_packet \<Rightarrow> vsock_packet" where
  "set_flag B flag pkt = set_flags B (pkt_flags B pkt OR flag) pkt"
definition buf_alloc :: "byteorder_ops \<Rightarrow> vsock_packet \<Rightarrow> u32" where
  "buf_alloc B = get32 B HDROFF_BUF_ALLOC"
definition set_buf_alloc :: "byteorder_ops \<Rightarrow> u32 \<Rightarrow> vsock_packet \<Rightarrow> vsock_packet" where
  "set_buf_alloc B = set32 B HDROFF_BUF_ALLOC"
definition pkt_fwd_cnt :: "byteorder_ops \<Rightarrow> vsock_packet \<Rightarrow> u32" where
  "pkt_fwd_cnt B = get32 B HDROFF_FWD_CNT"
definition set_fwd_cnt :: "byteorder_ops \<Rightarrow> u32 \<Rightarrow> vsock_packet \<Rightarrow> vsock_packet" where
  "set_fwd_cnt B = set32 B HDROFF_FWD_CNT"

definition has_buf :: "vsock_packet \<Rightarrow> bool" where
  "has_buf pkt \<longleftrightarrow> pkt_buf pkt \<noteq> None"

definition buf_capacity :: "vsock_packet \<Rightarrow> nat option" where
  "buf_capacity pkt = map_option pb_len (pkt_buf pkt)"

definition copy_buf_to_slice :: "guest_mem \<Rightarrow> vsock_packet \<Rightarrow> nat \<Rightarrow> nat \<Rightarrow> vsock_error + u8 list" where
  "copy_buf_to_slice m pkt offset n =
    (case pkt_buf pkt of None \<Rightarrow> Inl PktBufMissing | Some pb \<Rightarrow> pb_copy_to_slice m pb offset n)"

definition read_volatile_from ::
  "'s stream_ops \<Rightarrow> nat \<Rightarrow> vsock_packet \<Rightarrow> guest_mem \<Rightarrow> 's
    \<Rightarrow> ((io_error + nat) \<times> vsock_packet \<times> guest_mem \<times> 's) option" where
  "read_volatile_from S len pkt m s =
    (case pkt_buf pkt of
       None \<Rightarrow> Some (Inl OtherIo, pkt, m, s)
     | Some pb \<Rightarrow>
         map_option (\<lambda>(r, pb', m', s'). (r, pkt\<lparr> pkt_buf := Some pb' \<rparr>, m', s')) (pb_read_volatile_from S len pb m s))"

definition write_volatile_to ::
  "'s stream_ops \<Rightarrow> guest_mem \<Rightarrow> vsock_packet \<Rightarrow> nat \<Rightarrow> nat \<Rightarrow> 's \<Rightarrow> ((io_error + nat) \<times> 's) option" where
  "write_volatile_to S m pkt offset len s =
    (case pkt_buf pkt of
       None \<Rightarrow> Some (Inl OtherIo, s)
     | Some pb \<Rightarrow> pb_write_volatile_to S m pb offset len s)"

definition validate_len :: "byteorder_ops \<Rightarrow> vsock_packet \<Rightarrow> vsock_error + unit" where
  "validate_len B pkt =
    (let len = unat (pkt_len B pkt) in
     if MAX_PKT_BUF_SIZE < len then Inl (InvalidPktLen (pkt_len B pkt))
     else case pkt_buf pkt of
            Some buf \<Rightarrow> if pb_len buf < len then Inl (InvalidPktLen (pkt_len B pkt)) else Inr ()
          | None \<Rightarrow> if 0 < len then Inl PktBufMissing else Inr ())"

definition commit_hdr :: "byteorder_ops \<Rightarrow> vsock_packet \<Rightarrow> guest_mem \<Rightarrow> (vsock_error + unit) \<times> guest_mem" where
  "commit_hdr B pkt m =
    (case validate_len B pkt of
       Inl e \<Rightarrow> (Inl e, m)
     | Inr _ \<Rightarrow>
         if gm_write_ok m (guest_hdr_addr pkt) (length (hdr pkt))
         then (Inr (), mem_store (guest_hdr_addr pkt) (hdr pkt) m)
         else (Inl GuestMemoryAccess, m))"

subsection \<open>Packets from descriptor chains\<close>

text \<open>Copying a chain of data descriptors into one buffer: one descriptor, and the loop.\<close>

definition tx_gather_one ::
  "guest_mem \<Rightarrow> nat \<Rightarrow> desc \<Rightarrow> nat \<Rightarrow> u8 list \<Rightarrow> vsock_error + nat \<times> u8 list" where
  "tx_gather_one m total_len desc offset owned =
    (if d_write_only desc then Inl UnreadableDescriptor
     else
       let desc_len = unat (d_len desc) in
       if 0 < desc_len \<and> offset < total_len
       then let to_copy = min desc_len (total_len - offset) in
            if gm_read_ok m (d_addr desc) to_copy
            then Inr (offset + to_copy, splice owned offset (mem_bytes m (d_addr desc) to_copy))
            else Inl GuestMemoryAccess
       else Inr (offset, owned))"

fun tx_gather ::
  "guest_mem \<Rightarrow> nat \<Rightarrow> desc \<Rightarrow> desc_chain \<Rightarrow> nat \<Rightarrow> u8 list \<Rightarrow> vsock_error + nat \<times> u8 list" where
  "tx_gather m total_len desc [] offset owned =
    (case tx_gather_one m total_len desc offset owned of
       Inl e \<Rightarrow> Inl e
     | Inr r \<Rightarrow> if d_has_next desc then Inl BufDescMissing else Inr r)"
| "tx_gather m total_len desc (nxt # rest) offset owned =
    (case tx_gather_one m total_len desc offset owned of
       Inl e \<Rightarrow> Inl e
     | Inr (offset, owned) \<Rightarrow>
         if d_has_next desc
         then case nxt of
                Inl _ \<Rightarrow> Inl GuestMemory
              | Inr desc' \<Rightarrow> tx_gather m total_len desc' rest offset owned
         else Inr (offset, owned))"

text \<open>The buffer of a non-empty packet.\<close>

definition tx_packet_buffer :: "guest_mem \<Rightarrow> desc \<Rightarrow> desc_chain \<Rightarrow> nat \<Rightarrow> vsock_error + packet_buffer" where
  "tx_packet_buffer m head rest total_len =
    (if \<not> d_has_next head
     then if unat (d_len head) - VSOCK_PKT_HDR_SIZE < total_len then Inl BufDescTooSmall
          else case checked_add (d_addr head) (of_nat VSOCK_PKT_HDR_SIZE) of
                 None \<Rightarrow> Inl GuestMemory
               | Some buf_addr \<Rightarrow> pb_guest m buf_addr total_len
     else case rest of
       [] \<Rightarrow> Inl BufDescMissing
     | Inl _ # _ \<Rightarrow> Inl GuestMemory
     | Inr buf_desc # rest' \<Rightarrow>
         if d_write_only buf_desc then Inl UnreadableDescriptor
         else if d_has_next buf_desc
         then case tx_gather m total_len buf_desc rest' 0 (replicate total_len 0) of
                Inl e \<Rightarrow> Inl e
              | Inr (offset, owned) \<Rightarrow> if offset < total_len then Inl BufDescTooSmall else Inr (OwnedBuf owned)
         else if unat (d_len buf_desc) < total_len then Inl BufDescTooSmall
         else pb_guest m (d_addr buf_desc) total_len)"

definition from_tx_virtq_head :: "byteorder_ops \<Rightarrow> guest_mem \<Rightarrow> desc_chain \<Rightarrow> vsock_error + vsock_packet" where
  "from_tx_virtq_head B m chain =
    (case chain of
       [] \<Rightarrow> Inl HdrDescMissing
     | Inl _ # _ \<Rightarrow> Inl GuestMemory
     | Inr head # rest \<Rightarrow>
         if d_write_only head then Inl UnreadableDescriptor
         else if d_len head < of_nat VSOCK_PKT_HDR_SIZE then Inl (HdrDescTooSmall (d_len head))
         else if \<not> gm_read_ok m (d_addr head) VSOCK_PKT_HDR_SIZE then Inl GuestMemoryAccess
         else
           let pkt = \<lparr> guest_hdr_addr = d_addr head, hdr = mem_bytes m (d_addr head) VSOCK_PKT_HDR_SIZE, pkt_buf = None \<rparr>
           in if pkt_is_empty B pkt then Inr pkt
              else if of_nat MAX_PKT_BUF_SIZE < pkt_len B pkt then Inl (InvalidPktLen (pkt_len B pkt))
              else case tx_packet_buffer m head rest (unat (pkt_len B pkt)) of
                     Inl e \<Rightarrow> Inl e
                   | Inr pb \<Rightarrow> Inr (pkt\<lparr> pkt_buf := Some pb \<rparr>))"

definition from_rx_virtq_head :: "guest_mem \<Rightarrow> desc_chain \<Rightarrow> vsock_error + vsock_packet" where
  "from_rx_virtq_head m chain =
    (case chain of
       [] \<Rightarrow> Inl HdrDescMissing
     | Inl _ # _ \<Rightarrow> Inl GuestMemory
     | Inr head # rest \<Rightarrow>
         if \<not> d_write_only head then Inl UnwritableDescriptor
         else if d_len head < of_nat VSOCK_PKT_HDR_SIZE then Inl (HdrDescTooSmall (d_len head))
         else if \<not> gm_read_ok m (d_addr head) VSOCK_PKT_HDR_SIZE then Inl GuestMemoryAccess
         else
           let pkt = \<lparr> guest_hdr_addr = d_addr head, hdr = mem_bytes m (d_addr head) VSOCK_PKT_HDR_SIZE, pkt_buf = None \<rparr>;
               range =
                 (if d_has_next head
                  then case rest of
                         [] \<Rightarrow> Inl BufDescMissing
                       | Inl _ # _ \<Rightarrow> Inl GuestMemory
                       | Inr buf_desc # _ \<Rightarrow>
                           if d_has_next buf_desc then Inl BufDescTooSmall
                           else if d_len buf_desc = 0 then Inr (0, None)
                           else Inr (unat (d_len buf_desc), Some (d_addr buf_desc))
                  else
                    let buf_size = unat (d_len head) - VSOCK_PKT_HDR_SIZE in
                    if buf_size = 0 then Inr (0, None)
                    else case checked_add (d_addr head) (of_nat VSOCK_PKT_HDR_SIZE) of
                           None \<Rightarrow> Inl GuestMemory
                         | Some addr \<Rightarrow> Inr (buf_size, Some addr))
           in case range of
                Inl e \<Rightarrow> Inl e
              | Inr (buf_size, None) \<Rightarrow> Inr pkt
              | Inr (buf_size, Some addr) \<Rightarrow>
                  map_sum id (\<lambda>pb. pkt\<lparr> pkt_buf := Some pb \<rparr>) (pb_guest m addr buf_size))"

text \<open>The packet as a source of the transmit buffer.\<close>

definition pkt_copy_to_tx_buf :: "guest_mem \<Rightarrow> vsock_packet \<Rightarrow> tx_source" where
  "pkt_copy_to_tx_buf m pkt offset dst =
    (case copy_buf_to_slice m pkt offset (length dst) of
       Inl _ \<Rightarrow> (Inl PktBufRead, dst)
     | Inr bs \<Rightarrow> (Inr (), bs))"

section \<open>Header fields\<close>

definition hdr_ok :: "vsock_packet \<Rightarrow> bool" where
  "hdr_ok pkt \<longleftrightarrow> length (hdr pkt) = 44"

lemma take_drop_splice:
  "p + length bs \<le> length d \<Longrightarrow> take (length bs) (drop p (splice d p bs)) = bs"
  "p + length bs \<le> length d \<Longrightarrow> q + k \<le> p \<or> p + length bs \<le> q \<Longrightarrow>
    take k (drop q (splice d p bs)) = take k (drop q d)"
  by (simp add: splice_def) (rule nth_equalityI; auto simp: nth_splice)+

lemma set_hdr_ok [simp]:
  assumes "byteorder_ok B" "hdr_ok pkt"
  shows "off + 2 \<le> 44 \<Longrightarrow> hdr_ok (set16 B off v pkt)" "off + 4 \<le> 44 \<Longrightarrow> hdr_ok (set32 B off w pkt)"
    "off + 8 \<le> 44 \<Longrightarrow> hdr_ok (set64 B off x pkt)"
  using assms by (simp_all add: hdr_ok_def set16_def set32_def set64_def)

lemma get_set_same [simp]:
  assumes "byteorder_ok B" "hdr_ok pkt"
  shows "off + 2 \<le> 44 \<Longrightarrow> get16 B off (set16 B off v pkt) = v"
    "off + 4 \<le> 44 \<Longrightarrow> get32 B off (set32 B off w pkt) = w"
    "off + 8 \<le> 44 \<Longrightarrow> get64 B off (set64 B off x pkt) = x"
  using assms take_drop_splice(1) [of off "write_u16 B v" "hdr pkt"]
    take_drop_splice(1) [of off "write_u32 B w" "hdr pkt"] take_drop_splice(1) [of off "write_u64 B x" "hdr pkt"]
  by (simp_all add: hdr_ok_def get16_def get32_def get64_def set16_def set32_def set64_def
      byteorder_write_read16 byteorder_write_read32 byteorder_write_read64)

lemma get_set_other [simp]:
  assumes "byteorder_ok B" "hdr_ok pkt"
  shows "off + 2 \<le> 44 \<Longrightarrow> q + 2 \<le> off \<or> off + 2 \<le> q \<Longrightarrow> get16 B q (set16 B off v pkt) = get16 B q pkt"
    "off + 2 \<le> 44 \<Longrightarrow> q + 4 \<le> off \<or> off + 2 \<le> q \<Longrightarrow> get32 B q (set16 B off v pkt) = get32 B q pkt"
    "off + 2 \<le> 44 \<Longrightarrow> q + 8 \<le> off \<or> off + 2 \<le> q \<Longrightarrow> get64 B q (set16 B off v pkt) = get64 B q pkt"
    "off + 4 \<le> 44 \<Longrightarrow> q + 2 \<le> off \<or> off + 4 \<le> q \<Longrightarrow> get16 B q (set32 B off w pkt) = get16 B q pkt"
    "off + 4 \<le> 44 \<Longrightarrow> q + 4 \<le> off \<or> off + 4 \<le> q \<Longrightarrow> get32 B q (set32 B off w pkt) = get32 B q pkt"
    "off + 4 \<le> 44 \<Longrightarrow> q + 8 \<le> off \<or> off + 4 \<le> q \<Longrightarrow> get64 B q (set32 B off w pkt) = get64 B q pkt"
    "off + 8 \<le> 44 \<Longrightarrow> q + 2 \<le> off \<or> off + 8 \<le> q \<Longrightarrow> get16 B q (set64 B off x pkt) = get16 B q pkt"
    "off + 8 \<le> 44 \<Longrightarrow> q + 4 \<le> off \<or> off + 8 \<le> q \<Longrightarrow> get32 B q (set64 B off x pkt) = get32 B q pkt"
    "off + 8 \<le> 44 \<Longrightarrow> q + 8 \<le> off \<or> off + 8 \<le> q \<Longrightarrow> get64 B q (set64 B off x pkt) = get64 B q pkt"
  using assms by (simp_all add: hdr_ok_def get16_def get32_def get64_def set16_def set32_def set64_def take_drop_splice(2))

lemmas hdr_fields = src_cid_def set_src_cid_def dst_cid_def set_dst_cid_def src_port_def set_src_port_def
  dst_port_def set_dst_port_def pkt_len_def set_len_def pkt_type_def set_type_def pkt_op_def set_op_def
  pkt_flags_def set_flags_def set_flag_def buf_alloc_def set_buf_alloc_def pkt_fwd_cnt_def set_fwd_cnt_def
  HDROFF_SRC_CID_def HDROFF_DST_CID_def HDROFF_SRC_PORT_def HDROFF_DST_PORT_def HDROFF_LEN_def HDROFF_TYPE_def
  HDROFF_OP_def HDROFF_FLAGS_def HDROFF_BUF_ALLOC_def HDROFF_FWD_CNT_def

lemma set_buf [simp]:
  "pkt_buf (set16 B off v pkt) = pkt_buf pkt" "pkt_buf (set32 B off w pkt) = pkt_buf pkt"
  "pkt_buf (set64 B off x pkt) = pkt_buf pkt"
  by (simp_all add: set16_def set32_def set64_def)

lemma get_buf [simp]:
  "get16 B off (pkt\<lparr> pkt_buf := b \<rparr>) = get16 B off pkt" "get32 B off (pkt\<lparr> pkt_buf := b \<rparr>) = get32 B off pkt"
  "get64 B off (pkt\<lparr> pkt_buf := b \<rparr>) = get64 B off pkt"
  by (simp_all add: get16_def get32_def get64_def)

section \<open>Data\<close>

fun pb_bytes :: "guest_mem \<Rightarrow> packet_buffer \<Rightarrow> u8 list" where
  "pb_bytes m (GuestBuf addr len) = mem_bytes m addr len"
| "pb_bytes m (OwnedBuf buf) = buf"

lemma length_mem_bytes [simp]: "length (mem_bytes m addr len) = len"
  by (simp add: mem_bytes_def)

lemma length_pb_bytes [simp]: "length (pb_bytes m pb) = pb_len pb"
  by (cases pb) simp_all

lemma take_mem_bytes: "take k (mem_bytes m addr len) = mem_bytes m addr (min k len)"
  by (rule nth_equalityI) (simp_all add: mem_bytes_def)

lemma drop_mem_bytes: "drop k (mem_bytes m addr len) = mem_bytes m (addr + of_nat k) (len - k)"
  by (rule nth_equalityI) (auto simp: mem_bytes_def less_diff_conv ac_simps)

text \<open>The payload a transmit chain carries: what follows the header in its only descriptor, or all that
  follows the head.\<close>

fun chain_data :: "guest_mem \<Rightarrow> desc \<Rightarrow> desc_chain \<Rightarrow> u8 list" where
  "chain_data m desc [] = mem_bytes m (d_addr desc) (unat (d_len desc))"
| "chain_data m desc (nxt # rest) =
    mem_bytes m (d_addr desc) (unat (d_len desc)) @
    (if d_has_next desc then (case nxt of Inl _ \<Rightarrow> [] | Inr desc' \<Rightarrow> chain_data m desc' rest) else [])"

fun tx_payload :: "guest_mem \<Rightarrow> desc_chain \<Rightarrow> u8 list" where
  "tx_payload m (Inr head # Inr desc # rest) =
    (if d_has_next head then chain_data m desc rest
     else drop VSOCK_PKT_HDR_SIZE (mem_bytes m (d_addr head) (unat (d_len head))))"
| "tx_payload m (Inr head # _) = drop VSOCK_PKT_HDR_SIZE (mem_bytes m (d_addr head) (unat (d_len head)))"
| "tx_payload m _ = []"

lemma tx_gather_one_data:
  assumes "tx_gather_one m tot desc offset owned = Inr (offset', owned')" "length owned = tot" "offset \<le> tot"
  shows "offset' = min tot (offset + unat (d_len desc))" "length owned' = tot"
    "take offset' owned' = take offset owned @ take (tot - offset) (mem_bytes m (d_addr desc) (unat (d_len desc)))"
proof -
  let ?n = "unat (d_len desc)"
  have "offset' = min tot (offset + ?n) \<and> length owned' = tot \<and>
    take offset' owned' = take offset owned @ take (tot - offset) (mem_bytes m (d_addr desc) ?n)"
  proof (cases "0 < ?n \<and> offset < tot")
    case True
    then have "offset' = offset + min ?n (tot - offset)"
      "owned' = splice owned offset (mem_bytes m (d_addr desc) (min ?n (tot - offset)))"
      using assms(1) by (auto simp: tx_gather_one_def Let_def split: if_splits)
    then show ?thesis using assms(2,3) True
      by (auto simp: take_mem_bytes splice_def min_def)
  next
    case False
    then have "offset' = offset" "owned' = owned" using assms(1) by (auto simp: tx_gather_one_def Let_def split: if_splits)
    then show ?thesis using assms(2,3) False by (auto simp: mem_bytes_def)
  qed
  then show "offset' = min tot (offset + ?n)" "length owned' = tot"
    "take offset' owned' = take offset owned @ take (tot - offset) (mem_bytes m (d_addr desc) ?n)" by blast+
qed

lemma tx_gather_data:
  assumes "tx_gather m tot desc rest offset owned = Inr (offset', owned')" "length owned = tot" "offset \<le> tot"
  shows "offset' \<le> tot \<and> length owned' = tot \<and>
    take offset' owned' = take offset owned @ take (tot - offset) (chain_data m desc rest)"
  using assms
proof (induction m tot desc rest offset owned rule: tx_gather.induct)
  case (1 m tot desc offset owned)
  then show ?case
    using tx_gather_one_data [of m tot desc offset owned offset' owned'] by (auto split: sum.splits if_splits)
next
  case (2 m tot desc nxt rest offset owned)
  obtain o1 w1 where one: "tx_gather_one m tot desc offset owned = Inr (o1, w1)"
    using "2.prems"(1) by (auto split: sum.splits)
  note d = tx_gather_one_data [OF one "2.prems"(2,3)]
  show ?case
  proof (cases "d_has_next desc")
    case False
    then show ?thesis using one "2.prems" d by auto
  next
    case True
    then obtain desc' where nxt: "nxt = Inr desc'" "tx_gather m tot desc' rest o1 w1 = Inr (offset', owned')"
      using "2.prems"(1) one by (auto split: sum.splits)
    have "offset' \<le> tot \<and> length owned' = tot \<and>
        take offset' owned' = take o1 w1 @ take (tot - o1) (chain_data m desc' rest)"
      using "2.IH" [OF one refl True nxt(1) nxt(2) d(2)] d(1) by simp
    then show ?thesis using True nxt(1) d(1,3) by (simp add: min_def)
  qed
qed

lemma tx_packet_buffer_data:
  assumes "tx_packet_buffer m head rest tot = Inr pb"
  shows "pb_len pb = tot \<and> pb_bytes m pb = take tot (tx_payload m (Inr head # rest))"
proof (cases "d_has_next head")
  case False
  have "tx_payload m (Inr head # rest) = drop 44 (mem_bytes m (d_addr head) (unat (d_len head)))"
    using False by (cases "(m, Inr head # rest :: desc_chain)" rule: tx_payload.cases) (auto simp: VSOCK_PKT_HDR_SIZE_def)
  then show ?thesis using assms False
    by (auto simp: tx_packet_buffer_def pb_guest_def VSOCK_PKT_HDR_SIZE_def drop_mem_bytes take_mem_bytes
        split: if_splits option.splits)
next
  case True
  then obtain desc rest' where rest: "rest = Inr desc # rest'" "\<not> d_write_only desc"
    using assms by (auto simp: tx_packet_buffer_def split: list.splits sum.splits if_splits)
  have payload: "tx_payload m (Inr head # rest) = chain_data m desc rest'" using True rest by simp
  show ?thesis
  proof (cases "d_has_next desc")
    case more: True
    then obtain off owned where g: "tx_gather m tot desc rest' 0 (replicate tot 0) = Inr (off, owned)"
      "\<not> off < tot" "pb = OwnedBuf owned"
      using assms True rest by (auto simp: tx_packet_buffer_def split: sum.splits if_splits)
    from tx_gather_data [OF g(1)] g(2,3) show ?thesis by (auto simp: payload)
  next
    case False
    then have "chain_data m desc rest' = mem_bytes m (d_addr desc) (unat (d_len desc))" by (cases rest') simp_all
    then show ?thesis using assms True False rest
      by (auto simp: payload tx_packet_buffer_def pb_guest_def take_mem_bytes split: if_splits)
  qed
qed

text \<open>
  C18: A packet built from a transmit chain carries exactly the guest's data.  If
  \<open>from_tx_virtq_head\<close> accepts a chain, the header is the first 44 bytes of its head, a packet of
  length 0 has no buffer, and any other packet has at most 64 KiB, a buffer of exactly the length the
  header says, and in it the first bytes of the payload of the chain, however the chain splits
  them over descriptors.
\<close>
theorem tx_packet_data:
  assumes "from_tx_virtq_head B m chain = Inr pkt"
  shows "\<exists>head rest. chain = Inr head # rest \<and> \<not> d_write_only head \<and> hdr pkt = mem_bytes m (d_addr head) 44
    \<and> (pkt_len B pkt = 0 \<longrightarrow> pkt_buf pkt = None)
    \<and> (pkt_len B pkt \<noteq> 0 \<longrightarrow> unat (pkt_len B pkt) \<le> 65536 \<and>
        (\<exists>pb. pkt_buf pkt = Some pb \<and> pb_len pb = unat (pkt_len B pkt)
            \<and> pb_bytes m pb = take (unat (pkt_len B pkt)) (tx_payload m chain)))"
proof -
  obtain head rest where chain: "chain = Inr head # rest" "\<not> d_write_only head"
    using assms by (auto simp: from_tx_virtq_head_def split: list.splits sum.splits if_splits)
  define p0 where "p0 = \<lparr> guest_hdr_addr = d_addr head, hdr = mem_bytes m (d_addr head) 44, pkt_buf = None \<rparr>"
  have r: "(if pkt_is_empty B p0 then Inr p0 else if of_nat MAX_PKT_BUF_SIZE < pkt_len B p0 then Inl (InvalidPktLen (pkt_len B p0))
      else case tx_packet_buffer m head rest (unat (pkt_len B p0)) of Inl e \<Rightarrow> Inl e | Inr pb \<Rightarrow> Inr (p0\<lparr> pkt_buf := Some pb \<rparr>)) = Inr pkt"
    using assms chain by (auto simp: from_tx_virtq_head_def p0_def [symmetric] VSOCK_PKT_HDR_SIZE_def Let_def split: if_splits)
  have len: "pkt_len B pkt = pkt_len B p0" "hdr pkt = hdr p0"
    using r by (auto simp: pkt_len_def split: if_splits sum.splits)
  show ?thesis
  proof (cases "pkt_is_empty B p0")
    case True
    then have "pkt = p0" "pkt_len B p0 = 0" using r by (simp_all add: pkt_is_empty_def)
    then show ?thesis using chain len by (simp add: p0_def)
  next
    case False
    then obtain pb where pb: "tx_packet_buffer m head rest (unat (pkt_len B p0)) = Inr pb" "pkt = p0\<lparr> pkt_buf := Some pb \<rparr>"
      "\<not> of_nat MAX_PKT_BUF_SIZE < pkt_len B p0"
      using r by (auto split: if_splits sum.splits)
    have "unat (pkt_len B p0) \<le> 65536" using pb(3) by (simp add: MAX_PKT_BUF_SIZE_def not_less word_le_nat_alt)
    then show ?thesis using False pb(2) tx_packet_buffer_data [OF pb(1)] chain len by (simp add: pkt_is_empty_def p0_def)
  qed
qed

text \<open>A header with length 3 at address 0, and its data in two descriptors.\<close>

definition ex_mem :: guest_mem where
  "ex_mem = \<lparr> gm_bytes = (\<lambda>a. if a = 24 then 3 else if 100 \<le> a then ucast a else 0), gm_slice = (\<lambda>_ _. True),
     gm_read_ok = (\<lambda>_ _. True), gm_write_ok = (\<lambda>_ _. True) \<rparr>"

definition ex_chain :: desc_chain where
  "ex_chain = [Inr \<lparr> d_addr = 0, d_len = 44, d_write_only = False, d_has_next = True \<rparr>,
     Inr \<lparr> d_addr = 100, d_len = 2, d_write_only = False, d_has_next = True \<rparr>,
     Inr \<lparr> d_addr = 200, d_len = 5, d_write_only = False, d_has_next = False \<rparr>]"

lemma ex_len: "pkt_len std_le \<lparr> guest_hdr_addr = 0, hdr = mem_bytes ex_mem 0 44, pkt_buf = b \<rparr> = 3"
proof -
  have "mem_bytes ex_mem 24 4 = [3, 0, 0, 0]" by (simp add: mem_bytes_def ex_mem_def upt_rec)
  then show ?thesis by (simp add: pkt_len_def get32_def HDROFF_LEN_def drop_mem_bytes take_mem_bytes std_le_def)
qed

lemma ex_chain_accepted:
  "case from_tx_virtq_head std_le ex_mem ex_chain of Inl _ \<Rightarrow> False | Inr pkt \<Rightarrow> pkt_len std_le pkt = 3"
proof -
  have m: "gm_read_ok ex_mem = (\<lambda>_ _. True)" by (simp add: ex_mem_def)
  show ?thesis
    by (simp add: from_tx_virtq_head_def ex_chain_def VSOCK_PKT_HDR_SIZE_def MAX_PKT_BUF_SIZE_def pkt_is_empty_def
        ex_len m tx_packet_buffer_def tx_gather_one_def Let_def)
qed

theorem tx_packet_data_witness:
  "\<exists>pkt pb. from_tx_virtq_head std_le ex_mem ex_chain = Inr pkt \<and> pkt_len std_le pkt = 3
    \<and> pkt_buf pkt = Some pb \<and> pb_bytes ex_mem pb = take 3 (tx_payload ex_mem ex_chain)"
proof -
  obtain pkt where pkt: "from_tx_virtq_head std_le ex_mem ex_chain = Inr pkt" "pkt_len std_le pkt = 3"
    using ex_chain_accepted by (cases "from_tx_virtq_head std_le ex_mem ex_chain") auto
  then show ?thesis using tx_packet_data [OF pkt(1)] by auto
qed

section \<open>The packet as a source\<close>

text \<open>What is used of guest memory: a slice lies inside one region, so its parts are slices too and its
  addresses do not wrap.\<close>

definition mem_ok :: "guest_mem \<Rightarrow> bool" where
  "mem_ok m \<longleftrightarrow> (\<forall>a n i k. gm_slice m a n \<longrightarrow> i + k \<le> n \<longrightarrow> gm_slice m (a + of_nat i) k)
    \<and> (\<forall>a n. gm_slice m a n \<longrightarrow> unat a + n \<le> 2 ^ 64)"

text \<open>A packet whose buffer is usable.\<close>

definition pkt_ok :: "guest_mem \<Rightarrow> vsock_packet \<Rightarrow> bool" where
  "pkt_ok m pkt \<longleftrightarrow> (case pkt_buf pkt of
       None \<Rightarrow> True
     | Some (GuestBuf a n) \<Rightarrow> gm_slice m a n \<and> n < 2 ^ 64
     | Some (OwnedBuf b) \<Rightarrow> length b < 2 ^ 64)"

definition pkt_bytes :: "guest_mem \<Rightarrow> vsock_packet \<Rightarrow> u8 list" where
  "pkt_bytes m pkt = (case pkt_buf pkt of None \<Rightarrow> [] | Some pb \<Rightarrow> pb_bytes m pb)"

lemma pb_check_range_ok:
  "pb_len pb < 2 ^ 64 \<Longrightarrow> offset + n \<le> pb_len pb \<Longrightarrow> pb_check_range pb offset n = Inr ()"
  "pb_len pb < offset + n \<Longrightarrow> \<exists>e. pb_check_range pb offset n = Inl e"
  by (auto simp: pb_check_range_def)

lemma guest_part:
  assumes "mem_ok m" "gm_slice m a n" "offset + k \<le> n" "0 < k" "n < 2 ^ 64"
  shows "pb_guest_addr a offset = Inr (a + of_nat offset)" "gm_slice m (a + of_nat offset) k"
    "mem_bytes m (a + of_nat offset) k = take k (drop offset (mem_bytes m a n))"
proof -
  have "unat a + n \<le> 2 ^ 64" "gm_slice m (a + of_nat offset) k" using assms unfolding mem_ok_def by blast+
  moreover have "unat (of_nat offset :: u64) = offset" using assms by (simp add: unat_of_nat)
  ultimately show "pb_guest_addr a offset = Inr (a + of_nat offset)" "gm_slice m (a + of_nat offset) k"
    "mem_bytes m (a + of_nat offset) k = take k (drop offset (mem_bytes m a n))"
    using assms by (simp_all add: pb_guest_addr_def checked_add_def drop_mem_bytes take_mem_bytes)
qed

lemma copy_buf_ok:
  assumes "mem_ok m" "pkt_ok m pkt"
  shows "if offset + n \<le> length (pkt_bytes m pkt)
    then copy_buf_to_slice m pkt offset n = Inr (take n (drop offset (pkt_bytes m pkt))) \<or> pkt_buf pkt = None
    else \<exists>e. copy_buf_to_slice m pkt offset n = Inl e"
proof (cases "pkt_buf pkt")
  case None
  then show ?thesis by (simp add: copy_buf_to_slice_def)
next
  case (Some pb)
  have len: "pb_len pb < 2 ^ 64" using assms(2) Some by (cases pb) (simp_all add: pkt_ok_def)
  show ?thesis
  proof (cases "offset + n \<le> pb_len pb")
    case False
    then show ?thesis using Some pb_check_range_ok(2) [of pb offset n]
      by (auto simp: copy_buf_to_slice_def pb_copy_to_slice_def pkt_bytes_def)
  next
    case True
    note range = pb_check_range_ok(1) [OF len True]
    show ?thesis
    proof (cases pb)
      case (GuestBuf a k)
      have "0 < n \<Longrightarrow> pb_guest_addr a offset = Inr (a + of_nat offset) \<and> gm_slice m (a + of_nat offset) n
          \<and> mem_bytes m (a + of_nat offset) n = take n (drop offset (mem_bytes m a k))"
        using guest_part [OF assms(1), of a k offset n] assms(2) Some GuestBuf True by (simp add: pkt_ok_def)
      then show ?thesis using Some GuestBuf range True
        by (simp add: copy_buf_to_slice_def pb_copy_to_slice_def pkt_bytes_def)
    next
      case (OwnedBuf b)
      then show ?thesis using Some range True by (simp add: copy_buf_to_slice_def pb_copy_to_slice_def pkt_bytes_def)
    qed
  qed
qed

lemma pkt_source_ok:
  assumes "mem_ok m" "pkt_ok m pkt" "has_buf pkt"
  shows "source_ok (pkt_copy_to_tx_buf m pkt) (pkt_bytes m pkt)"
proof -
  have "length (pkt_bytes m pkt) < 2 ^ 64"
    using assms(2) by (auto simp: pkt_ok_def pkt_bytes_def split: option.splits packet_buffer.splits)
  moreover have "length (snd (pkt_copy_to_tx_buf m pkt off dst)) = length dst
      \<and> (if off + length dst \<le> length (pkt_bytes m pkt)
         then pkt_copy_to_tx_buf m pkt off dst = (Inr (), take (length dst) (drop off (pkt_bytes m pkt)))
         else fst (pkt_copy_to_tx_buf m pkt off dst) \<noteq> Inr ())" for off dst
    using copy_buf_ok [OF assms(1,2), of off "length dst"] assms(3)
    by (auto simp: pkt_copy_to_tx_buf_def has_buf_def split: if_splits)
  ultimately show ?thesis unfolding source_ok_def by blast
qed

end
