(* ===== verification/VsockConn.thy ===== *)
theory VsockConn
  imports VsockPacket
begin

text \<open>
  \<^verbatim>\<open>virtio-devices/src/vsock/csm/connection.rs\<close> and \<^verbatim>\<open>csm/mod.rs\<close>: the state machine of a vsock
  connection, which moves data between a guest socket and a host stream under credit-based flow
  control.  The host stream is a parameter (\<open>stream_ops\<close>), the present time an argument, and a set of
  epoll events a set of flags.
\<close>

section \<open>Model\<close>

definition CONN_CREDIT_UPDATE_THRESHOLD :: u32 where "CONN_CREDIT_UPDATE_THRESHOLD = 4 * 1024"
definition CONN_REQUEST_TIMEOUT_MS :: nat where "CONN_REQUEST_TIMEOUT_MS = 2000"
definition CONN_SHUTDOWN_TIMEOUT_MS :: nat where "CONN_SHUTDOWN_TIMEOUT_MS = 2000"

datatype conn_state = LocalInit | PeerInit | Established | LocalClosed bool bool | PeerClosed bool bool | Killed

datatype pending_rx_item = PrxRequest | PrxResponse | PrxRst | PrxRw | PrxCreditUpdate

fun into_mask :: "pending_rx_item \<Rightarrow> u16" where
  "into_mask PrxRequest = push_bit 0 1"
| "into_mask PrxResponse = push_bit 1 1"
| "into_mask PrxRst = push_bit 2 1"
| "into_mask PrxRw = push_bit 3 1"
| "into_mask PrxCreditUpdate = push_bit 4 1"

definition prx_insert :: "pending_rx_item \<Rightarrow> u16 \<Rightarrow> u16" where
  "prx_insert it data = data OR into_mask it"

definition prx_contains :: "pending_rx_item \<Rightarrow> u16 \<Rightarrow> bool" where
  "prx_contains it data \<longleftrightarrow> data AND into_mask it \<noteq> 0"

definition prx_remove :: "pending_rx_item \<Rightarrow> u16 \<Rightarrow> bool \<times> u16" where
  "prx_remove it data = (prx_contains it data, data AND NOT (into_mask it))"

definition prx_is_empty :: "u16 \<Rightarrow> bool" where
  "prx_is_empty data \<longleftrightarrow> data = 0"

definition prx_from :: "pending_rx_item \<Rightarrow> u16" where
  "prx_from it = into_mask it"

datatype epoll_flag = EPOLLIN | EPOLLOUT | EPOLLHUP

record 's vsock_conn =
  c_state :: conn_state
  c_local_cid :: u64
  c_peer_cid :: u64
  c_local_port :: u32
  c_peer_port :: u32
  c_stream :: 's
  c_tx_buf :: txbuf
  c_fwd_cnt :: u32
  c_peer_buf_alloc :: u32
  c_peer_fwd_cnt :: u32
  c_rx_cnt :: u32
  c_last_fwd_cnt_to_peer :: u32
  c_pending_rx :: u16
  c_expiry :: "nat option"
  c_host_write_shutdown :: bool
  c_host_hung_up :: bool

definition new_peer_init :: "'s \<Rightarrow> u64 \<Rightarrow> u64 \<Rightarrow> u32 \<Rightarrow> u32 \<Rightarrow> u32 \<Rightarrow> 's vsock_conn" where
  "new_peer_init stream local_cid peer_cid local_port peer_port peer_buf_alloc =
    \<lparr> c_state = PeerInit, c_local_cid = local_cid, c_peer_cid = peer_cid, c_local_port = local_port,
      c_peer_port = peer_port, c_stream = stream, c_tx_buf = txbuf_new, c_fwd_cnt = 0,
      c_peer_buf_alloc = peer_buf_alloc, c_peer_fwd_cnt = 0, c_rx_cnt = 0, c_last_fwd_cnt_to_peer = 0,
      c_pending_rx = prx_from PrxResponse, c_expiry = None, c_host_write_shutdown = False,
      c_host_hung_up = False \<rparr>"

definition new_local_init :: "'s \<Rightarrow> u64 \<Rightarrow> u64 \<Rightarrow> u32 \<Rightarrow> u32 \<Rightarrow> 's vsock_conn" where
  "new_local_init stream local_cid peer_cid local_port peer_port =
    \<lparr> c_state = LocalInit, c_local_cid = local_cid, c_peer_cid = peer_cid, c_local_port = local_port,
      c_peer_port = peer_port, c_stream = stream, c_tx_buf = txbuf_new, c_fwd_cnt = 0,
      c_peer_buf_alloc = 0, c_peer_fwd_cnt = 0, c_rx_cnt = 0, c_last_fwd_cnt_to_peer = 0,
      c_pending_rx = prx_from PrxRequest, c_expiry = None, c_host_write_shutdown = False,
      c_host_hung_up = False \<rparr>"

definition will_expire :: "nat \<Rightarrow> 's vsock_conn \<Rightarrow> bool" where
  "will_expire now c = (case c_expiry c of None \<Rightarrow> False | Some t \<Rightarrow> now < t)"

definition has_expired :: "nat \<Rightarrow> 's vsock_conn \<Rightarrow> bool" where
  "has_expired now c = (case c_expiry c of None \<Rightarrow> False | Some t \<Rightarrow> t \<le> now)"

definition has_pending_rx :: "'s vsock_conn \<Rightarrow> bool" where
  "has_pending_rx c \<longleftrightarrow> \<not> prx_is_empty (c_pending_rx c)"

definition add_pending :: "pending_rx_item \<Rightarrow> 's vsock_conn \<Rightarrow> 's vsock_conn" where
  "add_pending it c = c\<lparr> c_pending_rx := prx_insert it (c_pending_rx c) \<rparr>"

definition conn_kill :: "'s vsock_conn \<Rightarrow> 's vsock_conn" where
  "conn_kill c = add_pending PrxRst (c\<lparr> c_state := Killed \<rparr>)"

definition peer_avail_credit :: "'s vsock_conn \<Rightarrow> nat" where
  "peer_avail_credit c = unat (c_peer_buf_alloc c - (c_rx_cnt c - c_peer_fwd_cnt c))"

definition need_credit_update_from_peer :: "'s vsock_conn \<Rightarrow> bool" where
  "need_credit_update_from_peer c \<longleftrightarrow> peer_avail_credit c = 0"

definition peer_needs_credit_update :: "'s vsock_conn \<Rightarrow> bool" where
  "peer_needs_credit_update c \<longleftrightarrow>
    CONN_TX_BUF_SIZE - (c_fwd_cnt c - c_last_fwd_cnt_to_peer c) < CONN_CREDIT_UPDATE_THRESHOLD"

definition init_pkt :: "byteorder_ops \<Rightarrow> 's vsock_conn \<Rightarrow> vsock_packet \<Rightarrow> vsock_packet" where
  "init_pkt B c pkt =
    (let pkt = pkt\<lparr> hdr := map (\<lambda>_. 0) (hdr pkt) \<rparr> in
     set_fwd_cnt B (c_fwd_cnt c) (set_buf_alloc B CONN_TX_BUF_SIZE (set_type B VSOCK_TYPE_STREAM
       (set_dst_port B (c_peer_port c) (set_src_port B (c_local_port c)
         (set_dst_cid B (c_peer_cid c) (set_src_cid B (c_local_cid c) pkt)))))))"

definition shutdown_host_write_side :: "'s stream_ops \<Rightarrow> 's vsock_conn \<Rightarrow> 's vsock_conn" where
  "shutdown_host_write_side S c =
    (if c_host_write_shutdown c \<or> \<not> txbuf_is_empty (c_tx_buf c) then c
     else c\<lparr> c_stream := snd (st_shutdown_wr S (c_stream c)), c_host_write_shutdown := True \<rparr>)"

definition arm_kill_timer :: "nat \<Rightarrow> 's vsock_conn \<Rightarrow> 's vsock_conn" where
  "arm_kill_timer now c = c\<lparr> c_expiry := Some (now + CONN_SHUTDOWN_TIMEOUT_MS) \<rparr>"

definition send_bytes_raw :: "'s stream_ops \<Rightarrow> u8 list \<Rightarrow> 's vsock_conn \<Rightarrow> ((csm_error + nat) \<times> 's vsock_conn) option" where
  "send_bytes_raw S buf c =
    map_option (\<lambda>(r, s). (map_sum StreamWrite id r, c\<lparr> c_stream := s \<rparr>)) (w_write (st_writer S) buf (c_stream c))"

definition buffer_pkt_bytes ::
  "guest_mem \<Rightarrow> vsock_packet \<Rightarrow> nat \<Rightarrow> nat \<Rightarrow> 's vsock_conn \<Rightarrow> (csm_error + unit) \<times> 's vsock_conn" where
  "buffer_pkt_bytes m pkt offset len c =
    (case push_from (pkt_copy_to_tx_buf m pkt) offset len (c_tx_buf c) of (r, tb) \<Rightarrow> (r, c\<lparr> c_tx_buf := tb \<rparr>))"

definition send_pkt_bytes ::
  "byteorder_ops \<Rightarrow> 's stream_ops \<Rightarrow> guest_mem \<Rightarrow> vsock_packet \<Rightarrow> 's vsock_conn
    \<Rightarrow> ((csm_error + unit) \<times> 's vsock_conn) option" where
  "send_pkt_bytes B S m pkt c =
    (let len = unat (pkt_len B pkt) in
     if \<not> txbuf_is_empty (c_tx_buf c) then Some (buffer_pkt_bytes m pkt 0 len c)
     else case write_volatile_to S m pkt 0 len (c_stream c) of
       None \<Rightarrow> None
     | Some (r, s) \<Rightarrow>
         let c = c\<lparr> c_stream := s \<rparr> in
         (case (case r of Inr cnt \<Rightarrow> Inr cnt | Inl e \<Rightarrow> if e = WouldBlock then Inr 0 else Inl (StreamWrite e)) of
            Inl e \<Rightarrow> Some (Inl e, c)
          | Inr written \<Rightarrow>
              let c = c\<lparr> c_fwd_cnt := c_fwd_cnt c + of_nat written \<rparr> in
              if written < len then Some (buffer_pkt_bytes m pkt written (len - written) c)
              else Some (Inr (), c)))"

subsection \<open>Packets from the guest\<close>

fun accepts_data :: "conn_state \<Rightarrow> bool" where
  "accepts_data Established = True"
| "accepts_data (PeerClosed _ send_off) = (\<not> send_off)"
| "accepts_data (LocalClosed recv_off _) = (\<not> recv_off)"
| "accepts_data _ = False"

fun accepts_credit_request :: "conn_state \<Rightarrow> bool" where
  "accepts_credit_request PeerInit = True"
| "accepts_credit_request st = accepts_data st"

definition send_rw ::
  "byteorder_ops \<Rightarrow> 's stream_ops \<Rightarrow> guest_mem \<Rightarrow> vsock_packet \<Rightarrow> 's vsock_conn \<Rightarrow> 's vsock_conn option" where
  "send_rw B S m pkt c =
    (if \<not> has_buf pkt then Some c
     else case send_pkt_bytes B S m pkt c of
       None \<Rightarrow> None
     | Some (Inl _, c) \<Rightarrow> Some (conn_kill c)
     | Some (Inr _, c) \<Rightarrow> Some (if peer_needs_credit_update c then add_pending PrxCreditUpdate c else c))"

definition send_shutdown ::
  "byteorder_ops \<Rightarrow> 's stream_ops \<Rightarrow> nat \<Rightarrow> vsock_packet \<Rightarrow> 's vsock_conn \<Rightarrow> 's vsock_conn" where
  "send_shutdown B S now pkt c =
    (let rcv = pkt_flags B pkt AND VSOCK_FLAGS_SHUTDOWN_RCV \<noteq> 0;
         snd_off = pkt_flags B pkt AND VSOCK_FLAGS_SHUTDOWN_SEND \<noteq> 0
     in case c_state c of
          Established \<Rightarrow>
            let c = c\<lparr> c_state := PeerClosed rcv snd_off \<rparr> in
            if rcv \<and> snd_off
            then if txbuf_is_empty (c_tx_buf c) then add_pending PrxRst c else arm_kill_timer now c
            else if snd_off then shutdown_host_write_side S c
            else c
        | PeerClosed recv_off send_off \<Rightarrow>
            let recv_off = recv_off \<or> rcv;
                new_send_off = send_off \<or> snd_off;
                c = c\<lparr> c_state := PeerClosed recv_off new_send_off \<rparr>
            in if recv_off \<and> new_send_off \<and> txbuf_is_empty (c_tx_buf c) then add_pending PrxRst c
               else if new_send_off \<and> \<not> send_off then shutdown_host_write_side S c
               else c
        | LocalClosed _ _ \<Rightarrow>
            if snd_off
            then let c = c\<lparr> c_state := PeerClosed True True \<rparr> in
                 if txbuf_is_empty (c_tx_buf c) then add_pending PrxRst c else arm_kill_timer now c
            else c
        | _ \<Rightarrow> c)"

definition conn_send_pkt ::
  "byteorder_ops \<Rightarrow> 's stream_ops \<Rightarrow> nat \<Rightarrow> guest_mem \<Rightarrow> vsock_packet \<Rightarrow> 's vsock_conn \<Rightarrow> 's vsock_conn option" where
  "conn_send_pkt B S now m pkt c =
    (let c = c\<lparr> c_peer_buf_alloc := buf_alloc B pkt, c_peer_fwd_cnt := pkt_fwd_cnt B pkt \<rparr>;
         oper = pkt_op B pkt
     in if accepts_data (c_state c) \<and> oper = VSOCK_OP_RW then send_rw B S m pkt c
        else if c_state c = LocalInit \<and> oper = VSOCK_OP_RESPONSE
        then Some (c\<lparr> c_expiry := None, c_state := Established \<rparr>)
        else if oper = VSOCK_OP_SHUTDOWN then Some (send_shutdown B S now pkt c)
        else if accepts_credit_request (c_state c) \<and> oper = VSOCK_OP_CREDIT_REQUEST
        then Some (add_pending PrxCreditUpdate c)
        else Some c)"

subsection \<open>Packets for the guest\<close>

text \<open>The host stream has reached its end.\<close>

definition recv_eof ::
  "byteorder_ops \<Rightarrow> nat \<Rightarrow> vsock_packet \<Rightarrow> 's vsock_conn \<Rightarrow> vsock_packet \<times> 's vsock_conn" where
  "recv_eof B now pkt c =
    (if c_host_hung_up c
     then (set_flag B VSOCK_FLAGS_SHUTDOWN_SEND (set_flag B VSOCK_FLAGS_SHUTDOWN_RCV (set_op B VSOCK_OP_SHUTDOWN pkt)),
           arm_kill_timer now (c\<lparr> c_state := LocalClosed True True \<rparr>))
     else case c_state c of
       PeerClosed _ True \<Rightarrow>
         let c = c\<lparr> c_state := PeerClosed True True \<rparr> in
         if txbuf_is_empty (c_tx_buf c) then (set_op B VSOCK_OP_RST pkt, c)
         else (set_flag B VSOCK_FLAGS_SHUTDOWN_SEND (set_op B VSOCK_OP_SHUTDOWN pkt), arm_kill_timer now c)
     | _ \<Rightarrow>
         (set_flag B VSOCK_FLAGS_SHUTDOWN_SEND (set_op B VSOCK_OP_SHUTDOWN pkt),
          c\<lparr> c_state := LocalClosed False True \<rparr>))"

definition can_read :: "'s vsock_conn \<Rightarrow> bool" where
  "can_read c = (case c_state c of
       Established \<Rightarrow> True
     | PeerClosed recv_off _ \<Rightarrow> \<not> recv_off
     | LocalClosed _ send_off \<Rightarrow> send_off \<and> c_host_hung_up c
     | _ \<Rightarrow> False)"

definition host_send_closed :: "conn_state \<Rightarrow> bool" where
  "host_send_closed st = (case st of LocalClosed _ send_off \<Rightarrow> send_off | _ \<Rightarrow> False)"

text \<open>The data packet of a readable stream; the result \<open>None\<close> falls through to the credit update.\<close>

definition recv_rw ::
  "byteorder_ops \<Rightarrow> 's stream_ops \<Rightarrow> nat \<Rightarrow> vsock_packet \<Rightarrow> guest_mem \<Rightarrow> 's vsock_conn
    \<Rightarrow> ((vsock_error + unit) option \<times> vsock_packet \<times> guest_mem \<times> 's vsock_conn) option" where
  "recv_rw B S now pkt m c =
    (if \<not> can_read c then Some (Some (Inr ()), set_op B VSOCK_OP_RST pkt, m, c)
     else if need_credit_update_from_peer c \<and> \<not> host_send_closed (c_state c)
     then Some (Some (Inr ()), set_op B VSOCK_OP_CREDIT_REQUEST pkt, m, c\<lparr> c_last_fwd_cnt_to_peer := c_fwd_cnt c \<rparr>)
     else case buf_capacity pkt of
       None \<Rightarrow> Some (Some (Inl PktBufMissing), pkt, m, c)
     | Some capacity \<Rightarrow>
         (case read_volatile_from S (min capacity (peer_avail_credit c)) pkt m (c_stream c) of
            None \<Rightarrow> None
          | Some (r, pkt, m, s) \<Rightarrow>
              let c = c\<lparr> c_stream := s \<rparr> in
              (case r of
                 Inr read_cnt \<Rightarrow>
                   let (pkt, c) = (if read_cnt = 0 then recv_eof B now pkt c
                                   else (set_len B (of_nat read_cnt) (set_op B VSOCK_OP_RW pkt), c))
                   in Some (Some (Inr ()), pkt, m,
                        c\<lparr> c_rx_cnt := c_rx_cnt c + pkt_len B pkt, c_last_fwd_cnt_to_peer := c_fwd_cnt c \<rparr>)
               | Inl e \<Rightarrow>
                   if e = WouldBlock then Some (None, pkt, m, c)
                   else Some (Some (Inr ()), set_op B VSOCK_OP_RST pkt, m, c\<lparr> c_last_fwd_cnt_to_peer := c_fwd_cnt c \<rparr>))))"

definition take_pending :: "pending_rx_item \<Rightarrow> 's vsock_conn \<Rightarrow> bool \<times> 's vsock_conn" where
  "take_pending it c = (case prx_remove it (c_pending_rx c) of (b, d) \<Rightarrow> (b, c\<lparr> c_pending_rx := d \<rparr>))"

definition recv_credit_update ::
  "byteorder_ops \<Rightarrow> vsock_packet \<Rightarrow> 's vsock_conn \<Rightarrow> (vsock_error + unit) \<times> vsock_packet \<times> 's vsock_conn" where
  "recv_credit_update B pkt c =
    (case take_pending PrxCreditUpdate c of
       (b, c) \<Rightarrow>
         if b \<and> \<not> has_pending_rx c
         then (Inr (), set_op B VSOCK_OP_CREDIT_UPDATE pkt, c\<lparr> c_last_fwd_cnt_to_peer := c_fwd_cnt c \<rparr>)
         else (Inl NoData, pkt, c))"

definition conn_recv_pkt ::
  "byteorder_ops \<Rightarrow> 's stream_ops \<Rightarrow> nat \<Rightarrow> vsock_packet \<Rightarrow> guest_mem \<Rightarrow> 's vsock_conn
    \<Rightarrow> ((vsock_error + unit) \<times> vsock_packet \<times> guest_mem \<times> 's vsock_conn) option" where
  "conn_recv_pkt B S now pkt m c =
    (let pkt = init_pkt B c pkt;
         (rst, c) = take_pending PrxRst c
     in if rst then Some (Inr (), set_op B VSOCK_OP_RST pkt, m, c)
        else
          let (response, c) = take_pending PrxResponse c in
          if response then Some (Inr (), set_op B VSOCK_OP_RESPONSE pkt, m, c\<lparr> c_state := Established \<rparr>)
          else
            let (request, c) = take_pending PrxRequest c in
            if request
            then Some (Inr (), set_op B VSOCK_OP_REQUEST pkt, m, c\<lparr> c_expiry := Some (now + CONN_REQUEST_TIMEOUT_MS) \<rparr>)
            else
              let (rw, c) = take_pending PrxRw c in
              (case (if rw then recv_rw B S now pkt m c else Some (None, pkt, m, c)) of
                 None \<Rightarrow> None
               | Some (Some r, pkt, m, c) \<Rightarrow> Some (r, pkt, m, c)
               | Some (None, pkt, m, c) \<Rightarrow>
                   (case recv_credit_update B pkt c of (r, pkt, c) \<Rightarrow> Some (r, pkt, m, c))))"

subsection \<open>Events of the host stream\<close>

definition get_polled_evset :: "'s vsock_conn \<Rightarrow> epoll_flag set" where
  "get_polled_evset c =
    (let evset = (if txbuf_is_empty (c_tx_buf c) then {} else {EPOLLOUT}) in
     case c_state c of
       Killed \<Rightarrow> evset
     | PeerClosed True _ \<Rightarrow> evset
     | LocalClosed _ True \<Rightarrow> if c_host_hung_up c then evset else insert EPOLLHUP evset
     | _ \<Rightarrow> if need_credit_update_from_peer c then evset else insert EPOLLIN evset)"

definition after_flush :: "'s stream_ops \<Rightarrow> 's vsock_conn \<Rightarrow> 's vsock_conn" where
  "after_flush S c =
    (if c_state c = PeerClosed True True \<and> txbuf_is_empty (c_tx_buf c) then add_pending PrxRst c
     else if (case c_state c of PeerClosed _ send_off \<Rightarrow> send_off | _ \<Rightarrow> False) \<and> txbuf_is_empty (c_tx_buf c)
     then shutdown_host_write_side S c
     else if peer_needs_credit_update c then add_pending PrxCreditUpdate c
     else c)"

definition notify_out :: "'s stream_ops \<Rightarrow> 's vsock_conn \<Rightarrow> 's vsock_conn option" where
  "notify_out S c =
    (if txbuf_is_empty (c_tx_buf c) then Some c
     else case flush_to (st_writer S) (c_tx_buf c) (c_stream c) of
       None \<Rightarrow> None
     | Some (r, tb, s) \<Rightarrow>
         let c = c\<lparr> c_tx_buf := tb, c_stream := s \<rparr>;
             (flushed, c) = (case r of Inr n \<Rightarrow> (n, c)
               | Inl e \<Rightarrow> (0, if e = TxBufFlush WouldBlock then c else conn_kill c))
         in Some (after_flush S (c\<lparr> c_fwd_cnt := c_fwd_cnt c + of_nat flushed \<rparr>)))"

definition conn_notify :: "'s stream_ops \<Rightarrow> epoll_flag set \<Rightarrow> 's vsock_conn \<Rightarrow> 's vsock_conn option" where
  "conn_notify S evset c =
    (let c = (if EPOLLHUP \<in> evset then add_pending PrxRw (c\<lparr> c_host_hung_up := True \<rparr>) else c);
         c = (if EPOLLIN \<in> evset then add_pending PrxRw c else c)
     in if EPOLLOUT \<in> evset then notify_out S c else Some c)"

section \<open>Pending indications\<close>

fun prx_bit :: "pending_rx_item \<Rightarrow> nat" where
  "prx_bit PrxRequest = 0"
| "prx_bit PrxResponse = 1"
| "prx_bit PrxRst = 2"
| "prx_bit PrxRw = 3"
| "prx_bit PrxCreditUpdate = 4"

lemma prx_bit_inj [simp]: "prx_bit a = prx_bit b \<longleftrightarrow> a = b" "prx_bit a < 16"
  by (cases a; cases b; simp) (cases a; simp)

lemma into_mask_bit: "into_mask it = push_bit (prx_bit it) 1"
  by (cases it) simp_all

lemma bit_into_mask [simp]: "bit (into_mask it) n \<longleftrightarrow> n = prx_bit it"
  using prx_bit_inj(2) [of it] by (auto simp: into_mask_bit bit_simps)

lemma prx_contains_bit: "prx_contains it d \<longleftrightarrow> bit d (prx_bit it)"
proof -
  have "d AND into_mask it = 0" if "\<not> bit d (prx_bit it)"
    using that by (intro bit_word_eqI) (auto simp: bit_simps)
  moreover have "\<not> bit d (prx_bit it)" if "d AND into_mask it = 0"
    using that prx_bit_inj(2) [of it] by (metis bit_0_eq bit_and_iff bit_into_mask bot_apply bot_bool_def)
  ultimately have "d AND into_mask it = 0 \<longleftrightarrow> \<not> bit d (prx_bit it)" by blast
  then show ?thesis by (simp add: prx_contains_def)
qed

lemma prx_contains_simps [simp]:
  "prx_contains it (prx_insert it' d) \<longleftrightarrow> it = it' \<or> prx_contains it d"
  "prx_contains it (snd (prx_remove it' d)) \<longleftrightarrow> it \<noteq> it' \<and> prx_contains it d"
  "prx_contains it (prx_from it') \<longleftrightarrow> it = it'"
  using prx_bit_inj(2) [of it]
  by (auto simp: prx_contains_bit prx_insert_def prx_remove_def prx_from_def bit_simps)

lemma take_pending_simps:
  "take_pending it c = (prx_contains it (c_pending_rx c), c\<lparr> c_pending_rx := snd (prx_remove it (c_pending_rx c)) \<rparr>)"
  by (simp add: take_pending_def prx_remove_def)

lemmas pending_simps = take_pending_simps add_pending_def

section \<open>The contract of the host stream\<close>

definition stream_ok :: "'s stream_ops \<Rightarrow> ('s \<Rightarrow> u8 list) \<Rightarrow> bool" where
  "stream_ok S received \<longleftrightarrow> writer_ok (st_writer S) received
    \<and> writer_ok \<lparr> w_write = st_write_volatile S, w_flush = w_flush (st_writer S) \<rparr> received
    \<and> (\<forall>n s. \<exists>r s'. st_read S n s = Some (r, s') \<and> received s' = received s \<and> (\<forall>bs. r = Inr bs \<longrightarrow> length bs \<le> n))
    \<and> (\<forall>n s. \<exists>r s'. st_read_volatile S n s = Some (r, s') \<and> received s' = received s \<and> (\<forall>bs. r = Inr bs \<longrightarrow> length bs \<le> n))
    \<and> (\<forall>s. received (snd (st_shutdown_wr S s)) = received s)"

lemma stream_ok_shutdown [simp]:
  "stream_ok S received \<Longrightarrow> received (c_stream (shutdown_host_write_side S c)) = received (c_stream c)"
  by (simp add: stream_ok_def shutdown_host_write_side_def)

lemma stream_ok_read:
  assumes "stream_ok S received"
  obtains r pkt' m' s' where "read_volatile_from S n pkt m s = Some (r, pkt', m', s')" "received s' = received s"
    "\<And>k. r = Inr k \<Longrightarrow> k \<le> n" "hdr pkt' = hdr pkt"
    "buf_capacity pkt' = buf_capacity pkt"
proof -
  obtain r1 s1 where r1: "st_read S n s = Some (r1, s1)" "received s1 = received s" "\<And>bs. r1 = Inr bs \<Longrightarrow> length bs \<le> n"
    using assms unfolding stream_ok_def by blast
  obtain r2 s2 where r2: "st_read_volatile S n s = Some (r2, s2)" "received s2 = received s" "\<And>bs. r2 = Inr bs \<Longrightarrow> length bs \<le> n"
    using assms unfolding stream_ok_def by blast
  show thesis
  proof (cases "pkt_buf pkt")
    case None
    then show thesis using that [of "Inl OtherIo" pkt m s] by (simp add: read_volatile_from_def)
  next
    case (Some pb)
    show thesis
    proof (cases "pb_check_range pb 0 n")
      case (Inl e)
      then show thesis using that [of "Inl OtherIo" pkt m s] Some
        by (simp add: read_volatile_from_def pb_read_volatile_from_def)
    next
      case (Inr u)
      then have n: "n \<le> pb_len pb" by (auto simp: pb_check_range_def split: if_splits)
      show thesis
      proof (cases pb)
        case (GuestBuf a k)
        then show thesis using that r2 Some Inr
          by (cases "gm_slice m a n"; cases r2)
            (simp_all add: read_volatile_from_def pb_read_volatile_from_def buf_capacity_def)
      next
        case (OwnedBuf b)
        then show thesis using that r1 Some Inr n
          by (cases r1) (simp_all add: read_volatile_from_def pb_read_volatile_from_def buf_capacity_def)
      qed
    qed
  qed
qed

end
