(* ===== verification/GuestStream.thy ===== *)
theory GuestStream
  imports VsockConn "HOL-Library.Sublist"
begin

text \<open>
  The data path from the guest to the host through a vsock connection: packets that are written to the host
  stream or buffered, and buffered data that is flushed when the stream is ready again.
\<close>

section \<open>Writing packets\<close>

lemma write_volatile_writes:
  assumes "stream_ok S received" "mem_ok m" "pkt_ok m pkt" "has_buf pkt" "len \<le> length (pkt_bytes m pkt)"
  shows "\<exists>W. writer_ok W received \<and> (\<forall>s. write_volatile_to S m pkt 0 len s = w_write W (take len (pkt_bytes m pkt)) s)"
proof -
  obtain pb where pb: "pkt_buf pkt = Some pb" "pkt_bytes m pkt = pb_bytes m pb"
    using assms(4) by (auto simp: has_buf_def pkt_bytes_def)
  have lt: "pb_len pb < 2 ^ 64" using assms(3) pb by (cases pb) (simp_all add: pkt_ok_def)
  have range: "pb_check_range pb 0 len = Inr ()" using lt assms(5) pb by (intro pb_check_range_ok(1)) simp_all
  show ?thesis
  proof (cases pb)
    case (GuestBuf a k)
    have k: "gm_slice m a k" "len \<le> k" using assms(3,5) pb GuestBuf by (simp_all add: pkt_ok_def)
    then have "gm_slice m (a + of_nat 0) len" using assms(2) unfolding mem_ok_def by (metis add_0)
    then have "\<forall>s. write_volatile_to S m pkt 0 len s = st_write_volatile S (take len (pkt_bytes m pkt)) s"
      using pb GuestBuf range k(2) u64_bound [of a]
      by (simp add: write_volatile_to_def pb_write_volatile_to_def pb_guest_addr_def checked_add_def take_mem_bytes min_def)
    moreover have "writer_ok \<lparr> w_write = st_write_volatile S, w_flush = w_flush (st_writer S) \<rparr> received"
      using assms(1) by (simp add: stream_ok_def)
    ultimately show ?thesis
      by (intro exI [of _ "\<lparr> w_write = st_write_volatile S, w_flush = w_flush (st_writer S) \<rparr>"]) simp
  next
    case (OwnedBuf b)
    have "\<forall>s. write_volatile_to S m pkt 0 len s = w_write (st_writer S) (take len (pkt_bytes m pkt)) s"
      using pb OwnedBuf range by (simp add: write_volatile_to_def pb_write_volatile_to_def)
    then show ?thesis using assms(1) by (auto simp: stream_ok_def)
  qed
qed

lemma stream_ok_write:
  assumes "stream_ok S received" "mem_ok m" "pkt_ok m pkt" "has_buf pkt" "len \<le> length (pkt_bytes m pkt)"
  obtains (wrote) n s' where "write_volatile_to S m pkt 0 len s = Some (Inr n, s')" "n \<le> len"
      "received s' = received s @ take n (pkt_bytes m pkt)"
  | (failed) e s' where "write_volatile_to S m pkt 0 len s = Some (Inl e, s')" "received s' = received s"
proof -
  obtain W where W: "writer_ok W received" "\<And>s. write_volatile_to S m pkt 0 len s = w_write W (take len (pkt_bytes m pkt)) s"
    using write_volatile_writes [OF assms] by blast
  from W(1) show thesis
  proof (cases rule: writer_okE [where bs = "take len (pkt_bytes m pkt)" and w = s])
    case (accept n w')
    moreover have "n \<le> len" using accept(2) by simp
    ultimately show thesis using W(2) by (intro wrote [of n w']) (simp_all add: min_absorb1)
  next
    case (refuse e w')
    then show thesis using W(2) by (intro failed [of e w']) simp_all
  qed
qed

subsection \<open>The invariant\<close>

text \<open>\<open>start\<close> is what the stream had received before, \<open>sent\<close> the data of the packets the connection accepted.\<close>

definition conn_inv :: "('s \<Rightarrow> u8 list) \<Rightarrow> u8 list \<Rightarrow> 's vsock_conn \<Rightarrow> u8 list \<Rightarrow> bool" where
  "conn_inv received start c sent \<longleftrightarrow> txbuf_wf (c_tx_buf c)
    \<and> prefix (received (c_stream c) @ contents (c_tx_buf c)) (start @ sent)
    \<and> (c_state c \<noteq> Killed \<longrightarrow> received (c_stream c) @ contents (c_tx_buf c) = start @ sent)
    \<and> (prx_contains PrxResponse (c_pending_rx c) \<longrightarrow> c_state c = PeerInit)
    \<and> (c_state c \<in> {PeerInit, LocalInit} \<longrightarrow> contents (c_tx_buf c) = [])
    \<and> length start \<le> length (received (c_stream c))
    \<and> c_fwd_cnt c = of_nat (length (received (c_stream c)) - length start)"

text \<open>Changes that leave the data and the state alone.\<close>

definition same_data :: "('s \<Rightarrow> u8 list) \<Rightarrow> 's vsock_conn \<Rightarrow> 's vsock_conn \<Rightarrow> bool" where
  "same_data received c c' \<longleftrightarrow> c_tx_buf c' = c_tx_buf c \<and> received (c_stream c') = received (c_stream c)
    \<and> c_fwd_cnt c' = c_fwd_cnt c
    \<and> (prx_contains PrxResponse (c_pending_rx c') \<longrightarrow> prx_contains PrxResponse (c_pending_rx c))"

text \<open>The connection is open for data.\<close>

definition open_state :: "conn_state \<Rightarrow> bool" where
  "open_state st \<longleftrightarrow> st \<notin> {Killed, PeerInit, LocalInit}"

lemma conn_inv_same_data:
  assumes "conn_inv received start c sent" "same_data received c c'"
    "c_state c' = c_state c \<or> open_state (c_state c) \<and> c_state c' \<notin> {PeerInit, LocalInit}
      \<or> c_state c \<noteq> Killed \<and> open_state (c_state c') \<and> \<not> prx_contains PrxResponse (c_pending_rx c')"
  shows "conn_inv received start c' sent"
  using assms unfolding conn_inv_def same_data_def open_state_def by auto

lemma same_data_trans: "same_data received a b \<Longrightarrow> same_data received b c \<Longrightarrow> same_data received a c"
  by (auto simp: same_data_def)

lemma same_data_add_pending [simp]: "it \<noteq> PrxResponse \<Longrightarrow> same_data received c (add_pending it c)"
  by (auto simp: same_data_def add_pending_def)

lemma same_data_shutdown [simp]: "stream_ok S received \<Longrightarrow> same_data received c (shutdown_host_write_side S c)"
  by (simp add: same_data_def) (simp add: shutdown_host_write_side_def)

lemma state_frames [simp]:
  "c_state (add_pending it c) = c_state c" "c_state (shutdown_host_write_side S c) = c_state c"
  "c_state (arm_kill_timer now c) = c_state c" "c_state (conn_kill c) = Killed"
  by (simp_all add: add_pending_def shutdown_host_write_side_def arm_kill_timer_def conn_kill_def)

lemma push_from_result:
  assumes "txbuf_wf tb" "source_ok src bytes" "off + len \<le> length bytes"
  obtains (stored) tb' where "push_from src off len tb = (Inr (), tb')" "txbuf_wf tb'"
      "contents tb' = contents tb @ take len (drop off bytes)"
  | (full) "push_from src off len tb = (Inl TxBufFull, tb)"
proof -
  consider "TX_BUF_SIZE < txbuf_len tb + len" | "len = 0" "txbuf_len tb \<le> TX_BUF_SIZE"
    | "txbuf_len tb + len \<le> TX_BUF_SIZE" "0 < len"
    using assms(1) unfolding txbuf_wf_def by linarith
  then show thesis
  proof cases
    case 3
    then show thesis using push_from_ok [OF assms(1,2), of len off] assms(3) stored by auto
  qed (use assms(1) stored full in \<open>auto simp: push_from_full\<close>)
qed

text \<open>A packet as the device hands it to the connection: its length fits its buffer.\<close>

definition tx_pkt_ok :: "byteorder_ops \<Rightarrow> guest_mem \<Rightarrow> vsock_packet \<Rightarrow> bool" where
  "tx_pkt_ok B m pkt \<longleftrightarrow> mem_ok m \<and> pkt_ok m pkt \<and> (has_buf pkt \<longrightarrow> unat (pkt_len B pkt) \<le> length (pkt_bytes m pkt))"

definition pkt_data :: "byteorder_ops \<Rightarrow> guest_mem \<Rightarrow> vsock_packet \<Rightarrow> u8 list" where
  "pkt_data B m pkt = take (unat (pkt_len B pkt)) (pkt_bytes m pkt)"

lemma accepts_open: "accepts_data st \<Longrightarrow> open_state st"
  by (cases st) (simp_all add: open_state_def)

lemma killed_inv:
  "conn_inv received start c sent \<Longrightarrow> open_state (c_state c) \<Longrightarrow> conn_inv received start (c\<lparr> c_state := Killed \<rparr>) (sent @ bs)"
  by (auto simp: conn_inv_def open_state_def prefix_def)

lemma stored_inv:
  "conn_inv received start c sent \<Longrightarrow> open_state (c_state c) \<Longrightarrow> txbuf_wf tb \<Longrightarrow> contents tb = contents (c_tx_buf c) @ bs
    \<Longrightarrow> conn_inv received start (c\<lparr> c_tx_buf := tb \<rparr>) (sent @ bs)"
  by (auto simp: conn_inv_def open_state_def simp flip: append_assoc)

lemma written_inv:
  assumes "conn_inv received start c sent" "open_state (c_state c)" "contents (c_tx_buf c) = []"
    "received s = received (c_stream c) @ bs"
  shows "conn_inv received start (c\<lparr> c_stream := s, c_fwd_cnt := c_fwd_cnt c + of_nat (length bs) \<rparr>) (sent @ bs)"
proof -
  have "length (received s) - length start = length (received (c_stream c)) - length start + length bs"
    using assms by (auto simp: conn_inv_def)
  then show ?thesis using assms by (auto simp: conn_inv_def open_state_def)
qed

text \<open>The outcome of storing data: \<open>data\<close> in all has been accepted, or the connection must be killed.\<close>

definition send_outcome ::
  "('s \<Rightarrow> u8 list) \<Rightarrow> u8 list \<Rightarrow> u8 list \<Rightarrow> 's vsock_conn \<Rightarrow> (csm_error + unit) \<times> 's vsock_conn \<Rightarrow> bool" where
  "send_outcome received start data c p \<longleftrightarrow>
    c_state (snd p) = c_state c \<and> c_pending_rx (snd p) = c_pending_rx c
    \<and> conn_inv received start (if fst p = Inr () then snd p else (snd p)\<lparr> c_state := Killed \<rparr>) data"

lemma buffer_pkt_bytes_ok:
  assumes src: "source_ok (pkt_copy_to_tx_buf m pkt) bytes" "n + k \<le> length bytes"
    and inv: "conn_inv received start c (sent @ take n bytes)" "open_state (c_state c)"
  shows "send_outcome received start (sent @ take (n + k) bytes) c (buffer_pkt_bytes m pkt n k c)"
proof -
  have wf: "txbuf_wf (c_tx_buf c)" using inv by (simp add: conn_inv_def)
  have data: "sent @ take (n + k) bytes = (sent @ take n bytes) @ take k (drop n bytes)" by (simp add: take_add)
  from wf src show ?thesis
  proof (cases rule: push_from_result)
    case (stored tb')
    then show ?thesis using stored_inv [OF inv stored(2,3)]
      by (simp add: buffer_pkt_bytes_def send_outcome_def data del: append_assoc)
  next
    case full
    then show ?thesis using killed_inv [OF inv]
      by (simp add: buffer_pkt_bytes_def send_outcome_def data del: append_assoc)
  qed
qed

lemma buffer_rest_ok:
  assumes src: "source_ok (pkt_copy_to_tx_buf m pkt) bytes" "len \<le> length bytes" "n \<le> len"
    and inv: "conn_inv received start c sent" "open_state (c_state c)" "contents (c_tx_buf c) = []"
    and s: "received s = received (c_stream c) @ take n bytes"
  defines "c1 \<equiv> c\<lparr> c_stream := s, c_fwd_cnt := c_fwd_cnt c + of_nat n \<rparr>"
  shows "send_outcome received start (sent @ take len bytes) c
    (if n < len then buffer_pkt_bytes m pkt n (len - n) c1 else (Inr (), c1))"
proof -
  have "length (take n bytes) = n" using src by simp
  with written_inv [OF inv s] have inv1: "conn_inv received start c1 (sent @ take n bytes)" by (simp add: c1_def)
  have le: "n + (len - n) \<le> length bytes" and op1: "open_state (c_state c1)" using src inv(2) by (simp_all add: c1_def)
  show ?thesis
  proof (cases "n < len")
    case True
    then show ?thesis using buffer_pkt_bytes_ok [OF src(1) le inv1 op1] by (simp add: c1_def send_outcome_def)
  next
    case False
    then have "n = len" using src(3) by simp
    then show ?thesis using inv1 by (simp add: c1_def send_outcome_def)
  qed
qed

lemma send_pkt_bytes_ok:
  assumes S: "stream_ok S received" and pkt: "tx_pkt_ok B m pkt" "has_buf pkt"
    and inv: "conn_inv received start c sent" and acc: "accepts_data (c_state c)"
  shows "\<exists>p. send_pkt_bytes B S m pkt c = Some p \<and> send_outcome received start (sent @ pkt_data B m pkt) c p"
proof -
  let ?len = "unat (pkt_len B pkt)" and ?bytes = "pkt_bytes m pkt"
  have len: "?len \<le> length ?bytes" "0 + ?len \<le> length ?bytes" and mem: "mem_ok m" "pkt_ok m pkt"
    using pkt by (simp_all add: tx_pkt_ok_def)
  note op = accepts_open [OF acc] and src = pkt_source_ok [OF mem pkt(2)]
  have inv0: "conn_inv received start c (sent @ take 0 ?bytes)" using inv by simp
  note fold = send_pkt_bytes_def pkt_data_def Let_def
  show ?thesis
  proof (cases "txbuf_is_empty (c_tx_buf c)")
    case False
    then show ?thesis using buffer_pkt_bytes_ok [OF src len(2) inv0 op] by (simp add: fold)
  next
    case True
    then have empty: "contents (c_tx_buf c) = []"
      using inv by (simp add: conn_inv_def txbuf_is_empty_contents)
    note rest = buffer_rest_ok [OF src len(1) _ inv op empty]
    from S mem pkt(2) len(1) show ?thesis
    proof (cases rule: stream_ok_write [where s = "c_stream c"])
      case (wrote n s')
      then show ?thesis using rest [OF wrote(2,3)] True
        by (cases "n < ?len") (simp_all add: fold del: split_paired_Ex)
    next
      case (failed e s')
      have "conn_inv received start (c\<lparr> c_stream := s' \<rparr>) sent" using inv failed by (simp add: conn_inv_def)
      note killed = killed_inv [OF this, of "pkt_data B m pkt"]
      show ?thesis
      proof (cases "e = WouldBlock")
        case block: True
        then show ?thesis using rest [of 0 s'] failed True
          by (cases "0 < ?len") (simp_all add: fold del: split_paired_Ex)
      next
        case False
        then show ?thesis using killed op True failed by (simp add: send_pkt_bytes_def send_outcome_def Let_def)
      qed
    qed
  qed
qed

subsection \<open>Every operation keeps the invariant\<close>

lemma same_data_simps [simp]:
  "same_data received c (c\<lparr> c_state := st \<rparr>)" "same_data received c (arm_kill_timer now c)"
  "same_data received c (c\<lparr> c_peer_buf_alloc := x, c_peer_fwd_cnt := y \<rparr>)" "same_data received c c"
  "same_data received c (c\<lparr> c_expiry := e, c_state := st \<rparr>)"
  by (simp_all add: same_data_def arm_kill_timer_def)

lemma send_shutdown_frame:
  assumes "stream_ok S received"
  shows "same_data received c (send_shutdown B S now pkt c)"
    "c_state (send_shutdown B S now pkt c) = c_state c
      \<or> open_state (c_state c) \<and> c_state (send_shutdown B S now pkt c) \<notin> {PeerInit, LocalInit}"
proof -
  note tr = same_data_trans [where received = received]
  have p: "same_data received c (add_pending PrxRst (c\<lparr> c_state := st \<rparr>))" for st
    by (rule tr [of _ "c\<lparr> c_state := st \<rparr>"]) simp_all
  have a: "same_data received c (arm_kill_timer now (c\<lparr> c_state := st \<rparr>))" for st
    by (rule tr [of _ "c\<lparr> c_state := st \<rparr>"]) simp_all
  have h: "same_data received c (shutdown_host_write_side S (c\<lparr> c_state := st \<rparr>))" for st
    by (rule tr [of _ "c\<lparr> c_state := st \<rparr>"]) (simp_all add: assms)
  show "same_data received c (send_shutdown B S now pkt c)"
    by (simp add: send_shutdown_def Let_def p a h split: conn_state.split)
  show "c_state (send_shutdown B S now pkt c) = c_state c
      \<or> open_state (c_state c) \<and> c_state (send_shutdown B S now pkt c) \<notin> {PeerInit, LocalInit}"
    by (simp add: send_shutdown_def Let_def open_state_def split: conn_state.split)
qed

definition accepted :: "byteorder_ops \<Rightarrow> guest_mem \<Rightarrow> vsock_packet \<Rightarrow> 's vsock_conn \<Rightarrow> u8 list" where
  "accepted B m pkt c =
    (if accepts_data (c_state c) \<and> pkt_op B pkt = VSOCK_OP_RW \<and> has_buf pkt then pkt_data B m pkt else [])"

lemma send_rw_inv:
  assumes S: "stream_ok S received" and pkt: "tx_pkt_ok B m pkt" "has_buf pkt"
    and inv: "conn_inv received start c sent" and acc: "accepts_data (c_state c)"
  shows "\<exists>c'. send_rw B S m pkt c = Some c' \<and> conn_inv received start c' (sent @ pkt_data B m pkt)"
proof -
  obtain r c1 where p: "send_pkt_bytes B S m pkt c = Some (r, c1)" "send_outcome received start (sent @ pkt_data B m pkt) c (r, c1)"
    using send_pkt_bytes_ok [OF assms] by auto
  show ?thesis
  proof (cases r)
    case (Inl e)
    then have "conn_inv received start (c1\<lparr> c_state := Killed \<rparr>) (sent @ pkt_data B m pkt)"
      using p(2) by (simp add: send_outcome_def)
    from conn_inv_same_data [OF this same_data_add_pending [of PrxRst]] show ?thesis
      using p(1) pkt(2) Inl by (simp add: send_rw_def conn_kill_def)
  next
    case (Inr u)
    then have "conn_inv received start c1 (sent @ pkt_data B m pkt)" using p(2) by (simp add: send_outcome_def)
    with conn_inv_same_data [OF this same_data_add_pending [of PrxCreditUpdate]] show ?thesis
      using p(1) pkt(2) Inr by (simp add: send_rw_def)
  qed
qed

lemma conn_send_pkt_inv:
  assumes S: "stream_ok S received" and pkt: "tx_pkt_ok B m pkt" and inv: "conn_inv received start c sent"
  shows "\<exists>c'. conn_send_pkt B S now m pkt c = Some c' \<and> conn_inv received start c' (sent @ accepted B m pkt c)"
proof -
  define c0 where "c0 = c\<lparr> c_peer_buf_alloc := buf_alloc B pkt, c_peer_fwd_cnt := pkt_fwd_cnt B pkt \<rparr>"
  have st: "c_state c0 = c_state c" by (simp add: c0_def)
  have inv0: "conn_inv received start c0 sent"
    using conn_inv_same_data [OF inv, of c0] by (simp add: c0_def)
  note unfold = conn_send_pkt_def c0_def [symmetric] Let_def st accepted_def
  show ?thesis
  proof (cases "accepts_data (c_state c) \<and> pkt_op B pkt = VSOCK_OP_RW")
    case True
    then show ?thesis using send_rw_inv [OF S pkt _ inv0] inv0 st
      by (cases "has_buf pkt") (simp_all add: unfold, simp add: send_rw_def)
  next
    case False
    have "\<not> prx_contains PrxResponse (c_pending_rx c0)" if "c_state c = LocalInit"
      using inv0 that st by (auto simp: conn_inv_def)
    then have "conn_inv received start (c0\<lparr> c_expiry := None, c_state := Established \<rparr>) sent" if "c_state c = LocalInit"
      using that st by (intro conn_inv_same_data [OF inv0]) (simp_all add: open_state_def)
    moreover have "conn_inv received start (send_shutdown B S now pkt c0) sent"
      using send_shutdown_frame [OF S, where c = c0 and B = B and now = now and pkt = pkt] by (intro conn_inv_same_data [OF inv0]) auto
    moreover have "conn_inv received start (add_pending PrxCreditUpdate c0) sent"
      by (intro conn_inv_same_data [OF inv0]) simp_all
    ultimately show ?thesis using False inv0 by (auto simp: unfold)
  qed
qed

lemma take_pending_same:
  "same_data received c (c\<lparr> c_pending_rx := snd (prx_remove it (c_pending_rx c)) \<rparr>)"
  by (simp add: same_data_def)

lemma can_read_open: "can_read c \<Longrightarrow> open_state (c_state c)"
  by (auto simp: can_read_def open_state_def split: conn_state.splits)

lemma recv_eof_frame:
  "same_data received c (snd (recv_eof B now pkt c))" "open_state (c_state (snd (recv_eof B now pkt c)))"
proof -
  have a: "same_data received c (arm_kill_timer now (c\<lparr> c_state := st \<rparr>))" for st
    by (rule same_data_trans [of _ _ "c\<lparr> c_state := st \<rparr>"]) simp_all
  show "same_data received c (snd (recv_eof B now pkt c))" "open_state (c_state (snd (recv_eof B now pkt c)))"
    by (simp_all add: recv_eof_def a open_state_def Let_def split: conn_state.split bool.split)
qed

lemma recv_rw_frame:
  assumes "stream_ok S received"
  shows "\<exists>r pkt' m' c'. recv_rw B S now pkt m c = Some (r, pkt', m', c') \<and> same_data received c c'
    \<and> (c_state c' = c_state c \<or> open_state (c_state c) \<and> c_state c' \<notin> {PeerInit, LocalInit})"
proof (cases "\<not> can_read c \<or> need_credit_update_from_peer c \<and> \<not> host_send_closed (c_state c) \<or> buf_capacity pkt = None")
  case True
  then show ?thesis by (auto simp: recv_rw_def same_data_def)
next
  case False
  then obtain cap where cap: "buf_capacity pkt = Some cap" by blast
  obtain r pkt' m' s' where r: "read_volatile_from S (min cap (peer_avail_credit c)) pkt m (c_stream c) = Some (r, pkt', m', s')"
    "received s' = received (c_stream c)"
    by (rule stream_ok_read [OF assms])
  have s: "same_data received c (c\<lparr> c_stream := s', c_last_fwd_cnt_to_peer := x \<rparr>)"
    "same_data received c (c\<lparr> c_stream := s' \<rparr>)"
    "same_data received c (c\<lparr> c_stream := s', c_rx_cnt := y, c_last_fwd_cnt_to_peer := x \<rparr>)" for x y
    using r(2) by (simp_all add: same_data_def)
  obtain pkt2 c2 where eof: "recv_eof B now pkt' (c\<lparr> c_stream := s' \<rparr>) = (pkt2, c2)" by (cases "recv_eof B now pkt' (c\<lparr> c_stream := s' \<rparr>)")
  have e: "same_data received c (c2\<lparr> c_rx_cnt := y, c_last_fwd_cnt_to_peer := x \<rparr>)" "open_state (c_state c2)" for x y
    using recv_eof_frame(1) [of received "c\<lparr> c_stream := s' \<rparr>" B now pkt']
      recv_eof_frame(2) [of B now pkt' "c\<lparr> c_stream := s' \<rparr>"] eof r(2) by (simp_all add: same_data_def)
  have op: "open_state (c_state c)" using False can_read_open by blast
  show ?thesis
  proof (cases r)
    case (Inl e)
    then show ?thesis using False cap r(1) s by (auto simp: recv_rw_def Let_def)
  next
    case (Inr k)
    then show ?thesis using False cap r(1) s e op eof by (auto simp: recv_rw_def Let_def open_state_def)
  qed
qed

lemma conn_recv_pkt_inv:
  assumes S: "stream_ok S received" and inv: "conn_inv received start c sent"
  shows "\<exists>r pkt' m' c'. conn_recv_pkt B S now pkt m c = Some (r, pkt', m', c') \<and> conn_inv received start c' sent"
proof -
  define c1 where "c1 = c\<lparr> c_pending_rx := snd (prx_remove PrxRst (c_pending_rx c)) \<rparr>"
  define c2 where "c2 = c1\<lparr> c_pending_rx := snd (prx_remove PrxResponse (c_pending_rx c1)) \<rparr>"
  define c3 where "c3 = c2\<lparr> c_pending_rx := snd (prx_remove PrxRequest (c_pending_rx c2)) \<rparr>"
  define c4 where "c4 = c3\<lparr> c_pending_rx := snd (prx_remove PrxRw (c_pending_rx c3)) \<rparr>"
  have i1: "conn_inv received start c1 sent"
    by (rule conn_inv_same_data [OF inv]) (simp_all add: c1_def take_pending_same)
  have i2: "conn_inv received start c2 sent"
    by (rule conn_inv_same_data [OF i1]) (simp_all add: c2_def take_pending_same)
  have i3: "conn_inv received start c3 sent"
    by (rule conn_inv_same_data [OF i2]) (simp_all add: c3_def take_pending_same)
  have i4: "conn_inv received start c4 sent"
    by (rule conn_inv_same_data [OF i3]) (simp_all add: c4_def take_pending_same)
  have est: "conn_inv received start (c2\<lparr> c_state := Established \<rparr>) sent" if "prx_contains PrxResponse (c_pending_rx c1)"
  proof (rule conn_inv_same_data [OF i2])
    have "c_state c1 = PeerInit" using i1 that by (simp add: conn_inv_def)
    then show "c_state (c2\<lparr> c_state := Established \<rparr>) = c_state c2
      \<or> open_state (c_state c2) \<and> c_state (c2\<lparr> c_state := Established \<rparr>) \<notin> {PeerInit, LocalInit}
      \<or> c_state c2 \<noteq> Killed \<and> open_state (c_state (c2\<lparr> c_state := Established \<rparr>))
        \<and> \<not> prx_contains PrxResponse (c_pending_rx (c2\<lparr> c_state := Established \<rparr>))"
      by (simp add: c2_def open_state_def)
  qed simp
  have req: "conn_inv received start (c3\<lparr> c_expiry := x \<rparr>) sent" for x
    by (rule conn_inv_same_data [OF i3]) (simp_all add: same_data_def)
  obtain r pkt' m' c' where rw: "recv_rw B S now (init_pkt B c pkt) m c4 = Some (r, pkt', m', c')"
    "same_data received c4 c'" "c_state c' = c_state c4 \<or> open_state (c_state c4) \<and> c_state c' \<notin> {PeerInit, LocalInit}"
    using recv_rw_frame [OF S] by metis
  have i5: "conn_inv received start c' sent" by (rule conn_inv_same_data [OF i4 rw(2)]) (use rw(3) in blast)
  have cu: "conn_inv received start (snd (snd (recv_credit_update B p d))) sent" if "conn_inv received start d sent" for p d
    by (rule conn_inv_same_data [OF that])
      (simp_all add: recv_credit_update_def take_pending_simps same_data_def)
  show ?thesis
    using i1 i2 est req i4 i5 cu [OF i4, of "init_pkt B c pkt"] cu [OF i5, of pkt'] rw(1)
    by (auto simp: conn_recv_pkt_def take_pending_simps c1_def [symmetric] c2_def [symmetric] c3_def [symmetric]
        c4_def [symmetric] Let_def split: option.split prod.split)
qed

lemma flushed_inv:
  assumes "conn_inv received start c sent" "m \<le> txbuf_len (c_tx_buf c)" "txbuf_wf tb"
    "contents tb = drop m (contents (c_tx_buf c))" "received s = received (c_stream c) @ take m (contents (c_tx_buf c))"
  shows "conn_inv received start (c\<lparr> c_tx_buf := tb, c_stream := s, c_fwd_cnt := c_fwd_cnt c + of_nat m \<rparr>) sent"
proof -
  have "length (contents (c_tx_buf c)) = txbuf_len (c_tx_buf c)" using assms(1) by (simp add: conn_inv_def)
  then have len: "length (received s) = length (received (c_stream c)) + m" using assms(2,5) by simp
  have "length start \<le> length (received (c_stream c))" "c_fwd_cnt c = of_nat (length (received (c_stream c)) - length start)"
    using assms(1) by (simp_all add: conn_inv_def)
  with len have "c_fwd_cnt c + of_nat m = of_nat (length (received s) - length start)" by (simp flip: of_nat_add)
  moreover have "received s @ contents tb = received (c_stream c) @ contents (c_tx_buf c)" "length start \<le> length (received s)"
    "contents (c_tx_buf c) = [] \<Longrightarrow> contents tb = []"
    using assms(1,4,5) by (simp_all add: conn_inv_def)
  ultimately show ?thesis using assms(1,3) by (simp add: conn_inv_def)
qed

lemma notify_out_inv:
  assumes S: "stream_ok S received" and inv: "conn_inv received start c sent"
  shows "\<exists>c'. notify_out S c = Some c' \<and> conn_inv received start c' sent"
proof (cases "txbuf_is_empty (c_tx_buf c)")
  case True
  then show ?thesis using inv by (simp add: notify_out_def)
next
  case False
  have wf: "txbuf_wf (c_tx_buf c)" and W: "writer_ok (st_writer S) received"
    using inv S by (simp_all add: conn_inv_def stream_ok_def)
  obtain r tb s m where f: "flush_to (st_writer S) (c_tx_buf c) (c_stream c) = Some (r, tb, s)" "txbuf_wf tb"
    "m \<le> txbuf_len (c_tx_buf c)" "contents tb = drop m (contents (c_tx_buf c))"
    "received s = received (c_stream c) @ take m (contents (c_tx_buf c))"
    "r = Inr m \<or> m = 0 \<and> (\<exists>e. r = Inl (TxBufFlush e))"
    using flush_to_ok [OF W wf] by blast
  define k where "k = (r \<noteq> Inr m \<and> r \<noteq> Inl (TxBufFlush WouldBlock))"
  define c1 where "c1 = c\<lparr> c_tx_buf := tb, c_stream := s, c_fwd_cnt := c_fwd_cnt c + of_nat m \<rparr>"
  define c2 where "c2 = (if k then conn_kill c1 else c1)"
  have i1: "conn_inv received start c1 sent" unfolding c1_def by (rule flushed_inv [OF inv f(3,2,4,5)])
  have "c_state c1 \<notin> {PeerInit, LocalInit}"
    using inv False wf by (auto simp: conn_inv_def c1_def txbuf_is_empty_contents)
  then have "conn_inv received start (c1\<lparr> c_state := Killed \<rparr>) sent"
    by (intro conn_inv_same_data [OF i1]) (auto simp: open_state_def)
  from conn_inv_same_data [OF this same_data_add_pending [of PrxRst]] i1
  have i2: "conn_inv received start c2 sent" by (simp add: c2_def conn_kill_def)
  have "notify_out S c = Some (after_flush S c2)"
    using f(6)
  proof
    assume "r = Inr m"
    then show ?thesis using False f(1) by (simp add: notify_out_def c2_def c1_def k_def)
  next
    assume "m = 0 \<and> (\<exists>e. r = Inl (TxBufFlush e))"
    then obtain e where "m = 0" "r = Inl (TxBufFlush e)" by blast
    then show ?thesis using False f(1)
      by (cases "e = WouldBlock") (simp_all add: notify_out_def c2_def c1_def k_def conn_kill_def add_pending_def)
  qed
  moreover have "conn_inv received start (add_pending PrxRst c2) sent" "conn_inv received start (add_pending PrxCreditUpdate c2) sent"
    "conn_inv received start (shutdown_host_write_side S c2) sent"
    by (rule conn_inv_same_data [OF i2]; simp add: S)+
  ultimately show ?thesis using i2 by (simp add: after_flush_def)
qed

lemma conn_notify_inv:
  assumes S: "stream_ok S received" and inv: "conn_inv received start c sent"
  shows "\<exists>c'. conn_notify S evset c = Some c' \<and> conn_inv received start c' sent"
proof -
  define c1 where "c1 = (if EPOLLHUP \<in> evset then add_pending PrxRw (c\<lparr> c_host_hung_up := True \<rparr>) else c)"
  define c2 where "c2 = (if EPOLLIN \<in> evset then add_pending PrxRw c1 else c1)"
  have "conn_inv received start c1 sent"
    by (rule conn_inv_same_data [OF inv]) (simp_all add: c1_def same_data_def add_pending_def)
  then have "conn_inv received start c2 sent"
    by (rule conn_inv_same_data) (simp_all add: c2_def)
  then show ?thesis using notify_out_inv [OF S]
    by (simp add: conn_notify_def c1_def [symmetric] c2_def [symmetric] Let_def)
qed

subsection \<open>Runs\<close>

datatype conn_event = FromGuest nat guest_mem vsock_packet | ToGuest nat guest_mem vsock_packet | Epoll "epoll_flag set"

fun conn_run ::
  "byteorder_ops \<Rightarrow> 's stream_ops \<Rightarrow> conn_event list \<Rightarrow> 's vsock_conn \<Rightarrow> ('s vsock_conn \<times> u8 list) option" where
  "conn_run B S [] c = Some (c, [])"
| "conn_run B S (FromGuest now m pkt # evs) c =
    (case conn_send_pkt B S now m pkt c of
       None \<Rightarrow> None
     | Some c' \<Rightarrow> map_option (\<lambda>(c'', sent). (c'', accepted B m pkt c @ sent)) (conn_run B S evs c'))"
| "conn_run B S (ToGuest now m pkt # evs) c =
    (case conn_recv_pkt B S now pkt m c of None \<Rightarrow> None | Some (_, _, _, c') \<Rightarrow> conn_run B S evs c')"
| "conn_run B S (Epoll evset # evs) c =
    (case conn_notify S evset c of None \<Rightarrow> None | Some c' \<Rightarrow> conn_run B S evs c')"

fun conn_event_ok :: "byteorder_ops \<Rightarrow> conn_event \<Rightarrow> bool" where
  "conn_event_ok B (FromGuest now m pkt) = tx_pkt_ok B m pkt"
| "conn_event_ok B _ = True"

lemma conn_run_inv:
  assumes S: "stream_ok S received" and "list_all (conn_event_ok B) evs" "conn_inv received start c sent0"
  shows "\<exists>c' sent. conn_run B S evs c = Some (c', sent) \<and> conn_inv received start c' (sent0 @ sent)"
  using assms(2,3)
proof (induction evs arbitrary: c sent0)
  case (Cons ev evs)
  then have evs: "list_all (conn_event_ok B) evs" by simp
  show ?case
  proof (cases ev)
    case (FromGuest now m pkt)
    then have "tx_pkt_ok B m pkt" using Cons.prems(1) by simp
    then obtain c1 where 1: "conn_send_pkt B S now m pkt c = Some c1" "conn_inv received start c1 (sent0 @ accepted B m pkt c)"
      using conn_send_pkt_inv [OF S _ Cons.prems(2)] by blast
    from Cons.IH [OF evs 1(2)] 1(1) show ?thesis using FromGuest by auto
  next
    case (ToGuest now m pkt)
    obtain r p' m' c1 where 1: "conn_recv_pkt B S now pkt m c = Some (r, p', m', c1)" "conn_inv received start c1 sent0"
      using conn_recv_pkt_inv [OF S Cons.prems(2)] by metis
    from Cons.IH [OF evs 1(2)] 1(1) show ?thesis using ToGuest by auto
  next
    case (Epoll evset)
    obtain c1 where 1: "conn_notify S evset c = Some c1" "conn_inv received start c1 sent0"
      using conn_notify_inv [OF S Cons.prems(2)] by metis
    from Cons.IH [OF evs 1(2)] 1(1) show ?thesis using Epoll by auto
  qed
qed simp

lemma new_conn_inv:
  "conn_inv received (received s) (new_peer_init s lc pc lp pp ba) []"
  "conn_inv received (received s) (new_local_init s lc pc lp pp) []"
  by (simp_all add: conn_inv_def new_peer_init_def new_local_init_def)

text \<open>
  C1: A vsock connection forwards the guest's data to the host in order and without loss.  Take a
  new connection, opened by either side, and any sequence of packets from the guest, packets for
  the guest and events of the host stream, which may accept data in pieces, block or fail.  Every
  operation returns; what the stream has received, followed by what is buffered, is exactly the
  data of the packets the connection accepted, unless the connection was killed, when it is a
  prefix of that data; and the \<open>fwd_cnt\<close> told to the guest is the number of bytes the stream took, modulo
  \<open>2 ^ 32\<close>.
\<close>
theorem guest_stream_in_order:
  assumes "stream_ok S received" "list_all (conn_event_ok B) evs"
    "c0 = new_peer_init s lcid pcid lport pport alloc \<or> c0 = new_local_init s lcid pcid lport pport"
  shows "\<exists>c sent. conn_run B S evs c0 = Some (c, sent)
    \<and> prefix (received (c_stream c) @ contents (c_tx_buf c)) (received s @ sent)
    \<and> (c_state c \<noteq> Killed \<longrightarrow> received (c_stream c) @ contents (c_tx_buf c) = received s @ sent)
    \<and> c_fwd_cnt c = of_nat (length (received (c_stream c)) - length (received s))"
proof -
  have "conn_inv received (received s) c0 []" using assms(3) by (elim disjE) (simp_all add: new_conn_inv)
  from conn_run_inv [OF assms(1,2) this] show ?thesis unfolding conn_inv_def append_Nil by blast
qed

text \<open>A host stream that takes one byte at a time and has nothing to read, 4 KiB of guest memory, and a data
  packet of four bytes.\<close>

definition sink_stream :: "u8 list stream_ops" where
  "sink_stream = \<lparr> st_read = (\<lambda>_ s. Some (Inr [], s)), st_read_volatile = (\<lambda>_ s. Some (Inr [], s)),
     st_writer = slow_writer, st_write_volatile = w_write slow_writer, st_shutdown_wr = (\<lambda>s. (True, s)) \<rparr>"

definition small_mem :: guest_mem where
  "small_mem = ex_mem\<lparr> gm_slice := (\<lambda>a n. unat a + n \<le> 4096) \<rparr>"

definition data_pkt :: vsock_packet where
  "data_pkt = set_len std_le 4 (set_op std_le VSOCK_OP_RW
     \<lparr> guest_hdr_addr = 0, hdr = replicate 44 0, pkt_buf = Some (GuestBuf 100 4) \<rparr>)"

lemma sink_stream_ok: "stream_ok sink_stream id"
  using slow_writer_ok by (simp add: stream_ok_def sink_stream_def writer_ok_def)

lemma small_mem_ok: "mem_ok small_mem"
proof -
  have "unat (a + of_nat i) = unat a + i" if "unat a + i \<le> 4096" for a :: u64 and i
    using that by (subst unat_add_exact) (simp_all add: unat_of_nat)
  then show ?thesis by (simp add: mem_ok_def small_mem_def)
qed

lemma data_pkt_ok: "tx_pkt_ok std_le small_mem data_pkt"
proof -
  have h: "hdr_ok (set_op std_le VSOCK_OP_RW \<lparr> guest_hdr_addr = 0, hdr = replicate 44 0, pkt_buf = Some (GuestBuf 100 4) \<rparr>)"
    unfolding set_op_def HDROFF_OP_def by (rule set_hdr_ok(1) [OF std_le_ok]) (simp_all add: hdr_ok_def)
  have "pkt_len std_le data_pkt = 4"
    unfolding data_pkt_def pkt_len_def set_len_def using get_set_same(2) [OF std_le_ok h] by (simp add: HDROFF_LEN_def)
  moreover have "pkt_buf data_pkt = Some (GuestBuf 100 4)" by (simp add: data_pkt_def set_len_def set_op_def)
  ultimately show ?thesis using small_mem_ok by (simp add: tx_pkt_ok_def pkt_ok_def pkt_bytes_def small_mem_def)
qed

theorem guest_stream_in_order_witness:
  "stream_ok sink_stream id \<and> tx_pkt_ok std_le small_mem data_pkt \<and>
    (\<exists>c sent. conn_run std_le sink_stream
        [ToGuest 0 small_mem data_pkt, FromGuest 0 small_mem data_pkt, Epoll {EPOLLOUT}, FromGuest 1 small_mem data_pkt]
        (new_peer_init [] 2 3 1024 5000 65536) = Some (c, sent)
      \<and> prefix (c_stream c @ contents (c_tx_buf c)) sent \<and> c_fwd_cnt c = of_nat (length (c_stream c)))"
proof (intro conjI sink_stream_ok data_pkt_ok)
  have "list_all (conn_event_ok std_le)
      [ToGuest 0 small_mem data_pkt, FromGuest 0 small_mem data_pkt, Epoll {EPOLLOUT}, FromGuest 1 small_mem data_pkt]"
    by (simp add: data_pkt_ok)
  from guest_stream_in_order [OF sink_stream_ok this, of "new_peer_init [] 2 3 1024 5000 65536" "[]"]
  show "\<exists>c sent. conn_run std_le sink_stream
        [ToGuest 0 small_mem data_pkt, FromGuest 0 small_mem data_pkt, Epoll {EPOLLOUT}, FromGuest 1 small_mem data_pkt]
        (new_peer_init [] 2 3 1024 5000 65536) = Some (c, sent)
      \<and> prefix (c_stream c @ contents (c_tx_buf c)) sent \<and> c_fwd_cnt c = of_nat (length (c_stream c))"
    unfolding id_apply append_Nil list.size diff_zero by blast
qed

end
