(* ===== verification/GuestCredit.thy ===== *)
theory GuestCredit
  imports GuestStream
begin

text \<open>
  The packets a vsock connection delivers to the guest: addressing, lengths and flow control.
\<close>

section \<open>Packets for the guest\<close>

text \<open>The header fields every packet of a connection has.\<close>

definition from_conn :: "byteorder_ops \<Rightarrow> 's vsock_conn \<Rightarrow> vsock_packet \<Rightarrow> bool" where
  "from_conn B c pkt \<longleftrightarrow> hdr_ok pkt \<and> src_cid B pkt = c_local_cid c \<and> dst_cid B pkt = c_peer_cid c
    \<and> src_port B pkt = c_local_port c \<and> dst_port B pkt = c_peer_port c \<and> pkt_type B pkt = VSOCK_TYPE_STREAM
    \<and> buf_alloc B pkt = CONN_TX_BUF_SIZE \<and> pkt_fwd_cnt B pkt = c_fwd_cnt c"

lemma op_len_sets:
  assumes "byteorder_ok B" "hdr_ok pkt"
  shows "hdr_ok (set_op B v pkt)" "hdr_ok (set_len B w pkt)" "hdr_ok (set_flag B f pkt)"
    "pkt_op B (set_op B v pkt) = v" "pkt_len B (set_op B v pkt) = pkt_len B pkt" "pkt_len B (set_len B w pkt) = w"
    "pkt_op B (set_len B w pkt) = pkt_op B pkt"
    "pkt_len B (set_flag B f pkt) = pkt_len B pkt" "pkt_op B (set_flag B f pkt) = pkt_op B pkt"
  using assms by (simp_all add: hdr_fields)

lemma from_conn_sets:
  assumes "byteorder_ok B" "from_conn B c pkt"
  shows "from_conn B c (set_op B v pkt)" "from_conn B c (set_len B w pkt)" "from_conn B c (set_flag B f pkt)" "hdr_ok pkt"
  using assms by (simp_all add: from_conn_def hdr_fields)

lemma same_hdr:
  assumes "hdr p = hdr q"
  shows "from_conn B c p = from_conn B c q" "pkt_len B p = pkt_len B q"
  using assms by (simp_all add: from_conn_def hdr_ok_def hdr_fields get16_def get32_def get64_def)

lemma le_word_zeros: "le_word (replicate n 0) = (0 :: 'a::len word)"
  by (induction n) simp_all

lemma init_pkt_ok:
  assumes "byteorder_ok B" "hdr_ok pkt"
  shows "from_conn B c (init_pkt B c pkt)" "pkt_len B (init_pkt B c pkt) = 0"
    "buf_capacity (init_pkt B c pkt) = buf_capacity pkt"
proof -
  let ?z = "pkt\<lparr> hdr := map (\<lambda>_. 0) (hdr pkt) \<rparr>"
  have z: "hdr_ok ?z" using assms(2) by (simp add: hdr_ok_def)
  have "get32 B 24 ?z = 0" using assms
    by (simp add: get32_def hdr_ok_def map_replicate_const byteorder_ok_def le_word_zeros)
  then show "from_conn B c (init_pkt B c pkt)" "pkt_len B (init_pkt B c pkt) = 0"
    using assms(1) z by (simp_all add: from_conn_def init_pkt_def hdr_fields Let_def)
  show "buf_capacity (init_pkt B c pkt) = buf_capacity pkt"
    by (simp add: init_pkt_def buf_capacity_def hdr_fields Let_def)
qed

text \<open>What a packet may do: its data fits its buffer and is counted, and the guest's credit is not exceeded.\<close>

definition credit_ok :: "'s vsock_conn \<Rightarrow> bool" where
  "credit_ok c \<longleftrightarrow> c_rx_cnt c - c_peer_fwd_cnt c \<le> c_peer_buf_alloc c"

definition delivered :: "byteorder_ops \<Rightarrow> 's vsock_conn \<Rightarrow> nat option \<Rightarrow> vsock_packet \<Rightarrow> 's vsock_conn \<Rightarrow> bool" where
  "delivered B c cap pkt c' \<longleftrightarrow> from_conn B c pkt \<and> c_rx_cnt c' = c_rx_cnt c + pkt_len B pkt \<and> credit_ok c'
    \<and> (pkt_op B pkt \<noteq> VSOCK_OP_RW \<longrightarrow> pkt_len B pkt = 0)
    \<and> (pkt_op B pkt = VSOCK_OP_RW \<longrightarrow> (\<exists>n. cap = Some n \<and> 0 < unat (pkt_len B pkt) \<and> unat (pkt_len B pkt) \<le> n))"

lemma credit_advance:
  assumes "credit_ok c" "n \<le> peer_avail_credit c"
  shows "c_rx_cnt c + of_nat n - c_peer_fwd_cnt c \<le> c_peer_buf_alloc c" "n < 2 ^ 32"
proof -
  let ?used = "c_rx_cnt c - c_peer_fwd_cnt c"
  have le: "unat ?used \<le> unat (c_peer_buf_alloc c)" using assms(1) by (simp add: credit_ok_def word_le_nat_alt)
  have avail: "peer_avail_credit c = unat (c_peer_buf_alloc c) - unat ?used"
    using assms(1) unfolding peer_avail_credit_def credit_ok_def by (rule unat_sub)
  show n: "n < 2 ^ 32" using assms(2) avail u32_bound [of "c_peer_buf_alloc c"] by simp
  have "unat (?used + of_nat n) = unat ?used + n"
    using assms(2) avail le n u32_bound [of "c_peer_buf_alloc c"] by (subst unat_add_exact) (simp_all add: unat_of_nat)
  then have "?used + of_nat n \<le> c_peer_buf_alloc c" using assms(2) avail le by (simp add: word_le_nat_alt)
  then show "c_rx_cnt c + of_nat n - c_peer_fwd_cnt c \<le> c_peer_buf_alloc c" by (simp add: algebra_simps)
qed

lemmas vsock_ops = VSOCK_OP_REQUEST_def VSOCK_OP_RESPONSE_def VSOCK_OP_RST_def VSOCK_OP_SHUTDOWN_def VSOCK_OP_RW_def
  VSOCK_OP_CREDIT_UPDATE_def VSOCK_OP_CREDIT_REQUEST_def

text \<open>Control packets.\<close>

lemma control_delivered:
  assumes "byteorder_ok B" "from_conn B c pkt" "pkt_len B pkt = 0" "credit_ok c" "v \<noteq> VSOCK_OP_RW"
    "c_rx_cnt c' = c_rx_cnt c" "c_peer_fwd_cnt c' = c_peer_fwd_cnt c" "c_peer_buf_alloc c' = c_peer_buf_alloc c"
  shows "delivered B c cap (set_op B v pkt) c'"
  using assms from_conn_sets [OF assms(1,2)] by (simp add: delivered_def credit_ok_def op_len_sets)

lemma recv_eof_control:
  assumes "byteorder_ok B" "from_conn B c0 pkt" "pkt_len B pkt = 0" and p: "recv_eof B now pkt c = p"
  shows "from_conn B c0 (fst p) \<and> pkt_len B (fst p) = 0 \<and> pkt_op B (fst p) \<noteq> VSOCK_OP_RW
    \<and> c_rx_cnt (snd p) = c_rx_cnt c \<and> c_peer_fwd_cnt (snd p) = c_peer_fwd_cnt c \<and> c_peer_buf_alloc (snd p) = c_peer_buf_alloc c"
  using assms(1-3) from_conn_sets(4) [OF assms(1,2)] unfolding p [symmetric]
  by (simp add: recv_eof_def arm_kill_timer_def from_conn_sets op_len_sets vsock_ops Let_def split: conn_state.split bool.split)

lemma recv_rw_delivered:
  assumes B: "byteorder_ok B" and S: "stream_ok S received" and pkt: "from_conn B c pkt" "pkt_len B pkt = 0"
    and cr: "credit_ok c" and r: "recv_rw B S now pkt m c = Some (Some (Inr ()), pkt', m', c')"
  shows "delivered B c (buf_capacity pkt) pkt' c'"
proof (cases "\<not> can_read c \<or> need_credit_update_from_peer c \<and> \<not> host_send_closed (c_state c) \<or> buf_capacity pkt = None")
  case True
  then show ?thesis using r control_delivered [OF B pkt cr]
    by (auto simp: recv_rw_def vsock_ops split: if_splits)
next
  case False
  then obtain cap where cap: "buf_capacity pkt = Some cap" by blast
  obtain q pkt1 m1 s1 where q: "read_volatile_from S (min cap (peer_avail_credit c)) pkt m (c_stream c) = Some (q, pkt1, m1, s1)"
    "\<And>k. q = Inr k \<Longrightarrow> k \<le> min cap (peer_avail_credit c)" "hdr pkt1 = hdr pkt"
    by (rule stream_ok_read [OF S, of "min cap (peer_avail_credit c)" pkt m "c_stream c"]) blast
  have p1: "from_conn B c pkt1" "pkt_len B pkt1 = 0" using pkt by (simp_all add: same_hdr [OF q(3)])
  show ?thesis
  proof (cases q)
    case (Inl e)
    then show ?thesis using r False cap q(1) control_delivered [OF B p1 cr]
      by (auto simp: recv_rw_def vsock_ops Let_def split: if_splits)
  next
    case (Inr k)
    have k: "k \<le> cap" "k \<le> peer_avail_credit c" using q(2) [OF Inr] by simp_all
    note adv = credit_advance [OF cr k(2)]
    have u: "unat (of_nat k :: u32) = k" using adv(2) by (simp add: unat_of_nat)
    show ?thesis
    proof (cases "k = 0")
      case True
      then show ?thesis using r False cap q(1) Inr cr recv_eof_control [OF B p1, where now = now and c = "c\<lparr> c_stream := s1 \<rparr>"]
        by (auto simp: recv_rw_def delivered_def credit_ok_def Let_def split: prod.splits)
    next
      case nz: False
      then have "pkt' = set_len B (of_nat k) (set_op B VSOCK_OP_RW pkt1)"
        "c' = c\<lparr> c_stream := s1, c_rx_cnt := c_rx_cnt c + pkt_len B pkt', c_last_fwd_cnt_to_peer := c_fwd_cnt c \<rparr>"
        using r False cap q(1) Inr by (auto simp: recv_rw_def Let_def)
      then show ?thesis using nz k(1) u adv(1) cap p1 from_conn_sets(4) [OF B p1(1)]
        by (simp add: delivered_def credit_ok_def B from_conn_sets op_len_sets)
    qed
  qed
qed

lemma recv_rw_blocked:
  assumes S: "stream_ok S received" and pkt: "from_conn B c pkt" "pkt_len B pkt = 0"
    and r: "recv_rw B S now pkt m c = Some (None, pkt', m', c')"
  shows "from_conn B c pkt' \<and> pkt_len B pkt' = 0 \<and> c_rx_cnt c' = c_rx_cnt c
    \<and> c_peer_fwd_cnt c' = c_peer_fwd_cnt c \<and> c_peer_buf_alloc c' = c_peer_buf_alloc c"
proof -
  obtain cap where cap: "can_read c" "\<not> (need_credit_update_from_peer c \<and> \<not> host_send_closed (c_state c))" "buf_capacity pkt = Some cap"
    using r by (auto simp: recv_rw_def split: if_splits option.splits)
  obtain q pkt1 m1 s1 where q: "read_volatile_from S (min cap (peer_avail_credit c)) pkt m (c_stream c) = Some (q, pkt1, m1, s1)"
    "hdr pkt1 = hdr pkt"
    by (rule stream_ok_read [OF S, of "min cap (peer_avail_credit c)" pkt m "c_stream c"]) blast
  have "pkt' = pkt1" "c' = c\<lparr> c_stream := s1 \<rparr>"
    using r cap q(1) by (auto simp: recv_rw_def Let_def split: sum.splits if_splits prod.splits)
  then show ?thesis using pkt by (simp add: same_hdr [OF q(2)])
qed

lemma recv_credit_update_delivered:
  assumes "byteorder_ok B" "from_conn B c pkt" "pkt_len B pkt = 0" "credit_ok c"
    "c_rx_cnt d = c_rx_cnt c" "c_peer_fwd_cnt d = c_peer_fwd_cnt c" "c_peer_buf_alloc d = c_peer_buf_alloc c"
    "recv_credit_update B pkt d = (Inr (), pkt', d')"
  shows "delivered B c cap pkt' d'"
  using assms(5-8) control_delivered [OF assms(1-4), of VSOCK_OP_CREDIT_UPDATE]
  by (auto simp: recv_credit_update_def vsock_ops take_pending_simps split: if_splits)



section \<open>Large receive buffers\<close>

text \<open>A read may fill a receive buffer of more than 64 KiB; the packet is then refused when its header is
  committed, and the data taken from the stream is gone.\<close>

lemma large_rx_packet_refused:
  assumes B: "byteorder_ok B" and pkt: "hdr_ok pkt" "buf_capacity pkt = Some cap" "c_state c = Established"
    and pend: "c_pending_rx c = prx_from PrxRw"
    and r: "read_volatile_from S (min cap (peer_avail_credit c)) (init_pkt B c pkt) m (c_stream c) = Some (Inr n, pkt1, m1, s1)"
      "hdr pkt1 = hdr (init_pkt B c pkt)" "65536 < n" "n < 2 ^ 32" "0 < peer_avail_credit c"
  shows "\<exists>pkt' c'. conn_recv_pkt B S now pkt m c = Some (Inr (), pkt', m1, c') \<and> c_stream c' = s1
    \<and> commit_hdr B pkt' m1 = (Inl (InvalidPktLen (of_nat n)), m1)"
proof -
  have ini: "hdr_ok (init_pkt B c pkt)" "buf_capacity (init_pkt B c pkt) = Some cap"
    using init_pkt_ok [OF B pkt(1), of c] pkt(2) by (simp_all add: from_conn_def)
  let ?pkt = "set_len B (of_nat n) (set_op B VSOCK_OP_RW pkt1)"
  have "hdr_ok pkt1" using r(2) ini by (simp add: hdr_ok_def)
  then have len: "pkt_len B ?pkt = of_nat n" by (simp add: op_len_sets B)
  have "unat (of_nat n :: u32) = n" using r(4) by (simp add: unat_of_nat)
  then have commit: "commit_hdr B ?pkt m1 = (Inl (InvalidPktLen (of_nat n)), m1)"
    using r(3) by (simp add: commit_hdr_def validate_len_def len MAX_PKT_BUF_SIZE_def Let_def)
  show ?thesis using pkt(3) pend r ini commit
    by (simp add: conn_recv_pkt_def take_pending_simps recv_rw_def can_read_def need_credit_update_from_peer_def
        peer_avail_credit_def host_send_closed_def Let_def)
qed

text \<open>A shutdown in two steps: the guest first stops receiving, then sending, with data still buffered.  No kill timer
  is armed, unlike for a shutdown in one step.\<close>

lemma two_step_shutdown_no_timer:
  assumes "c_state c = PeerClosed True False" "\<not> txbuf_is_empty (c_tx_buf c)" "pkt_flags B pkt = VSOCK_FLAGS_SHUTDOWN_SEND"
  shows "c_state (send_shutdown B S now pkt c) = PeerClosed True True" "c_expiry (send_shutdown B S now pkt c) = c_expiry c"
  using assms by (simp_all add: send_shutdown_def shutdown_host_write_side_def VSOCK_FLAGS_SHUTDOWN_SEND_def
      VSOCK_FLAGS_SHUTDOWN_RCV_def Let_def)

lemma one_step_shutdown_timer:
  assumes "c_state c = Established" "\<not> txbuf_is_empty (c_tx_buf c)"
    "pkt_flags B pkt = VSOCK_FLAGS_SHUTDOWN_SEND OR VSOCK_FLAGS_SHUTDOWN_RCV"
  shows "c_expiry (send_shutdown B S now pkt c) = Some (now + CONN_SHUTDOWN_TIMEOUT_MS)"
  using assms by (simp add: send_shutdown_def arm_kill_timer_def VSOCK_FLAGS_SHUTDOWN_SEND_def
      VSOCK_FLAGS_SHUTDOWN_RCV_def Let_def)

end
