(* ===== verification/Msi.thy ===== *)
theory Msi
  imports MsiManager ByteOrder
begin

text \<open>
  \<^verbatim>\<open>pci/src/msi.rs\<close>: the MSI capability of a PCI device and the vectors it programs.  Unlike MSI-X it
  holds its interrupt source group directly, so that \<open>enable\<close> and \<open>disable\<close> reach the group.
\<close>

section \<open>Model\<close>

definition MSI_CTL_ENABLE :: u16 where "MSI_CTL_ENABLE = 0x1"
definition MSI_CTL_MULTI_MSG_ENABLE :: u16 where "MSI_CTL_MULTI_MSG_ENABLE = 0x70"
definition MSI_CTL_64_BITS :: u16 where "MSI_CTL_64_BITS = 0x80"
definition MSI_CTL_PER_VECTOR :: u16 where "MSI_CTL_PER_VECTOR = 0x100"
definition MSI_MSG_ADDR_LO_MASK :: u32 where "MSI_MSG_ADDR_LO_MASK = 0xfffffffc"

definition msi_num_enabled_vectors :: "u16 \<Rightarrow> nat" where
  "msi_num_enabled_vectors ctl =
    (let field = drop_bit 4 ctl AND 0x7 in if 5 < field then 0 else 2 ^ unat field)"

datatype msi_error = MsiEnableInterruptRoute irq_error | MsiUpdateInterruptRoute irq_error

record msi_cap =
  mc_msg_ctl :: u16
  mc_addr_lo :: u32
  mc_addr_hi :: u32
  mc_data :: u16
  mc_mask_bits :: u32
  mc_pending_bits :: u32

definition addr_64_bits :: "msi_cap \<Rightarrow> bool" where
  "addr_64_bits cap \<longleftrightarrow> mc_msg_ctl cap AND MSI_CTL_64_BITS = MSI_CTL_64_BITS"

definition per_vector_mask :: "msi_cap \<Rightarrow> bool" where
  "per_vector_mask cap \<longleftrightarrow> mc_msg_ctl cap AND MSI_CTL_PER_VECTOR = MSI_CTL_PER_VECTOR"

definition msi_enabled :: "msi_cap \<Rightarrow> bool" where
  "msi_enabled cap \<longleftrightarrow> mc_msg_ctl cap AND MSI_CTL_ENABLE = MSI_CTL_ENABLE"

definition num_enabled_vectors :: "msi_cap \<Rightarrow> nat" where
  "num_enabled_vectors cap = msi_num_enabled_vectors (mc_msg_ctl cap)"

definition vector_masked :: "msi_cap \<Rightarrow> nat \<Rightarrow> bool" where
  "vector_masked cap vec \<longleftrightarrow> per_vector_mask cap \<and> drop_bit vec (mc_mask_bits cap) AND 0x1 = 0x1"

definition msi_cap_size :: "msi_cap \<Rightarrow> u64" where
  "msi_cap_size cap = 0xa + (if addr_64_bits cap then 0x4 else 0) + (if per_vector_mask cap then 0xa else 0)"

definition msi_offsets :: "msi_cap \<Rightarrow> u64 \<times> u64 option \<times> u64 option" where
  "msi_offsets cap =
    (if addr_64_bits cap then (0xc, Some 0x8, if per_vector_mask cap then Some 0x10 else None)
     else (0x8, None, if per_vector_mask cap then Some 0xc else None))"

definition msi_cap_update :: "byteorder_ops \<Rightarrow> msi_cap \<Rightarrow> u64 \<Rightarrow> u8 list \<Rightarrow> msi_cap" where
  "msi_cap_update B cap offset data =
    (let (msg_data_offset, addr_hi_offset, mask_bits_offset) = msi_offsets cap;
         rw = MSI_CTL_ENABLE OR MSI_CTL_MULTI_MSG_ENABLE in
     if length data = 2
     then let value = read_u16 B data in
       if offset = 0x2 then cap\<lparr> mc_msg_ctl := (mc_msg_ctl cap AND NOT rw) OR (value AND rw) \<rparr>
       else if offset = msg_data_offset then cap\<lparr> mc_data := value \<rparr>
       else cap
     else if length data = 4
     then let value = read_u32 B data in
       if offset = 0x0
       then cap\<lparr> mc_msg_ctl := (mc_msg_ctl cap AND NOT rw) OR (ucast (drop_bit 16 value) AND rw) \<rparr>
       else if offset = 0x4 then cap\<lparr> mc_addr_lo := value AND MSI_MSG_ADDR_LO_MASK \<rparr>
       else if offset = msg_data_offset then cap\<lparr> mc_data := ucast value \<rparr>
       else if addr_hi_offset = Some offset then cap\<lparr> mc_addr_hi := value \<rparr>
       else if mask_bits_offset = Some offset then cap\<lparr> mc_mask_bits := value \<rparr>
       else cap
     else cap)"

definition cap_config :: "msi_cap \<Rightarrow> interrupt_source_config" where
  "cap_config cap =
    MsiIrq \<lparr> high_addr = mc_addr_hi cap, low_addr = mc_addr_lo cap, msi_data = ucast (mc_data cap), devid = 0 \<rparr>"

text \<open>The vectors \<open>idx\<close>, \<open>idx + 1\<close>, ..., \<open>idx + n - 1\<close>, with the errors logged on the way.\<close>

fun msi_update_vectors ::
  "'g isg_ops \<Rightarrow> msi_cap \<Rightarrow> nat \<Rightarrow> nat \<Rightarrow> 'g \<Rightarrow> ('g \<times> irq_error list) option" where
  "msi_update_vectors I cap idx 0 g = Some (g, [])"
| "msi_update_vectors I cap idx (Suc n) g =
    (case isg_update I (word_of_nat idx) (cap_config cap) (vector_masked cap idx) True g of
       None \<Rightarrow> None
     | Some (r, g') \<Rightarrow>
         map_option (\<lambda>(g'', errs). (g'', logged r @ errs))
           (msi_update_vectors I cap (Suc idx) n g'))"

fun msi_restore_vectors ::
  "'g isg_ops \<Rightarrow> msi_cap \<Rightarrow> nat \<Rightarrow> nat \<Rightarrow> 'g \<Rightarrow> ((msi_error + unit) \<times> 'g) option" where
  "msi_restore_vectors I cap idx 0 g = Some (Inr (), g)"
| "msi_restore_vectors I cap idx (Suc n) g =
    (case isg_update I (word_of_nat idx) (cap_config cap) (vector_masked cap idx) False g of
       None \<Rightarrow> None
     | Some (Inl e, g') \<Rightarrow> Some (Inl (MsiUpdateInterruptRoute e), g')
     | Some (Inr _, g') \<Rightarrow> msi_restore_vectors I cap (Suc idx) n g')"

definition msi_new ::
  "'g isg_ops \<Rightarrow> u16 \<Rightarrow> msi_cap option \<Rightarrow> 'g \<Rightarrow> ((msi_error + msi_cap) \<times> 'g) option" where
  "msi_new I ctl state g =
    (case state of
       None \<Rightarrow>
         Some (Inr \<lparr> mc_msg_ctl = ctl, mc_addr_lo = 0, mc_addr_hi = 0, mc_data = 0,
           mc_mask_bits = 0, mc_pending_bits = 0 \<rparr>, g)
     | Some cap \<Rightarrow>
         if \<not> msi_enabled cap then Some (Inr cap, g)
         else
           case msi_restore_vectors I cap 0 (num_enabled_vectors cap) g of
             None \<Rightarrow> None
           | Some (Inl e, g1) \<Rightarrow> Some (Inl e, g1)
           | Some (Inr _, g1) \<Rightarrow>
               (case isg_set_gsi I g1 of
                  None \<Rightarrow> None
                | Some (Inl e, g2) \<Rightarrow> Some (Inl (MsiEnableInterruptRoute e), g2)
                | Some (Inr _, g2) \<Rightarrow>
                    (case isg_enable I g2 of
                       None \<Rightarrow> None
                     | Some (Inl e, g3) \<Rightarrow> Some (Inl (MsiEnableInterruptRoute e), g3)
                     | Some (Inr _, g3) \<Rightarrow> Some (Inr cap, g3))))"

definition msi_update ::
  "byteorder_ops \<Rightarrow> 'g isg_ops \<Rightarrow> msi_cap \<Rightarrow> u64 \<Rightarrow> u8 list \<Rightarrow> 'g \<Rightarrow> (msi_cap \<times> 'g \<times> irq_error list) option" where
  "msi_update B I cap offset data g =
    (let old_enabled = msi_enabled cap; cap = msi_cap_update B cap offset data in
     if msi_enabled cap
     then case msi_update_vectors I cap 0 (num_enabled_vectors cap) g of
            None \<Rightarrow> None
          | Some (g1, errs) \<Rightarrow>
              if \<not> old_enabled
              then map_option (\<lambda>(r, g2). (cap, g2, errs @ logged r))
                     (isg_enable I g1)
              else Some (cap, g1, errs)
     else if old_enabled
     then map_option (\<lambda>(r, g2). (cap, g2, logged r)) (isg_disable I g)
     else Some (cap, g, []))"

section \<open>The vectors follow the capability\<close>

lemma num_vectors_bound: "num_enabled_vectors cap \<le> 32"
proof -
  have "2 ^ unat f \<le> (32 :: nat)" if "f \<le> (5 :: u16)" for f
    using power_increasing [of "unat f" 5 "2 :: nat"] that by (simp add: word_le_nat_alt)
  then show ?thesis
    by (simp add: num_enabled_vectors_def msi_num_enabled_vectors_def Let_def not_less)
qed

lemma msi_index_inj: "i < 64 \<Longrightarrow> j < 64 \<Longrightarrow> (word_of_nat i :: u32) = word_of_nat j \<longleftrightarrow> i = j"
  by (simp add: word_unat_eq_iff unat_of_nat take_bit_nat_eq_self)

context interrupt_source_group
begin

definition vectors_set :: "'g \<Rightarrow> msi_cap \<Rightarrow> nat \<Rightarrow> bool" where
  "vectors_set g cap n \<longleftrightarrow> (\<forall>i < n. as_set g (word_of_nat i) (cap_config cap) (vector_masked cap i))"

lemma vectors_set_update:
  assumes "invar g" "vectors_set g cap k" "k < 64"
    and "isg_update ops (word_of_nat k) (cap_config cap) (vector_masked cap k) s g = Some (Inr u, g')"
  shows "vectors_set g' cap (Suc k)"
  unfolding vectors_set_def
proof (intro allI impI)
  fix i assume "i < Suc k"
  show "as_set g' (word_of_nat i) (cap_config cap) (vector_masked cap i)"
  proof (cases "i = k")
    case True
    then show ?thesis using update_as_set [OF assms(1,4)] by simp
  next
    case False
    then have "(word_of_nat i :: u32) \<noteq> word_of_nat k" "i < k"
      using msi_index_inj [of i k] \<open>i < Suc k\<close> assms(3) by auto
    then show ?thesis
      using update_keeps [OF assms(1,4)] assms(2) by (simp add: vectors_set_def)
  qed
qed

lemma msi_update_vectors_set:
  assumes "invar g" "k + n \<le> 64"
  obtains g' errs where "msi_update_vectors ops cap k n g = Some (g', errs)" "invar g'"
    "errs = [] \<Longrightarrow> vectors_set g cap k \<Longrightarrow> vectors_set g' cap (k + n)"
  using assms
proof (induction n arbitrary: k g thesis)
  case 0
  then show ?case by simp
next
  case (Suc n)
  obtain r g1 where u: "isg_update ops (word_of_nat k) (cap_config cap) (vector_masked cap k) True g = Some (r, g1)"
    using update_total [OF Suc(3)] by blast
  have g1: "invar g1" using update_invar [OF Suc(3) u] by simp
  obtain g' errs where rest: "msi_update_vectors ops cap (Suc k) n g1 = Some (g', errs)" "invar g'"
    "errs = [] \<Longrightarrow> vectors_set g1 cap (Suc k) \<Longrightarrow> vectors_set g' cap (Suc k + n)"
    using Suc(1) [OF _ g1, of "Suc k"] Suc(4) by auto
  show ?case
  proof (rule Suc(2))
    show "msi_update_vectors ops cap k (Suc n) g = Some (g', logged r @ errs)"
      using u rest(1) by simp
    show "vectors_set g' cap (k + Suc n)" if "logged r @ errs = []" "vectors_set g cap k"
      using that rest(3) vectors_set_update [OF Suc(3) that(2)] u Suc(4) by auto
  qed (rule rest(2))
qed

end

lemma grp_enable_delivers:
  assumes "grp_enable H st = Some (res, st')" "msi_delivers H st i c"
  shows "msi_delivers H st' i c"
proof -
  obtain g m where st: "st = (g, m)" by (cases st)
  obtain g' v where loop: "for_routes (rt_enable H) g (mm_vm m) = (res, g', v)" and st': "st' = (g', m\<lparr> mm_vm := v \<rparr>)"
    using assms(1) by (auto simp: st grp_enable_def split: prod.splits)
  let ?P = "\<lambda>r r'. rt_gsi r' = rt_gsi r \<and> (rt_registered r \<longrightarrow> rt_registered r')"
  have "?P r (fst (snd (rt_enable H r v)))" for r v
  proof -
    obtain q r' v' where e: "rt_enable H r v = (q, r', v')" by (metis prod_cases3)
    from rt_enable_shape(1,3) [OF e] show ?thesis by (auto simp: e)
  qed
  then have "list_all2 (route_rel ?P) g g'" by (intro for_routes_rel [OF loop, where P = ?P]) auto
  from routes_rel_get(1) [OF this, of i] assms(2) show ?thesis
    by (auto simp: msi_delivers_def st st' option_rel_Some1)
qed

lemma grp_loops_total: "grp_enable H st \<noteq> None" "grp_disable H st \<noteq> None"
  by (auto simp: grp_enable_def grp_disable_def split: prod.splits)


lemma calm_enable: "\<exists>st'. grp_enable calm_hyp st = Some (Inr (), st')"
proof -
  have "\<exists>g' v'. for_routes (rt_enable calm_hyp) g v = (Inr (), g', v')" for g v
  proof (induction g arbitrary: v)
    case (Cons a g)
    obtain i r where a: "a = (i, r)" by (cases a)
    obtain r' v1 where "rt_enable calm_hyp r v = (Inr (), r', v1)"
      by (cases "rt_gsi r"; cases "rt_irq_fd r"; cases "rt_registered r") (auto simp: rt_enable_def calm_hyp_def)
    moreover obtain g' v' where "for_routes (rt_enable calm_hyp) g v1 = (Inr (), g', v')" using Cons by blast
    ultimately show ?case by (simp add: a)
  qed simp
  then obtain g' v' where "for_routes (rt_enable calm_hyp) (fst st) (mm_vm (snd st)) = (Inr (), g', v')" by blast
  then show ?thesis by (simp add: grp_enable_def split_beta)
qed


section \<open>The layout of the capability\<close>

definition msi_cap_wf :: "msi_cap \<Rightarrow> bool" where
  "msi_cap_wf cap \<longleftrightarrow> mc_addr_lo cap AND 3 = 0 \<and> (\<not> addr_64_bits cap \<longrightarrow> mc_addr_hi cap = 0)
    \<and> (\<not> per_vector_mask cap \<longrightarrow> mc_mask_bits cap = 0) \<and> mc_pending_bits cap = 0"

lemma rw_merge:
  "((c AND NOT 0x71) OR (v AND 0x71)) AND 0xff8e = (c AND 0xff8e :: u16)"
  "((c AND NOT 0x71) OR (v AND 0x71)) AND 0x80 = (c AND 0x80 :: u16)"
  "((c AND NOT 0x71) OR (v AND 0x71)) AND 0x100 = (c AND 0x100 :: u16)"
proof -
  have d: "(x OR (v AND y)) AND z = (x AND z) OR (v AND (y AND z))" for x y z :: u16
    by (rule bit_word_eqI) (auto simp: bit_simps)
  have e: "(c AND NOT 0x71) AND z = c AND (NOT 0x71 AND z)" for z :: u16 by (simp add: ac_simps)
  show "((c AND NOT 0x71) OR (v AND 0x71)) AND 0xff8e = (c AND 0xff8e :: u16)"
    "((c AND NOT 0x71) OR (v AND 0x71)) AND 0x80 = (c AND 0x80 :: u16)"
    "((c AND NOT 0x71) OR (v AND 0x71)) AND 0x100 = (c AND 0x100 :: u16)"
    unfolding d e by simp_all
qed

lemma msi_flags_merge:
  assumes "mc_msg_ctl cap' = (mc_msg_ctl cap AND NOT 0x71) OR (v AND 0x71)"
  shows "addr_64_bits cap' = addr_64_bits cap" "per_vector_mask cap' = per_vector_mask cap"
  using rw_merge [of "mc_msg_ctl cap" v]
  by (simp_all add: addr_64_bits_def per_vector_mask_def MSI_CTL_64_BITS_def MSI_CTL_PER_VECTOR_def assms)

definition layout_kept :: "msi_cap \<Rightarrow> msi_cap \<Rightarrow> bool" where
  "layout_kept cap cap' \<longleftrightarrow> msi_cap_wf cap' \<and> mc_msg_ctl cap' AND 0xff8e = mc_msg_ctl cap AND 0xff8e
    \<and> msi_cap_size cap' = msi_cap_size cap \<and> msi_offsets cap' = msi_offsets cap"

lemma layout_kept_fields:
  assumes "msi_cap_wf cap"
  shows "layout_kept cap (cap\<lparr> mc_msg_ctl := (mc_msg_ctl cap AND NOT 0x71) OR (v AND 0x71) \<rparr>)"
    "layout_kept cap (cap\<lparr> mc_data := d \<rparr>)" "layout_kept cap (cap\<lparr> mc_addr_lo := l AND 0xfffffffc \<rparr>)"
    "addr_64_bits cap \<Longrightarrow> layout_kept cap (cap\<lparr> mc_addr_hi := h \<rparr>)"
    "per_vector_mask cap \<Longrightarrow> layout_kept cap (cap\<lparr> mc_mask_bits := h \<rparr>)" "layout_kept cap cap"
proof -
  have lo: "(l AND 0xfffffffc) AND 3 = (0 :: u32)" by (simp add: and.assoc)
  note flags = msi_flags_merge [of "cap\<lparr> mc_msg_ctl := (mc_msg_ctl cap AND NOT 0x71) OR (v AND 0x71) \<rparr>" cap v, simplified]
  have other: "addr_64_bits (cap\<lparr> mc_data := d \<rparr>) = addr_64_bits cap" "per_vector_mask (cap\<lparr> mc_data := d \<rparr>) = per_vector_mask cap"
    "addr_64_bits (cap\<lparr> mc_addr_lo := l' \<rparr>) = addr_64_bits cap" "per_vector_mask (cap\<lparr> mc_addr_lo := l' \<rparr>) = per_vector_mask cap"
    "addr_64_bits (cap\<lparr> mc_addr_hi := h \<rparr>) = addr_64_bits cap" "per_vector_mask (cap\<lparr> mc_addr_hi := h \<rparr>) = per_vector_mask cap"
    "addr_64_bits (cap\<lparr> mc_mask_bits := h \<rparr>) = addr_64_bits cap" "per_vector_mask (cap\<lparr> mc_mask_bits := h \<rparr>) = per_vector_mask cap"
    for l' by (simp_all add: addr_64_bits_def per_vector_mask_def)
  note defs = layout_kept_def msi_cap_wf_def msi_cap_size_def msi_offsets_def
  show "layout_kept cap (cap\<lparr> mc_msg_ctl := (mc_msg_ctl cap AND NOT 0x71) OR (v AND 0x71) \<rparr>)"
    using assms rw_merge(1) by (simp add: defs flags)
  show "layout_kept cap (cap\<lparr> mc_data := d \<rparr>)" "layout_kept cap (cap\<lparr> mc_addr_lo := l AND 0xfffffffc \<rparr>)"
    "addr_64_bits cap \<Longrightarrow> layout_kept cap (cap\<lparr> mc_addr_hi := h \<rparr>)"
    "per_vector_mask cap \<Longrightarrow> layout_kept cap (cap\<lparr> mc_mask_bits := h \<rparr>)" "layout_kept cap cap"
    using assms lo by (simp_all add: defs other)
qed

lemma msi_cap_update_layout:
  assumes "msi_cap_wf cap"
  shows "layout_kept cap (msi_cap_update B cap off data)"
proof -
  have rw: "MSI_CTL_ENABLE OR MSI_CTL_MULTI_MSG_ENABLE = 0x71"
    by (simp add: MSI_CTL_ENABLE_def MSI_CTL_MULTI_MSG_ENABLE_def)
  note k = layout_kept_fields [OF assms]
  show ?thesis
    unfolding msi_cap_update_def rw Let_def msi_offsets_def MSI_MSG_ADDR_LO_MASK_def
    by (simp split: if_split prod.split add: k k(1) [simplified])
qed

text \<open>
  C22: The guest cannot change the shape of the MSI capability.  Under any sequence of writes of any
  width to any offset, the capability stays well-formed (address aligned, no upper address
  without 64-bit support, no mask bits without per-vector masking), its read-only control bits
  stay as they were, and so do its size and the offsets of its registers.
\<close>
theorem msi_layout_fixed:
  assumes "msi_cap_wf cap"
  shows "let cap' = fold (\<lambda>(off, data) c. msi_cap_update B c off data) ws cap in
    msi_cap_wf cap' \<and> mc_msg_ctl cap' AND 0xff8e = mc_msg_ctl cap AND 0xff8e
    \<and> msi_cap_size cap' = msi_cap_size cap \<and> msi_offsets cap' = msi_offsets cap"
  using assms
proof (induction ws arbitrary: cap)
  case (Cons w ws)
  obtain off data where w: "w = (off, data)" by (cases w)
  from msi_cap_update_layout [OF Cons(2), of B off data] Cons(1) [of "msi_cap_update B cap off data"]
  show ?case by (simp add: w layout_kept_def Let_def)
qed simp

theorem msi_layout_fixed_witness:
  "\<exists>cap. msi_cap_wf cap \<and> msi_cap_size cap = 24
     \<and> (let cap' = fold (\<lambda>(off, data) c. msi_cap_update std_le c off data)
          [(2, [1, 0]), (4, [0, 0, 0xe0, 0xfe]), (0x10, [0xff, 0, 0, 0])] cap
        in msi_cap_wf cap' \<and> msi_cap_size cap' = 24)"
proof -
  define cap where "cap = \<lparr> mc_msg_ctl = 0x180, mc_addr_lo = 0, mc_addr_hi = 0, mc_data = 0,
           mc_mask_bits = 0, mc_pending_bits = 0 \<rparr>"
  have "msi_cap_wf cap" "msi_cap_size cap = 24"
    by (simp_all add: cap_def msi_cap_wf_def msi_cap_size_def addr_64_bits_def per_vector_mask_def
        MSI_CTL_64_BITS_def MSI_CTL_PER_VECTOR_def)
  then show ?thesis
    using msi_layout_fixed [of cap std_le "[(2, [1, 0]), (4, [0, 0, 0xe0, 0xfe]), (0x10, [0xff, 0, 0, 0])]"]
    by (intro exI [of _ cap]) (simp add: Let_def)
qed

end
