(* ===== verification/Msix.thy ===== *)
theory Msix
  imports MsiManager ByteOrder
begin

text \<open>
  \<^verbatim>\<open>pci/src/msix.rs\<close>: the MSI-X table, the pending bit array and the capability of a PCI device, and
  \<open>VirtioInterruptMsix\<close> of \<^verbatim>\<open>virtio-devices/src/transport/pci_device.rs\<close>, which raises its interrupts.
  The interrupt source group is the \<open>MaybeMutInterruptSourceGroup\<close> of the device; an operation that
  calls it returns the new state of the group and the errors it logs.  \<open>None\<close> is a panic (a failed
  assertion or an index out of range).
\<close>

section \<open>Model\<close>

subsection \<open>State\<close>

record msix_table_entry =
  msg_addr_lo :: u32
  msg_addr_hi :: u32
  msg_data :: u32
  vector_ctl :: u32

definition entry_masked :: "msix_table_entry \<Rightarrow> bool" where
  "entry_masked e \<longleftrightarrow> vector_ctl e AND 0x1 = 0x1"

definition default_entry :: msix_table_entry where
  "default_entry = \<lparr> msg_addr_lo = 0, msg_addr_hi = 0, msg_data = 0, vector_ctl = 0x1 \<rparr>"

definition MAX_MSIX_VECTORS_PER_DEVICE :: u16 where
  "MAX_MSIX_VECTORS_PER_DEVICE = 2048"

definition BITS_PER_PBA_ENTRY :: nat where
  "BITS_PER_PBA_ENTRY = 64"

record msix_config_state =
  st_table_entries :: "msix_table_entry list"
  st_pba_entries :: "u64 list"
  st_masked :: bool
  st_enabled :: bool

record msix_config =
  table_entries :: "msix_table_entry list"
  pba_entries :: "u64 list"
  mx_devid :: u32
  mx_masked :: bool
  mx_enabled :: bool

datatype msix_error = EnableInterruptRoute irq_error | UpdateInterruptRoute irq_error

definition entry_config :: "u32 \<Rightarrow> msix_table_entry \<Rightarrow> interrupt_source_config" where
  "entry_config dev e =
    MsiIrq \<lparr> high_addr = msg_addr_hi e, low_addr = msg_addr_lo e, msi_data = msg_data e, devid = dev \<rparr>"

subsection \<open>Construction\<close>

fun restore_vectors ::
  "'g isg_ops \<Rightarrow> u32 \<Rightarrow> bool \<Rightarrow> nat \<Rightarrow> msix_table_entry list \<Rightarrow> 'g \<Rightarrow> ((msix_error + unit) \<times> 'g) option" where
  "restore_vectors I dev masked idx [] g = Some (Inr (), g)"
| "restore_vectors I dev masked idx (e # es) g =
    (if entry_masked e then restore_vectors I dev masked (Suc idx) es g
     else case isg_update I (word_of_nat idx) (entry_config dev e) masked True g of
            None \<Rightarrow> None
          | Some (Inl x, g1) \<Rightarrow> Some (Inl (UpdateInterruptRoute x), g1)
          | Some (Inr _, g1) \<Rightarrow>
              (case isg_enable I g1 of
                 None \<Rightarrow> None
               | Some (Inl x, g2) \<Rightarrow> Some (Inl (EnableInterruptRoute x), g2)
               | Some (Inr _, g2) \<Rightarrow> restore_vectors I dev masked (Suc idx) es g2))"

definition msix_new ::
  "'g isg_ops \<Rightarrow> u16 \<Rightarrow> u32 \<Rightarrow> msix_config_state option \<Rightarrow> 'g \<Rightarrow> ((msix_error + msix_config) \<times> 'g) option" where
  "msix_new I msix_vectors dev state g =
    (if \<not> msix_vectors \<le> MAX_MSIX_VECTORS_PER_DEVICE then None
     else case state of
       Some st \<Rightarrow>
         (case (if st_enabled st \<and> \<not> st_masked st
                then restore_vectors I dev (st_masked st) 0 (st_table_entries st) g
                else Some (Inr (), g)) of
            None \<Rightarrow> None
          | Some (Inl x, g') \<Rightarrow> Some (Inl x, g')
          | Some (Inr _, g') \<Rightarrow>
              Some (Inr \<lparr> table_entries = st_table_entries st, pba_entries = st_pba_entries st,
                mx_devid = dev, mx_masked = st_masked st, mx_enabled = st_enabled st \<rparr>, g'))
     | None \<Rightarrow>
         let num_pba_entries = unat msix_vectors div BITS_PER_PBA_ENTRY + 1 in
         Some (Inr \<lparr> table_entries = replicate (unat msix_vectors) default_entry,
           pba_entries = replicate num_pba_entries 0,
           mx_devid = dev, mx_masked = True, mx_enabled = False \<rparr>, g))"

definition msix_state :: "msix_config \<Rightarrow> msix_config_state" where
  "msix_state cfg =
    \<lparr> st_table_entries = table_entries cfg, st_pba_entries = pba_entries cfg,
      st_masked = mx_masked cfg, st_enabled = mx_enabled cfg \<rparr>"

subsection \<open>Pending bits\<close>

definition set_pba_bit :: "msix_config \<Rightarrow> u16 \<Rightarrow> bool \<Rightarrow> msix_config option" where
  "set_pba_bit cfg vec reset =
    (if \<not> vec < MAX_MSIX_VECTORS_PER_DEVICE then None
     else
       let index = unat vec div BITS_PER_PBA_ENTRY; shift = unat vec mod BITS_PER_PBA_ENTRY;
           mask = push_bit shift 1 :: u64 in
       if index < length (pba_entries cfg)
       then Some (cfg\<lparr> pba_entries := (pba_entries cfg)[index :=
              (if reset then pba_entries cfg ! index AND NOT mask else pba_entries cfg ! index OR mask)] \<rparr>)
       else None)"

definition get_pba_bit :: "msix_config \<Rightarrow> u16 \<Rightarrow> u8 option" where
  "get_pba_bit cfg vec =
    (if \<not> vec < MAX_MSIX_VECTORS_PER_DEVICE then None
     else
       let index = unat vec div BITS_PER_PBA_ENTRY; shift = unat vec mod BITS_PER_PBA_ENTRY in
       if index < length (pba_entries cfg)
       then Some (ucast (drop_bit shift (pba_entries cfg ! index) AND 1))
       else None)"

definition inject_msix_and_clear_pba ::
  "'g isg_ops \<Rightarrow> msix_config \<Rightarrow> nat \<Rightarrow> 'g \<Rightarrow> (msix_config \<times> 'g \<times> irq_error list) option" where
  "inject_msix_and_clear_pba I cfg vec g =
    (case isg_trigger I (word_of_nat vec) g of
       None \<Rightarrow> None
     | Some (r, g') \<Rightarrow>
         map_option (\<lambda>cfg'. (cfg', g', logged r))
           (set_pba_bit cfg (word_of_nat vec) True))"

subsection \<open>Message control\<close>

fun update_vectors ::
  "'g isg_ops \<Rightarrow> u32 \<Rightarrow> nat \<Rightarrow> msix_table_entry list \<Rightarrow> 'g \<Rightarrow> ('g \<times> irq_error list) option" where
  "update_vectors I dev idx [] g = Some (g, [])"
| "update_vectors I dev idx (e # es) g =
    (case isg_update I (word_of_nat idx) (entry_config dev e) (entry_masked e) True g of
       None \<Rightarrow> None
     | Some (r, g') \<Rightarrow>
         map_option (\<lambda>(g'', errs). (g'', logged r @ errs))
           (update_vectors I dev (Suc idx) es g'))"

fun inject_pending ::
  "'g isg_ops \<Rightarrow> nat \<Rightarrow> msix_table_entry list \<Rightarrow> msix_config \<Rightarrow> 'g
    \<Rightarrow> (msix_config \<times> 'g \<times> irq_error list) option" where
  "inject_pending I index [] cfg g = Some (cfg, g, [])"
| "inject_pending I index (e # es) cfg g =
    (if entry_masked e then inject_pending I (Suc index) es cfg g
     else case get_pba_bit cfg (word_of_nat index) of
            None \<Rightarrow> None
          | Some b \<Rightarrow>
              if b = 1
              then case inject_msix_and_clear_pba I cfg index g of
                     None \<Rightarrow> None
                   | Some (cfg', g', errs) \<Rightarrow>
                       map_option (\<lambda>(cfg'', g'', errs'). (cfg'', g'', errs @ errs'))
                         (inject_pending I (Suc index) es cfg' g')
              else inject_pending I (Suc index) es cfg g)"

text \<open>The routing part of \<open>set_msg_ctl\<close>.\<close>

definition update_routing ::
  "'g isg_ops \<Rightarrow> bool \<Rightarrow> bool \<Rightarrow> msix_config \<Rightarrow> 'g \<Rightarrow> ('g \<times> irq_error list) option" where
  "update_routing I old_masked old_enabled cfg g =
    (if old_masked \<noteq> mx_masked cfg \<or> old_enabled \<noteq> mx_enabled cfg
     then if mx_enabled cfg \<and> \<not> mx_masked cfg
          then update_vectors I (mx_devid cfg) 0 (table_entries cfg) g
          else if old_enabled \<or> \<not> old_masked
          then case isg_disable I g of
                 None \<Rightarrow> None
               | Some (r, g') \<Rightarrow> Some (g', logged r)
          else Some (g, [])
     else Some (g, []))"

definition set_msg_ctl ::
  "'g isg_ops \<Rightarrow> msix_config \<Rightarrow> u16 \<Rightarrow> 'g \<Rightarrow> (msix_config \<times> 'g \<times> irq_error list) option" where
  "set_msg_ctl I cfg reg g =
    (let old_masked = mx_masked cfg; old_enabled = mx_enabled cfg;
         cfg = cfg\<lparr> mx_masked := drop_bit 14 reg AND 1 = 1, mx_enabled := drop_bit 15 reg AND 1 = 1 \<rparr>
     in case update_routing I old_masked old_enabled cfg g of
          None \<Rightarrow> None
        | Some (g1, errs) \<Rightarrow>
            if old_masked \<and> \<not> mx_masked cfg
            then map_option (\<lambda>(cfg', g2, errs'). (cfg', g2, errs @ errs'))
                   (inject_pending I 0 (table_entries cfg) cfg g1)
            else Some (cfg, g1, errs))"

subsection \<open>Guest accesses\<close>

definition read_table :: "byteorder_ops \<Rightarrow> msix_config \<Rightarrow> u64 \<Rightarrow> u8 list \<Rightarrow> u8 list" where
  "read_table B cfg offset data =
    (if length data \<noteq> 4 \<and> length data \<noteq> 8 then replicate (length data) 0xff
     else
       let index = unat (offset div 16); modulo_offset = offset mod 16 in
       if length (table_entries cfg) \<le> index then replicate (length data) 0xff
       else
         let e = table_entries cfg ! index in
         if length data = 4
         then write_u32 B
                (if modulo_offset = 0x0 then msg_addr_lo e
                 else if modulo_offset = 0x4 then msg_addr_hi e
                 else if modulo_offset = 0x8 then msg_data e
                 else if modulo_offset = 0xc then vector_ctl e
                 else 0)
         else write_u64 B
                (if modulo_offset = 0x0
                 then push_bit 32 (ucast (msg_addr_hi e)) OR ucast (msg_addr_lo e)
                 else if modulo_offset = 0x8
                 then push_bit 32 (ucast (vector_ctl e)) OR ucast (msg_data e)
                 else 0))"

definition store_entry :: "byteorder_ops \<Rightarrow> u64 \<Rightarrow> u8 list \<Rightarrow> msix_table_entry \<Rightarrow> msix_table_entry" where
  "store_entry B modulo_offset data e =
    (if length data = 4
     then let value = read_u32 B data in
       if modulo_offset = 0x0 then e\<lparr> msg_addr_lo := value \<rparr>
       else if modulo_offset = 0x4 then e\<lparr> msg_addr_hi := value \<rparr>
       else if modulo_offset = 0x8 then e\<lparr> msg_data := value \<rparr>
       else if modulo_offset = 0xc then e\<lparr> vector_ctl := value \<rparr>
       else e
     else let value = read_u64 B data in
       if modulo_offset = 0x0
       then e\<lparr> msg_addr_lo := ucast (value AND 0xffffffff), msg_addr_hi := ucast (drop_bit 32 value) \<rparr>
       else if modulo_offset = 0x8
       then e\<lparr> msg_data := ucast (value AND 0xffffffff), vector_ctl := ucast (drop_bit 32 value) \<rparr>
       else e)"

definition write_table ::
  "byteorder_ops \<Rightarrow> 'g isg_ops \<Rightarrow> msix_config \<Rightarrow> u64 \<Rightarrow> u8 list \<Rightarrow> 'g
    \<Rightarrow> (msix_config \<times> 'g \<times> irq_error list) option" where
  "write_table B I cfg offset data g =
    (if length data \<noteq> 4 \<and> length data \<noteq> 8 then Some (cfg, g, [])
     else
       let index = unat (offset div 16); modulo_offset = offset mod 16 in
       if length (table_entries cfg) \<le> index then Some (cfg, g, [])
       else
         let old_entry = table_entries cfg ! index;
             table_entry = store_entry B modulo_offset data old_entry;
             cfg = cfg\<lparr> table_entries := (table_entries cfg)[index := table_entry] \<rparr> in
         if old_entry = table_entry then Some (cfg, g, [])
         else
           case (if mx_enabled cfg \<and> \<not> mx_masked cfg \<and> \<not> entry_masked table_entry
                 then isg_update I (word_of_nat index) (entry_config (mx_devid cfg) table_entry)
                        (entry_masked table_entry) True g
                 else Some (Inr (), g)) of
             None \<Rightarrow> None
           | Some (r, g1) \<Rightarrow>
               let errs = logged r in
               if \<not> mx_masked cfg \<and> mx_enabled cfg \<and> entry_masked old_entry \<and> \<not> entry_masked table_entry
               then case get_pba_bit cfg (word_of_nat index) of
                      None \<Rightarrow> None
                    | Some b \<Rightarrow>
                        if b = 1
                        then map_option (\<lambda>(cfg', g2, errs'). (cfg', g2, errs @ errs'))
                               (inject_msix_and_clear_pba I cfg index g1)
                        else Some (cfg, g1, errs)
               else Some (cfg, g1, errs))"

definition read_pba :: "byteorder_ops \<Rightarrow> msix_config \<Rightarrow> u64 \<Rightarrow> u8 list \<Rightarrow> u8 list" where
  "read_pba B cfg offset data =
    (if length data \<noteq> 4 \<and> length data \<noteq> 8 then replicate (length data) 0xff
     else
       let index = unat (offset div 8); modulo_offset = offset mod 8 in
       if length (pba_entries cfg) \<le> index then replicate (length data) 0xff
       else if length data = 4
       then write_u32 B
              (if modulo_offset = 0x0 then ucast (pba_entries cfg ! index AND 0xffffffff)
               else if modulo_offset = 0x4 then ucast (drop_bit 32 (pba_entries cfg ! index))
               else 0)
       else write_u64 B (if modulo_offset = 0x0 then pba_entries cfg ! index else 0))"

definition write_pba :: "msix_config \<Rightarrow> u64 \<Rightarrow> u8 list \<Rightarrow> msix_config" where
  "write_pba cfg offset data = cfg"

subsection \<open>The capability\<close>

record msix_cap =
  msg_ctl :: u16
  cap_table :: u32
  cap_pba :: u32

definition FUNCTION_MASK_MASK :: u16 where
  "FUNCTION_MASK_MASK = push_bit 14 1"

definition MSIX_ENABLE_MASK :: u16 where
  "MSIX_ENABLE_MASK = push_bit 15 1"

definition msix_cap_new :: "u8 \<Rightarrow> u16 \<Rightarrow> u32 \<Rightarrow> u8 \<Rightarrow> u32 \<Rightarrow> msix_cap option" where
  "msix_cap_new table_pci_bar table_sz table_off pba_pci_bar pba_off =
    (if table_sz < MAX_MSIX_VECTORS_PER_DEVICE
     then Some \<lparr> msg_ctl = 0x8000 + table_sz - 1,
            cap_table = (table_off AND 0xfffffff8) OR ucast (table_pci_bar AND 0x7),
            cap_pba = (pba_off AND 0xfffffff8) OR ucast (pba_pci_bar AND 0x7) \<rparr>
     else None)"

definition cap_set_msg_ctl :: "msix_cap \<Rightarrow> u16 \<Rightarrow> msix_cap" where
  "cap_set_msg_ctl cap data =
    cap\<lparr> msg_ctl := (msg_ctl cap AND NOT (FUNCTION_MASK_MASK OR MSIX_ENABLE_MASK))
                   OR (data AND (FUNCTION_MASK_MASK OR MSIX_ENABLE_MASK)) \<rparr>"

definition cap_masked :: "msix_cap \<Rightarrow> bool" where
  "cap_masked cap \<longleftrightarrow> drop_bit 14 (msg_ctl cap) AND 0x1 = 0x1"

definition cap_enabled :: "msix_cap \<Rightarrow> bool" where
  "cap_enabled cap \<longleftrightarrow> drop_bit 15 (msg_ctl cap) AND 0x1 = 0x1"

definition table_offset :: "msix_cap \<Rightarrow> u32" where
  "table_offset cap = cap_table cap AND 0xfffffff8"

definition pba_offset :: "msix_cap \<Rightarrow> u32" where
  "pba_offset cap = cap_pba cap AND 0xfffffff8"

definition table_set_offset :: "msix_cap \<Rightarrow> u32 \<Rightarrow> msix_cap" where
  "table_set_offset cap addr = cap\<lparr> cap_table := (cap_table cap AND 0x7) + addr \<rparr>"

definition pba_set_offset :: "msix_cap \<Rightarrow> u32 \<Rightarrow> msix_cap" where
  "pba_set_offset cap addr = cap\<lparr> cap_pba := (cap_pba cap AND 0x7) + addr \<rparr>"

definition table_bir :: "msix_cap \<Rightarrow> u32" where
  "table_bir cap = cap_table cap AND 0x7"

definition pba_bir :: "msix_cap \<Rightarrow> u32" where
  "pba_bir cap = cap_pba cap AND 0x7"

definition table_size :: "msix_cap \<Rightarrow> u16" where
  "table_size cap = (msg_ctl cap AND 0x7ff) + 1"

definition table_range :: "msix_cap \<Rightarrow> u64 \<times> u64" where
  "table_range cap = (ucast (table_offset cap), ucast (table_size cap) * 16)"

definition pba_range :: "msix_cap \<Rightarrow> u64 \<times> u64" where
  "pba_range cap = (ucast (pba_offset cap), (ucast (table_size cap) div 64 + 1) * 8)"

subsection \<open>Interrupts of a virtio device\<close>

datatype virtio_interrupt_type = Config | Queue u16

definition VIRTQ_MSI_NO_VECTOR :: u16 where
  "VIRTQ_MSI_NO_VECTOR = 0xffff"

definition ISR_STATUS_CONFIG_BIT :: u64 where
  "ISR_STATUS_CONFIG_BIT = 0x2"

record virtio_interrupt_msix =
  config_vector :: u16
  config_changed :: bool
  interrupt_status :: u64
  queues_vectors :: "u16 list"
  msix_table_size :: nat

definition virtio_interrupt_new :: "msix_config \<Rightarrow> u16 \<Rightarrow> bool \<Rightarrow> u64 \<Rightarrow> u16 list \<Rightarrow> virtio_interrupt_msix" where
  "virtio_interrupt_new cfg cv cc isr qvs =
    \<lparr> config_vector = cv, config_changed = cc, interrupt_status = isr, queues_vectors = qvs,
      msix_table_size = length (table_entries cfg) \<rparr>"

definition interrupt_vector :: "virtio_interrupt_msix \<Rightarrow> virtio_interrupt_type \<Rightarrow> u16 option" where
  "interrupt_vector vi t =
    (case t of
       Config \<Rightarrow> Some (config_vector vi)
     | Queue q \<Rightarrow> if unat q < length (queues_vectors vi) then Some (queues_vectors vi ! unat q) else None)"

definition virtio_trigger ::
  "'g isg_ops \<Rightarrow> virtio_interrupt_msix \<Rightarrow> virtio_interrupt_type \<Rightarrow> msix_config \<Rightarrow> 'g
    \<Rightarrow> ((irq_error + unit) \<times> virtio_interrupt_msix \<times> msix_config \<times> 'g) option" where
  "virtio_trigger I vi t cfg g =
    (let vi = (if t = Config
               then vi\<lparr> config_changed := True,
                      interrupt_status := interrupt_status vi OR ISR_STATUS_CONFIG_BIT \<rparr>
               else vi)
     in case interrupt_vector vi t of
          None \<Rightarrow> None
        | Some vec \<Rightarrow>
            if vec = VIRTQ_MSI_NO_VECTOR then Some (Inr (), vi, cfg, g)
            else if msix_table_size vi \<le> unat vec then Some (Inr (), vi, cfg, g)
            else if \<not> unat vec < length (table_entries cfg) then None
            else if mx_masked cfg \<or> entry_masked (table_entries cfg ! unat vec)
            then map_option (\<lambda>cfg'. (Inr (), vi, cfg', g)) (set_pba_bit cfg vec False)
            else map_option (\<lambda>(r, g'). (r, vi, cfg, g')) (isg_trigger I (ucast vec) g))"

section \<open>Pending bits as a set of vectors\<close>

definition msix_wf :: "msix_config \<Rightarrow> bool" where
  "msix_wf cfg \<longleftrightarrow> length (table_entries cfg) \<le> 2048
    \<and> length (table_entries cfg) \<le> 64 * length (pba_entries cfg)"

definition pending :: "msix_config \<Rightarrow> nat \<Rightarrow> bool" where
  "pending cfg v \<longleftrightarrow> v div 64 < length (pba_entries cfg) \<and> bit (pba_entries cfg ! (v div 64)) (v mod 64)"

definition num_vectors :: "msix_config \<Rightarrow> nat" where
  "num_vectors cfg = length (table_entries cfg)"

definition same_but_pba :: "msix_config \<Rightarrow> msix_config \<Rightarrow> bool" where
  "same_but_pba cfg cfg' \<longleftrightarrow> (\<exists>p. cfg' = cfg\<lparr> pba_entries := p \<rparr> \<and> length p = length (pba_entries cfg))"

lemma same_but_pba_refl [simp]: "same_but_pba cfg cfg"
  unfolding same_but_pba_def by (rule exI [of _ "pba_entries cfg"]) simp

lemma same_but_pba_trans: "same_but_pba a b \<Longrightarrow> same_but_pba b c \<Longrightarrow> same_but_pba a c"
  by (auto simp: same_but_pba_def)

lemma same_but_pba_fields:
  assumes "same_but_pba cfg cfg'"
  shows "table_entries cfg' = table_entries cfg" "mx_devid cfg' = mx_devid cfg"
    "mx_masked cfg' = mx_masked cfg" "mx_enabled cfg' = mx_enabled cfg" "num_vectors cfg' = num_vectors cfg"
    "msix_wf cfg' = msix_wf cfg"
  using assms by (auto simp: same_but_pba_def num_vectors_def msix_wf_def)

lemma unat_vector: "v < 2048 \<Longrightarrow> unat (word_of_nat v :: u16) = v"
  by (simp add: unat_of_nat take_bit_nat_eq_self)

lemma vector_in_pba: "msix_wf cfg \<Longrightarrow> v < num_vectors cfg \<Longrightarrow> v < 2048 \<and> v div 64 < length (pba_entries cfg)"
  by (auto simp: msix_wf_def num_vectors_def)

lemma vector_assert: "v < 2048 \<Longrightarrow> (word_of_nat v :: u16) < MAX_MSIX_VECTORS_PER_DEVICE"
  by (simp add: MAX_MSIX_VECTORS_PER_DEVICE_def word_less_nat_alt unat_vector)

lemma get_pba_bit_pending:
  assumes "msix_wf cfg" "v < num_vectors cfg"
  shows "get_pba_bit cfg (word_of_nat v) = Some (of_bool (pending cfg v))"
proof -
  note b = vector_in_pba [OF assms]
  have "(ucast (drop_bit (v mod 64) w AND 1 :: u64) :: u8) = of_bool (bit w (v mod 64))" for w :: u64
    by (rule bit_word_eqI) (auto simp: bit_simps)
  then show ?thesis
    using b by (simp add: get_pba_bit_def vector_assert unat_vector BITS_PER_PBA_ENTRY_def Let_def pending_def)
qed

lemma set_pba_bit_pending:
  assumes "msix_wf cfg" "v < num_vectors cfg"
  obtains cfg' where "set_pba_bit cfg (word_of_nat v) reset = Some cfg'"
    "same_but_pba cfg cfg'"
    "\<And>w. pending cfg' w = (if w = v then \<not> reset else pending cfg w)"
proof -
  note b = vector_in_pba [OF assms]
  define e where "e = (if reset then pba_entries cfg ! (v div 64) AND NOT (push_bit (v mod 64) 1)
      else pba_entries cfg ! (v div 64) OR push_bit (v mod 64) 1)"
  have s: "set_pba_bit cfg (word_of_nat v) reset = Some (cfg\<lparr> pba_entries := (pba_entries cfg)[v div 64 := e] \<rparr>)"
    using b by (simp add: set_pba_bit_def vector_assert unat_vector BITS_PER_PBA_ENTRY_def Let_def e_def)
  have e: "bit e n \<longleftrightarrow> (if n = v mod 64 then \<not> reset else bit (pba_entries cfg ! (v div 64)) n)" if "n < 64" for n
    using that by (auto simp: e_def bit_simps)
  have vw: "w = v" if "w div 64 = v div 64" "w mod 64 = v mod 64" for w
    using that by (metis div_mult_mod_eq)
  show thesis
    by (rule that [OF s]) (use b e vw in \<open>auto simp: pending_def nth_list_update same_but_pba_def\<close>)
qed

section \<open>Steps\<close>

lemma inject_cases:
  assumes "msix_wf cfg" "v < num_vectors cfg" "inject_msix_and_clear_pba I cfg v g = Some (cfg', g', errs)"
  obtains r where "isg_trigger I (word_of_nat v) g = Some (r, g')" "errs = logged r"
    "same_but_pba cfg cfg'"
    "\<And>w. pending cfg' w = (w \<noteq> v \<and> pending cfg w)"
proof -
  obtain c where c: "set_pba_bit cfg (word_of_nat v) True = Some c"
    "same_but_pba cfg c"
    "\<And>w. pending c w = (if w = v then \<not> True else pending cfg w)"
    using set_pba_bit_pending [OF assms(1,2), of True] by blast
  obtain r where r: "isg_trigger I (word_of_nat v) g = Some (r, g')" "errs = logged r" "cfg' = c"
    using assms(3) c(1) by (auto simp: inject_msix_and_clear_pba_def split: option.splits)
  show thesis
    by (rule that [OF r(1,2)]) (use c r(3) in auto)
qed

definition update_if_live ::
  "'g isg_ops \<Rightarrow> msix_config \<Rightarrow> nat \<Rightarrow> msix_table_entry \<Rightarrow> 'g \<Rightarrow> ((irq_error + unit) \<times> 'g) option" where
  "update_if_live I cfg i e g =
    (if mx_enabled cfg \<and> \<not> mx_masked cfg \<and> \<not> entry_masked e
     then isg_update I (word_of_nat i) (entry_config (mx_devid cfg) e) (entry_masked e) True g
     else Some (Inr (), g))"

definition flips :: "msix_config \<Rightarrow> nat \<Rightarrow> msix_table_entry \<Rightarrow> bool" where
  "flips cfg i e \<longleftrightarrow> \<not> mx_masked cfg \<and> mx_enabled cfg \<and> entry_masked (table_entries cfg ! i)
     \<and> \<not> entry_masked e \<and> pending cfg i"

lemma pending_table [simp]: "pending (cfg\<lparr> table_entries := t \<rparr>) = pending cfg"
  "pending (cfg\<lparr> mx_masked := m \<rparr>) = pending cfg" "pending (cfg\<lparr> mx_enabled := m \<rparr>) = pending cfg"
  by (simp_all add: pending_def fun_eq_iff)

lemma write_table_cases:
  assumes wf: "msix_wf cfg" and w: "write_table B I cfg off data g = Some (cfg', g', errs)"
  obtains (same) "cfg' = cfg" "g' = g" "errs = []"
  | (plain) i e r where "i < num_vectors cfg" "e \<noteq> table_entries cfg ! i" "update_if_live I cfg i e g = Some (r, g')"
      "\<not> flips cfg i e" "errs = logged r" "cfg' = cfg\<lparr> table_entries := (table_entries cfg)[i := e] \<rparr>"
  | (inject) i e r g1 errs1 where "i < num_vectors cfg" "e \<noteq> table_entries cfg ! i"
      "update_if_live I cfg i e g = Some (r, g1)" "flips cfg i e" "errs = logged r @ errs1"
      "inject_msix_and_clear_pba I (cfg\<lparr> table_entries := (table_entries cfg)[i := e] \<rparr>) i g1 = Some (cfg', g', errs1)"
proof (cases "length data \<noteq> 4 \<and> length data \<noteq> 8 \<or> length (table_entries cfg) \<le> unat (off div 16)")
  case True
  then have "write_table B I cfg off data g = Some (cfg, g, [])"
    by (auto simp: write_table_def Let_def)
  then show thesis using w same by simp
next
  case False
  define i where "i = unat (off div 16)"
  define e where "e = store_entry B (off mod 16) data (table_entries cfg ! i)"
  let ?c = "cfg\<lparr> table_entries := (table_entries cfg)[i := e] \<rparr>"
  have i: "i < num_vectors cfg" using False by (simp add: i_def num_vectors_def)
  have "msix_wf ?c" "i < num_vectors ?c" using wf i by (simp_all add: msix_wf_def num_vectors_def)
  from get_pba_bit_pending [OF this] have get: "get_pba_bit ?c (word_of_nat i) = Some (of_bool (pending cfg i))"
    by simp
  show thesis
  proof (cases "table_entries cfg ! i = e")
    case True
    then have "?c = cfg" by (cases cfg) auto
    then have "write_table B I cfg off data g = Some (cfg, g, [])"
      using False True
      unfolding write_table_def Let_def i_def [symmetric] e_def [symmetric] by simp
    then show thesis using w same by simp
  next
    case diff: False
    then have "(case update_if_live I cfg i e g of None \<Rightarrow> None | Some (r, g1) \<Rightarrow>
        if flips cfg i e
        then map_option (\<lambda>(cfg', g2, errs'). (cfg', g2, logged r @ errs')) (inject_msix_and_clear_pba I ?c i g1)
        else Some (?c, g1, logged r)) = Some (cfg', g', errs)"
      using w False get
      unfolding write_table_def Let_def i_def [symmetric] e_def [symmetric] flips_def update_if_live_def
      by (auto split: option.splits if_splits)
    then show thesis
      using plain [of i e] inject [of i e] i diff
      by (auto split: option.splits if_splits)
  qed
qed

lemma inject_pending_effect:
  assumes "inject_pending I k es cfg g = Some (cfg', g', errs)" "msix_wf cfg" "es = drop k (table_entries cfg)"
  shows "same_but_pba cfg cfg' \<and> (\<forall>w. pending cfg' w \<longleftrightarrow> pending cfg w
          \<and> (w < k \<or> num_vectors cfg \<le> w \<or> entry_masked (table_entries cfg ! w)))"
  using assms
proof (induction es arbitrary: k cfg g errs)
  case Nil
  then have "num_vectors cfg \<le> k" by (simp add: num_vectors_def)
  then show ?case using Nil(1) by auto
next
  case (Cons e es)
  have k: "k < num_vectors cfg"
    using Cons(4) by (metis drop_eq_Nil list.distinct(1) not_le num_vectors_def)
  then have es: "es = drop (Suc k) (table_entries cfg)" and e: "e = table_entries cfg ! k"
    using Cons(4) by (simp_all add: num_vectors_def Cons_nth_drop_Suc [symmetric])
  show ?case
  proof (cases "entry_masked e \<or> \<not> pending cfg k")
    case True
    then have "inject_pending I (Suc k) es cfg g = Some (cfg', g', errs)"
      using Cons(2) get_pba_bit_pending [OF Cons(3) k] by (auto split: if_splits)
    from Cons(1) [OF this Cons(3) es] show ?thesis using True e by (auto simp: less_Suc_eq)
  next
    case False
    then obtain c1 g1 e1 e2 where i: "inject_msix_and_clear_pba I cfg k g = Some (c1, g1, e1)"
      and rest: "inject_pending I (Suc k) es c1 g1 = Some (cfg', g', e2)"
      using Cons(2) get_pba_bit_pending [OF Cons(3) k] by (auto split: if_splits option.splits)
    from inject_cases [OF Cons(3) k i] obtain c1: "same_but_pba cfg c1"
      and p1: "\<And>w. pending c1 w = (w \<noteq> k \<and> pending cfg w)" by blast
    note t = same_but_pba_fields [OF c1]
    note IH = Cons(1) [OF rest t(6) [THEN iffD2, OF Cons(3)] es [folded t(1)]]
    then have "same_but_pba cfg cfg'" using c1 same_but_pba_trans by blast
    moreover have "pending cfg' w \<longleftrightarrow> pending cfg w
        \<and> (w < k \<or> num_vectors cfg \<le> w \<or> entry_masked (table_entries cfg ! w))" for w
    proof -
      have "pending cfg' w \<longleftrightarrow> pending c1 w
          \<and> (w < Suc k \<or> num_vectors cfg \<le> w \<or> entry_masked (table_entries cfg ! w))"
        using IH unfolding t by blast
      then show ?thesis
        unfolding p1 using False e k by (cases "w = k") (simp_all add: less_Suc_eq)
    qed
    ultimately show ?thesis by blast
  qed
qed

subsection \<open>Runs\<close>

text \<open>The guest writes the table and the message control word, the device raises interrupts.\<close>

datatype msix_event = WriteTable u64 "u8 list" | WriteMsgCtl u16 | Raise virtio_interrupt_type

fun msix_exec ::
  "byteorder_ops \<Rightarrow> 'g isg_ops \<Rightarrow> msix_event \<Rightarrow> virtio_interrupt_msix \<times> msix_config \<times> 'g
    \<Rightarrow> ((virtio_interrupt_msix \<times> msix_config \<times> 'g) \<times> irq_error list) option" where
  "msix_exec B I (WriteTable off data) (vi, cfg, g) =
    map_option (\<lambda>(cfg', g', errs). ((vi, cfg', g'), errs)) (write_table B I cfg off data g)"
| "msix_exec B I (WriteMsgCtl reg) (vi, cfg, g) =
    map_option (\<lambda>(cfg', g', errs). ((vi, cfg', g'), errs)) (set_msg_ctl I cfg reg g)"
| "msix_exec B I (Raise t) (vi, cfg, g) =
    map_option (\<lambda>(r, vi', cfg', g'). ((vi', cfg', g'), [])) (virtio_trigger I vi t cfg g)"

lemma set_msg_ctl_cases:
  assumes wf: "msix_wf cfg" and s: "set_msg_ctl I cfg reg g = Some (cfg', g', errs)"
  obtains c g1 e1 e2 where "c = cfg\<lparr> mx_masked := mx_masked c, mx_enabled := mx_enabled c \<rparr>"
    "mx_masked c \<longleftrightarrow> drop_bit 14 reg AND 1 = 1" "mx_enabled c \<longleftrightarrow> drop_bit 15 reg AND 1 = 1"
    "update_routing I (mx_masked cfg) (mx_enabled cfg) c g = Some (g1, e1)" "errs = e1 @ e2"
    "if mx_masked cfg \<and> \<not> mx_masked c then inject_pending I 0 (table_entries c) c g1 = Some (cfg', g', e2)
     else cfg' = c \<and> g' = g1 \<and> e2 = []"
proof -
  define c where "c = cfg\<lparr> mx_masked := drop_bit 14 reg AND 1 = 1, mx_enabled := drop_bit 15 reg AND 1 = 1 \<rparr>"
  have c0: "c = cfg\<lparr> mx_masked := mx_masked c, mx_enabled := mx_enabled c \<rparr>"
    "mx_masked c \<longleftrightarrow> drop_bit 14 reg AND 1 = 1" "mx_enabled c \<longleftrightarrow> drop_bit 15 reg AND 1 = 1"
    by (simp_all add: c_def)
  obtain g1 e1 where r: "update_routing I (mx_masked cfg) (mx_enabled cfg) c g = Some (g1, e1)"
    using s by (auto simp: set_msg_ctl_def c_def [symmetric] Let_def split: option.splits)
  show thesis
  proof (cases "mx_masked cfg \<and> \<not> mx_masked c")
    case True
    then obtain e2 where "inject_pending I 0 (table_entries c) c g1 = Some (cfg', g', e2)" "errs = e1 @ e2"
      using s r by (auto simp: set_msg_ctl_def c_def [symmetric] Let_def)
    then show thesis using that [OF c0 r] True by simp
  next
    case False
    then have "cfg' = c \<and> g' = g1 \<and> errs = e1"
      using s r by (simp add: set_msg_ctl_def c_def [symmetric] Let_def del: de_Morgan_conj)
    then show thesis by (intro that [OF c0 r]) (use False in auto)
  qed
qed

lemma virtio_trigger_cases:
  assumes wf: "msix_wf cfg" and t: "virtio_trigger I vi t cfg g = Some (r, vi', cfg', g')"
  obtains vec where "interrupt_vector vi t = Some vec" "msix_table_size vi' = msix_table_size vi"
    "queues_vectors vi' = queues_vectors vi" "config_vector vi' = config_vector vi"
    "if vec = VIRTQ_MSI_NO_VECTOR \<or> msix_table_size vi \<le> unat vec then cfg' = cfg \<and> g' = g
     else unat vec < num_vectors cfg \<and>
       (if mx_masked cfg \<or> entry_masked (table_entries cfg ! unat vec)
        then g' = g \<and> same_but_pba cfg cfg' \<and> (\<forall>w. pending cfg' w \<longleftrightarrow> w = unat vec \<or> pending cfg w)
        else cfg' = cfg \<and> isg_trigger I (ucast vec) g = Some (r, g'))"
proof -
  define vi1 where "vi1 = (if t = Config then vi\<lparr> config_changed := True,
      interrupt_status := interrupt_status vi OR ISR_STATUS_CONFIG_BIT \<rparr> else vi)"
  have vi1: "msix_table_size vi1 = msix_table_size vi" "queues_vectors vi1 = queues_vectors vi"
    "config_vector vi1 = config_vector vi" "interrupt_vector vi1 t = interrupt_vector vi t"
    by (auto simp: vi1_def interrupt_vector_def split: virtio_interrupt_type.splits)
  obtain vec where vec: "interrupt_vector vi t = Some vec"
    using t by (auto simp: virtio_trigger_def vi1_def [symmetric] vi1 split: option.splits)
  have pba: "\<exists>c. set_pba_bit cfg vec False = Some c \<and> same_but_pba cfg c
      \<and> (\<forall>w. pending c w \<longleftrightarrow> w = unat vec \<or> pending cfg w)" if "unat vec < num_vectors cfg"
  proof -
    have "word_of_nat (unat vec) = vec" by simp
    then show ?thesis using set_pba_bit_pending [OF wf that, of False] by (metis (mono_tags, lifting))
  qed
  have tr: "virtio_trigger I vi t cfg g =
      (if vec = VIRTQ_MSI_NO_VECTOR \<or> msix_table_size vi \<le> unat vec then Some (Inr (), vi1, cfg, g)
       else if \<not> unat vec < num_vectors cfg then None
       else if mx_masked cfg \<or> entry_masked (table_entries cfg ! unat vec)
       then map_option (\<lambda>cfg'. (Inr (), vi1, cfg', g)) (set_pba_bit cfg vec False)
       else map_option (\<lambda>(r, g'). (r, vi1, cfg, g')) (isg_trigger I (ucast vec) g))"
    by (simp add: virtio_trigger_def vi1_def [symmetric] vi1 vec num_vectors_def)
  have "vi' = vi1 \<and> (if vec = VIRTQ_MSI_NO_VECTOR \<or> msix_table_size vi \<le> unat vec then cfg' = cfg \<and> g' = g
     else unat vec < num_vectors cfg \<and>
       (if mx_masked cfg \<or> entry_masked (table_entries cfg ! unat vec)
        then g' = g \<and> same_but_pba cfg cfg' \<and> (\<forall>w. pending cfg' w \<longleftrightarrow> w = unat vec \<or> pending cfg w)
        else cfg' = cfg \<and> isg_trigger I (ucast vec) g = Some (r, g')))"
  proof (cases "vec = VIRTQ_MSI_NO_VECTOR \<or> msix_table_size vi \<le> unat vec")
    case True
    then show ?thesis using t tr by simp
  next
    case False
    then have n: "unat vec < num_vectors cfg" using t tr by (simp split: if_splits)
    show ?thesis
    proof (cases "mx_masked cfg \<or> entry_masked (table_entries cfg ! unat vec)")
      case True
      then show ?thesis using t tr False n pba [OF n] by auto
    next
      case fire: False
      then show ?thesis using t tr False n by auto
    qed
  qed
  then show thesis using that [OF vec] vi1 by simp
qed

section \<open>No interrupt is lost\<close>

text \<open>A group that remembers the vectors it was asked to inject.\<close>

definition keep_trace :: "('g \<Rightarrow> 'g irq_result) \<Rightarrow> 'g \<times> u32 list \<Rightarrow> ('g \<times> u32 list) irq_result" where
  "keep_trace f s = map_option (\<lambda>(r, g'). (r, g', snd s)) (f (fst s))"

definition traced :: "'g isg_ops \<Rightarrow> ('g \<times> u32 list) isg_ops" where
  "traced I =
    \<lparr> isg_enable = keep_trace (isg_enable I), isg_disable = keep_trace (isg_disable I),
      isg_trigger = (\<lambda>i s. map_option (\<lambda>(r, g'). (r, g', snd s @ [i])) (isg_trigger I i (fst s))),
      isg_update = (\<lambda>i c m k. keep_trace (isg_update I i c m k)), isg_set_gsi = keep_trace (isg_set_gsi I) \<rparr>"

lemma traced_update: "isg_update (traced I) i c m k s = Some (r, s') \<Longrightarrow> snd s' = snd s"
  and traced_disable: "isg_disable (traced I) s = Some (r, s') \<Longrightarrow> snd s' = snd s"
  and traced_trigger: "isg_trigger (traced I) i s = Some (r, s') \<Longrightarrow> snd s' = snd s @ [i]"
  by (auto simp: traced_def keep_trace_def)

lemma update_vectors_trace: "update_vectors (traced I) dev k es s = Some (s', errs) \<Longrightarrow> snd s' = snd s"
proof (induction es arbitrary: k s errs)
  case (Cons e es)
  then obtain r s1 e2
    where u: "isg_update (traced I) (word_of_nat k) (entry_config dev e) (entry_masked e) True s = Some (r, s1)"
      and rest: "update_vectors (traced I) dev (Suc k) es s1 = Some (s', e2)"
    by (auto split: option.splits)
  show ?case using Cons(1) [OF rest] traced_update [OF u] by simp
qed simp

lemma update_routing_trace: "update_routing (traced I) m e cfg s = Some (s', errs) \<Longrightarrow> snd s' = snd s"
  by (auto simp: update_routing_def dest: update_vectors_trace traced_disable split: if_splits option.splits)

lemma update_if_live_trace: "update_if_live (traced I) cfg i e s = Some (r, s') \<Longrightarrow> snd s' = snd s"
  by (auto simp: update_if_live_def dest: traced_update split: if_splits)

lemma inject_pending_trace:
  assumes "inject_pending (traced I) k es cfg s = Some (cfg', s', errs)" "msix_wf cfg"
    "es = drop k (table_entries cfg)"
  shows "\<exists>ts. snd s' = snd s @ ts \<and> (\<forall>w. k \<le> w \<longrightarrow> w < num_vectors cfg \<longrightarrow> pending cfg w
    \<longrightarrow> \<not> entry_masked (table_entries cfg ! w) \<longrightarrow> word_of_nat w \<in> set ts)"
  using assms
proof (induction es arbitrary: k cfg s errs)
  case Nil
  then show ?case by (auto simp: num_vectors_def)
next
  case (Cons e es)
  have k: "k < num_vectors cfg"
    using Cons(4) by (metis drop_eq_Nil list.distinct(1) not_le num_vectors_def)
  then have es: "es = drop (Suc k) (table_entries cfg)" and e: "e = table_entries cfg ! k"
    using Cons(4) by (simp_all add: num_vectors_def Cons_nth_drop_Suc [symmetric])
  show ?case
  proof (cases "entry_masked e \<or> \<not> pending cfg k")
    case True
    then have "inject_pending (traced I) (Suc k) es cfg s = Some (cfg', s', errs)"
      using Cons(2) get_pba_bit_pending [OF Cons(3) k] by (auto split: if_splits)
    from Cons(1) [OF this Cons(3) es] show ?thesis
      using True e by (metis le_eq_less_or_eq Suc_leI)
  next
    case False
    then obtain c1 g1 e1 e2 where i: "inject_msix_and_clear_pba (traced I) cfg k s = Some (c1, g1, e1)"
      and rest: "inject_pending (traced I) (Suc k) es c1 g1 = Some (cfg', s', e2)"
      using Cons(2) get_pba_bit_pending [OF Cons(3) k] by (auto split: if_splits option.splits)
    from inject_cases [OF Cons(3) k i] obtain r where tr: "isg_trigger (traced I) (word_of_nat k) s = Some (r, g1)"
      and c1: "same_but_pba cfg c1" and p1: "\<And>w. pending c1 w = (w \<noteq> k \<and> pending cfg w)" by blast
    note t = same_but_pba_fields [OF c1]
    from Cons(1) [OF rest t(6) [THEN iffD2, OF Cons(3)] es [folded t(1)]] obtain ts
      where "snd s' = snd g1 @ ts" and ts: "\<And>w. Suc k \<le> w \<Longrightarrow> w < num_vectors cfg \<Longrightarrow> pending c1 w \<Longrightarrow>
        \<not> entry_masked (table_entries cfg ! w) \<Longrightarrow> word_of_nat w \<in> set ts" unfolding t by blast
    then have "snd s' = snd s @ word_of_nat k # ts" using traced_trigger [OF tr] by simp
    moreover have "word_of_nat w \<in> set (word_of_nat k # ts)"
      if "k \<le> w" "w < num_vectors cfg" "pending cfg w" "\<not> entry_masked (table_entries cfg ! w)" for w
      using ts [of w] p1 [of w] that by (cases "w = k") auto
    ultimately show ?thesis by blast
  qed
qed

text \<open>Every step answers what was pending, or leaves it pending.\<close>

definition answers :: "msix_config \<Rightarrow> msix_config \<Rightarrow> u32 list \<Rightarrow> u32 list \<Rightarrow> bool" where
  "answers cfg cfg' t t' \<longleftrightarrow> (\<exists>ts. t' = t @ ts \<and>
     (\<forall>v < num_vectors cfg. pending cfg v \<longrightarrow> pending cfg' v \<or> word_of_nat v \<in> set ts))"

lemma answersI:
  "t' = t @ ts \<Longrightarrow> (\<And>v. v < num_vectors cfg \<Longrightarrow> pending cfg v \<Longrightarrow> \<not> pending cfg' v \<Longrightarrow> word_of_nat v \<in> set ts) \<Longrightarrow>
   answers cfg cfg' t t'"
  by (auto simp: answers_def)

lemma answers_trans:
  "answers a b t t' \<Longrightarrow> answers b c t' t'' \<Longrightarrow> num_vectors b = num_vectors a \<Longrightarrow> answers a c t t''"
proof -
  assume 1: "answers a b t t'" and 2: "answers b c t' t''" and n: "num_vectors b = num_vectors a"
  obtain ts where ts: "t' = t @ ts"
    "\<And>v. v < num_vectors a \<Longrightarrow> pending a v \<Longrightarrow> pending b v \<or> word_of_nat v \<in> set ts"
    using 1 unfolding answers_def by blast
  obtain us where us: "t'' = t' @ us"
    "\<And>v. v < num_vectors a \<Longrightarrow> pending b v \<Longrightarrow> pending c v \<or> word_of_nat v \<in> set us"
    using 2 n unfolding answers_def by auto
  show "answers a c t t''"
    by (rule answersI [where ts = "ts @ us"]) (use ts us in auto)
qed

definition pend_masked :: "msix_config \<Rightarrow> bool" where
  "pend_masked cfg \<longleftrightarrow> (\<forall>v < num_vectors cfg. pending cfg v \<longrightarrow>
     mx_masked cfg \<or> entry_masked (table_entries cfg ! v))"

text \<open>The guest writes the table while MSI-X is enabled or masked as a whole.\<close>

definition careful :: "msix_config \<Rightarrow> msix_event \<Rightarrow> bool" where
  "careful cfg ev \<longleftrightarrow> (case ev of WriteTable _ _ \<Rightarrow> mx_enabled cfg \<or> mx_masked cfg | _ \<Rightarrow> True)"

lemma write_table_answers:
  assumes wf: "msix_wf cfg" and w: "write_table B (traced I) cfg off data s = Some (cfg', s', errs)"
  shows "msix_wf cfg' \<and> num_vectors cfg' = num_vectors cfg \<and> answers cfg cfg' (snd s) (snd s')
    \<and> (mx_enabled cfg \<or> mx_masked cfg \<longrightarrow> pend_masked cfg \<longrightarrow> pend_masked cfg')"
  using wf w
proof (cases rule: write_table_cases)
  case same
  then show ?thesis using wf by (auto intro: answersI)
next
  case (plain i e r)
  have "answers cfg cfg' (snd s) (snd s')"
    by (rule answersI [where ts = "[]"]) (use plain update_if_live_trace [OF plain(3)] in auto)
  moreover have "pend_masked cfg'" if "pend_masked cfg" "mx_enabled cfg \<or> mx_masked cfg"
    using that plain(4) plain(1)
    by (auto simp: pend_masked_def plain(6) num_vectors_def nth_list_update flips_def)
  ultimately show ?thesis using wf plain(6) by (simp add: msix_wf_def num_vectors_def)
next
  case (inject i e r g1 errs1)
  let ?c = "cfg\<lparr> table_entries := (table_entries cfg)[i := e] \<rparr>"
  have c: "msix_wf ?c" "num_vectors ?c = num_vectors cfg" using wf by (simp_all add: msix_wf_def num_vectors_def)
  then have "i < num_vectors ?c" using inject(1) by simp
  from inject_cases [OF c(1) this inject(6)] obtain r'
    where tr: "isg_trigger (traced I) (word_of_nat i) g1 = Some (r', s')" and same: "same_but_pba ?c cfg'"
      and p: "\<And>w. pending cfg' w = (w \<noteq> i \<and> pending cfg w)" by (metis pending_table(1))
  note t = same_but_pba_fields [OF same]
  have "answers cfg cfg' (snd s) (snd s')"
    by (rule answersI [where ts = "[word_of_nat i]"])
      (use p traced_trigger [OF tr] update_if_live_trace [OF inject(3)] in auto)
  moreover have "pend_masked cfg'" if "pend_masked cfg"
    using that by (auto simp: pend_masked_def p t num_vectors_def nth_list_update)
  ultimately show ?thesis using t c by simp
qed

lemma set_msg_ctl_answers:
  assumes wf: "msix_wf cfg" and w: "set_msg_ctl (traced I) cfg reg s = Some (cfg', s', errs)"
  shows "msix_wf cfg' \<and> num_vectors cfg' = num_vectors cfg \<and> answers cfg cfg' (snd s) (snd s')
    \<and> (pend_masked cfg \<longrightarrow> pend_masked cfg')"
proof (rule set_msg_ctl_cases [OF wf w])
  fix c g1 e1 e2
  assume c: "c = cfg\<lparr> mx_masked := mx_masked c, mx_enabled := mx_enabled c \<rparr>"
    and r: "update_routing (traced I) (mx_masked cfg) (mx_enabled cfg) c s = Some (g1, e1)"
    and rest: "if mx_masked cfg \<and> \<not> mx_masked c
      then inject_pending (traced I) 0 (table_entries c) c g1 = Some (cfg', s', e2)
      else cfg' = c \<and> s' = g1 \<and> e2 = []"
  have tc: "table_entries c = table_entries cfg" "num_vectors c = num_vectors cfg" "msix_wf c"
    "pending c = pending cfg"
    by (subst c, simp add: num_vectors_def)+
      (subst c, use wf in \<open>simp add: msix_wf_def\<close>, subst c, simp)
  show ?thesis
  proof (cases "mx_masked cfg \<and> \<not> mx_masked c")
    case True
    with rest have inj: "inject_pending (traced I) 0 (table_entries c) c g1 = Some (cfg', s', e2)" by simp
    have eff: "same_but_pba c cfg'" "\<And>w. pending cfg' w \<longleftrightarrow> pending c w
        \<and> (num_vectors c \<le> w \<or> entry_masked (table_entries c ! w))"
      using inject_pending_effect [OF inj tc(3)] by simp_all
    note t = same_but_pba_fields [OF eff(1)]
    from inject_pending_trace [OF inj tc(3)] obtain ts where "snd s' = snd g1 @ ts"
      and ts: "\<And>w. w < num_vectors c \<Longrightarrow> pending c w \<Longrightarrow> \<not> entry_masked (table_entries c ! w) \<Longrightarrow> word_of_nat w \<in> set ts"
      by auto
    then have "answers cfg cfg' (snd s) (snd s')"
      using update_routing_trace [OF r] tc eff(2) by (intro answersI [where ts = ts]) auto
    moreover have "pend_masked cfg'" using eff(2) t by (auto simp: pend_masked_def)
    ultimately show ?thesis using t tc by simp
  next
    case False
    with rest have "cfg' = c" "s' = g1" by (simp_all split: if_splits)
    moreover have "answers cfg c (snd s) (snd g1)"
      using update_routing_trace [OF r] tc by (intro answersI [where ts = "[]"]) auto
    moreover have "pend_masked c" if "pend_masked cfg"
      using that tc False by (auto simp: pend_masked_def)
    ultimately show ?thesis using tc by simp
  qed
qed

text \<open>The vector an interrupt of the device is sent to, when it has one.\<close>

definition target :: "virtio_interrupt_msix \<Rightarrow> virtio_interrupt_type \<Rightarrow> nat option" where
  "target vi t =
    (case interrupt_vector vi t of
       None \<Rightarrow> None
     | Some vec \<Rightarrow> if vec = VIRTQ_MSI_NO_VECTOR \<or> msix_table_size vi \<le> unat vec then None else Some (unat vec))"

lemma virtio_trigger_answers:
  assumes wf: "msix_wf cfg" and w: "virtio_trigger (traced I) vi t cfg s = Some (r, vi', cfg', s')"
  shows "msix_wf cfg' \<and> num_vectors cfg' = num_vectors cfg \<and> answers cfg cfg' (snd s) (snd s')
    \<and> (pend_masked cfg \<longrightarrow> pend_masked cfg')
    \<and> (\<forall>v. target vi t = Some v \<longrightarrow> v < num_vectors cfg \<and>
         (pending cfg' v \<or> snd s' = snd s @ [word_of_nat v]))"
proof (rule virtio_trigger_cases [OF wf w])
  fix vec
  assume vec: "interrupt_vector vi t = Some vec"
    and eff: "if vec = VIRTQ_MSI_NO_VECTOR \<or> msix_table_size vi \<le> unat vec then cfg' = cfg \<and> s' = s
     else unat vec < num_vectors cfg \<and>
       (if mx_masked cfg \<or> entry_masked (table_entries cfg ! unat vec)
        then s' = s \<and> same_but_pba cfg cfg' \<and> (\<forall>w. pending cfg' w \<longleftrightarrow> w = unat vec \<or> pending cfg w)
        else cfg' = cfg \<and> isg_trigger (traced I) (ucast vec) s = Some (r, s'))"
  have id: "word_of_nat (unat vec) = (ucast vec :: u32)" by simp
  consider (none) "target vi t = None" "cfg' = cfg" "s' = s"
    | (masked) "target vi t = Some (unat vec)" "unat vec < num_vectors cfg" "s' = s" "same_but_pba cfg cfg'"
        "mx_masked cfg \<or> entry_masked (table_entries cfg ! unat vec)"
        "\<And>w. pending cfg' w \<longleftrightarrow> w = unat vec \<or> pending cfg w"
    | (fire) "target vi t = Some (unat vec)" "unat vec < num_vectors cfg" "cfg' = cfg"
        "isg_trigger (traced I) (ucast vec) s = Some (r, s')"
    using eff vec by (auto simp: target_def split: if_splits)
  then show ?thesis
  proof cases
    case none
    then show ?thesis using wf by (auto intro: answersI)
  next
    case masked
    note t = same_but_pba_fields [OF masked(4)]
    have "answers cfg cfg' (snd s) (snd s')"
      using masked by (intro answersI [where ts = "[]"]) auto
    moreover have "pend_masked cfg \<longrightarrow> pend_masked cfg'"
      using masked(5,6) t by (auto simp: pend_masked_def)
    ultimately show ?thesis using masked t wf by auto
  next
    case fire
    then have "snd s' = snd s @ [word_of_nat (unat vec)]" using traced_trigger id by metis
    then show ?thesis using fire wf by (auto intro: answersI)
  qed
qed

inductive msix_step ::
  "byteorder_ops \<Rightarrow> 'g isg_ops \<Rightarrow> virtio_interrupt_msix \<times> msix_config \<times> 'g
    \<Rightarrow> virtio_interrupt_msix \<times> msix_config \<times> 'g \<Rightarrow> bool" for B I where
  exec: "msix_exec B I ev (vi, cfg, g) = Some (s', errs) \<Longrightarrow> careful cfg ev \<Longrightarrow>
    msix_step B I (vi, cfg, g) s'"

inductive_cases msix_stepE: "msix_step B I (vi, cfg, g) s'"

lemma msix_step_answers:
  assumes "msix_step B (traced I) (vi, cfg, s) (vi', cfg', s')" "msix_wf cfg"
  shows "msix_wf cfg' \<and> num_vectors cfg' = num_vectors cfg \<and> answers cfg cfg' (snd s) (snd s')
    \<and> (pend_masked cfg \<longrightarrow> pend_masked cfg')"
  using assms(1)
proof (rule msix_stepE)
  fix ev errs
  assume ex: "msix_exec B (traced I) ev (vi, cfg, s) = Some ((vi', cfg', s'), errs)" and ok: "careful cfg ev"
  show ?thesis
  proof (cases ev)
    case (WriteTable off data)
    then have "write_table B (traced I) cfg off data s = Some (cfg', s', errs)" using ex by auto
    from write_table_answers [OF assms(2) this] ok WriteTable show ?thesis by (auto simp: careful_def)
  next
    case (WriteMsgCtl reg)
    then have "set_msg_ctl (traced I) cfg reg s = Some (cfg', s', errs)" using ex by auto
    from set_msg_ctl_answers [OF assms(2) this] show ?thesis .
  next
    case (Raise t)
    then obtain r where "virtio_trigger (traced I) vi t cfg s = Some (r, vi', cfg', s')" using ex by auto
    from virtio_trigger_answers [OF assms(2) this] show ?thesis by blast
  qed
qed

lemma msix_run_answers:
  assumes "(msix_step B (traced I))\<^sup>*\<^sup>* (vi, cfg, s) (vi', cfg', s')" "msix_wf cfg"
  shows "msix_wf cfg' \<and> num_vectors cfg' = num_vectors cfg \<and> answers cfg cfg' (snd s) (snd s')
    \<and> (pend_masked cfg \<longrightarrow> pend_masked cfg')"
  using assms
proof (induction "(vi', cfg', s')" arbitrary: vi' cfg' s' rule: rtranclp_induct)
  case base
  then show ?case by (auto intro: answersI)
next
  case (step st vi' cfg' s')
  obtain v1 c1 s1 where st: "st = (v1, c1, s1)" by (metis prod_cases3)
  from step(3) [OF st step(4)] have 1: "msix_wf c1" "num_vectors c1 = num_vectors cfg"
    "answers cfg c1 (snd s) (snd s1)" "pend_masked cfg \<longrightarrow> pend_masked c1" by simp_all
  from msix_step_answers [OF step(2) [unfolded st] 1(1)] 1 show ?case
    using answers_trans [OF 1(3)] by auto
qed

lemma msix_new_fresh:
  assumes "msix_new I n dev None g = Some (Inr cfg, g')"
  shows "msix_wf cfg" "num_vectors cfg = unat n" "pend_masked cfg" "g' = g"
    "table_entries cfg = replicate (unat n) default_entry" "mx_masked cfg" "\<not> mx_enabled cfg"
proof -
  have n: "unat n \<le> 2048" and cfg: "cfg = \<lparr> table_entries = replicate (unat n) default_entry,
      pba_entries = replicate (unat n div 64 + 1) 0, mx_devid = dev, mx_masked = True, mx_enabled = False \<rparr>"
    and "g' = g"
    using assms by (auto simp: msix_new_def MAX_MSIX_VECTORS_PER_DEVICE_def word_le_nat_alt
        BITS_PER_PBA_ENTRY_def Let_def split: if_splits)
  have "unat n \<le> 64 * (unat n div 64 + 1)" by presburger
  then show "msix_wf cfg" using n by (simp add: cfg msix_wf_def)
  show "num_vectors cfg = unat n" "pend_masked cfg" "g' = g" "mx_masked cfg" "\<not> mx_enabled cfg"
    "table_entries cfg = replicate (unat n) default_entry"
    using \<open>g' = g\<close> by (simp_all add: cfg num_vectors_def pend_masked_def)
qed

text \<open>Enabling MSI-X on a function that is not masked injects nothing: an interrupt that became
  pending on a vector unmasked while MSI-X was disabled stays in the pending bit array.\<close>

lemma enable_keeps_pending:
  assumes "\<not> mx_masked cfg" "set_msg_ctl (traced I) cfg 0x8000 s = Some (cfg', s', errs)"
  shows "mx_enabled cfg' \<and> \<not> mx_masked cfg' \<and> table_entries cfg' = table_entries cfg
    \<and> pending cfg' = pending cfg \<and> snd s' = snd s"
proof -
  let ?c = "cfg\<lparr> mx_masked := False, mx_enabled := True \<rparr>"
  have "set_msg_ctl (traced I) cfg 0x8000 s =
      map_option (\<lambda>(g1, errs). (?c, g1, errs)) (update_routing (traced I) False (mx_enabled cfg) ?c s)"
    using assms(1) by (simp add: set_msg_ctl_def Let_def split: option.split)
  then obtain g1 where "update_routing (traced I) False (mx_enabled cfg) ?c s = Some (g1, errs)"
    and "cfg' = ?c" "s' = g1" using assms(2) by (auto simp: eq_commute [of "Some _"])
  then show ?thesis using update_routing_trace by simp
qed

text \<open>
  C2: MSI-X never loses an interrupt.  Start from a fresh device and let the guest reprogram,
  mask and unmask vectors, mask, unmask, enable and disable the function, and the device raise
  interrupts, in any order, with table writes made while MSI-X is enabled or the function masked.
  An interrupt raised on a vector is either handed to the interrupt group at or after the moment
  it was raised, or it is still recorded in the pending bit array and the vector or the whole
  function is masked.
\<close>
theorem no_interrupt_lost:
  assumes "msix_new (traced I) n dev None s0 = Some (Inr cfg0, s0')"
    and "(msix_step B (traced I))\<^sup>*\<^sup>* (vi0, cfg0, s0') (vi1, cfg1, s1)"
    and "virtio_trigger (traced I) vi1 t cfg1 s1 = Some (r, vi2, cfg2, s2)"
    and "(msix_step B (traced I))\<^sup>*\<^sup>* (vi2, cfg2, s2) (vi3, cfg3, s3)"
    and "target vi1 t = Some v"
  shows "\<exists>ts. snd s3 = snd s1 @ ts \<and> (word_of_nat v \<in> set ts
    \<or> pending cfg3 v \<and> (mx_masked cfg3 \<or> entry_masked (table_entries cfg3 ! v)))"
proof -
  have 1: "msix_wf cfg1" "pend_masked cfg1"
    using msix_run_answers [OF assms(2) msix_new_fresh(1) [OF assms(1)]] msix_new_fresh(3) [OF assms(1)] by simp_all
  from virtio_trigger_answers [OF 1(1) assms(3)] assms(5) 1(2)
  have 2: "msix_wf cfg2" "num_vectors cfg2 = num_vectors cfg1" "pend_masked cfg2" "v < num_vectors cfg1"
    "answers cfg1 cfg2 (snd s1) (snd s2)" "pending cfg2 v \<or> snd s2 = snd s1 @ [word_of_nat v]" by auto
  from msix_run_answers [OF assms(4) 2(1)] 2(3)
  have 3: "num_vectors cfg3 = num_vectors cfg2" "pend_masked cfg3" "answers cfg2 cfg3 (snd s2) (snd s3)" by auto
  obtain t1 t2 where "snd s2 = snd s1 @ t1" and s3: "snd s3 = (snd s1 @ t1) @ t2"
    and t2: "pending cfg2 v \<Longrightarrow> pending cfg3 v \<or> word_of_nat v \<in> set t2"
    using 2(2,4,5) 3(3) by (auto simp: answers_def)
  have "word_of_nat v \<in> set (t1 @ t2) \<or> pending cfg3 v"
    using 2(6) t2 \<open>snd s2 = snd s1 @ t1\<close> by auto
  then show ?thesis
    using 2(2,4) 3(1,2) s3 by (auto simp: pend_masked_def)
qed

theorem no_interrupt_lost_witness:
  "\<exists>cfg cfg' vi vi' s r. msix_new (traced (maybe_mut (msi_ops calm_hyp))) 4 0 None s = Some (Inr cfg, s)
    \<and> virtio_trigger (traced (maybe_mut (msi_ops calm_hyp))) vi (Queue 0) cfg s = Some (r, vi', cfg', s)
    \<and> pending cfg' 2 \<and> entry_masked (table_entries cfg' ! 2)"
proof -
  let ?I = "traced (maybe_mut (msi_ops calm_hyp))"
  obtain g and m :: "(nat, u32 \<times> interrupt_source_config) msi_manager" where "msi_inv {} (g, m)"
    using sample_update by metis
  define s where "s = ((g, m), [] :: u32 list)"
  define cfg where "cfg = \<lparr> table_entries = replicate 4 default_entry, pba_entries = [0],
    mx_devid = 0, mx_masked = True, mx_enabled = False \<rparr>"
  have new: "msix_new ?I 4 0 None s = Some (Inr cfg, s)"
    by (simp add: msix_new_def MAX_MSIX_VECTORS_PER_DEVICE_def BITS_PER_PBA_ENTRY_def cfg_def)
  define vi where "vi = virtio_interrupt_new cfg 0 False 0 [2]"
  define cfg' where "cfg' = cfg\<lparr> pba_entries := [4] \<rparr>"
  have tr: "virtio_trigger ?I vi (Queue 0) cfg s = Some (Inr (), vi, cfg', s)"
    by (simp add: virtio_trigger_def interrupt_vector_def vi_def virtio_interrupt_new_def cfg_def cfg'_def
        VIRTQ_MSI_NO_VECTOR_def set_pba_bit_def MAX_MSIX_VECTORS_PER_DEVICE_def BITS_PER_PBA_ENTRY_def)
  have tg: "target vi (Queue 0) = Some 2"
    by (simp add: target_def interrupt_vector_def vi_def virtio_interrupt_new_def cfg_def VIRTQ_MSI_NO_VECTOR_def)
  from no_interrupt_lost [OF new _ tr, of std_le vi vi cfg' s 2] tg
  have "pending cfg' 2 \<and> (mx_masked cfg' \<or> entry_masked (table_entries cfg' ! 2))" by auto
  moreover have "entry_masked (table_entries cfg' ! 2)"
    by (simp add: cfg'_def cfg_def default_entry_def entry_masked_def)
  ultimately show ?thesis using new tr by blast
qed

end
