(* ===== verification/MsixTable.thy ===== *)
theory MsixTable
  imports Msix
begin

text \<open>
  The MSI-X table of \<^verbatim>\<open>pci/src/msix.rs\<close> as the guest reads and writes it, with accesses of both widths,
  and the capability that describes it.
\<close>

section \<open>Accesses\<close>

lemma upper_half:
  assumes "off mod 8 = (0 :: u64)"
  shows "(off + 4) div 16 = off div 16" "(off + 4) mod 16 = off mod 16 + 4" "off mod 16 = 0 \<or> off mod 16 = 8"
proof -
  have n: "unat (16 :: u64) = 16" "unat (8 :: u64) = 8" "unat (4 :: u64) = 4" "unat (12 :: u64) = 12" by simp_all
  have "unat (off mod 8) = 0" unfolding assms by simp
  then have "unat off mod 8 = 0" unfolding unat_mod_distrib n .
  then obtain k where k: "unat off = 8 * k" by (metis dvd_def mod_0_imp_dvd)
  have "unat off < 18446744073709551616" using unsigned_less [of off, where 'a = nat] by simp
  with k have "unat off + 4 < 18446744073709551616" by presburger
  then have u: "unat (off + 4) = unat off + 4" by (simp add: unat_word_ariths)
  obtain j where "k = 2 * j \<or> k = 2 * j + 1" by (metis evenE oddE)
  then have j: "unat off = 16 * j \<or> unat off = 16 * j + 8" using k by auto
  have d: "unat ((off + 4) div 16) = unat (off div 16)"
    unfolding unat_div_distrib u n using j by auto
  then show "(off + 4) div 16 = off div 16" by (rule word_unat_eq_iff [THEN iffD2])
  have c: "off mod 16 = 0 \<and> (off + 4) mod 16 = 4 \<or> off mod 16 = 8 \<and> (off + 4) mod 16 = 12"
    using j unfolding word_unat_eq_iff [of "off mod 16"] word_unat_eq_iff [of "(off + 4) mod 16"]
      unat_mod_distrib u n unat_0 by auto
  then show "off mod 16 = 0 \<or> off mod 16 = 8" by blast
  from c show "(off + 4) mod 16 = off mod 16 + 4" by (elim disjE conjE) simp_all
qed
lemma write_table_entries:
  assumes "write_table B I cfg off data g = Some (cfg', g', errs)" "length data = 4 \<or> length data = 8"
    "unat (off div 16) < num_vectors cfg" "msix_wf cfg"
  shows "table_entries cfg' = (table_entries cfg)[unat (off div 16) :=
    store_entry B (off mod 16) data (table_entries cfg ! unat (off div 16))]"
proof -
  define i where "i = unat (off div 16)"
  define e where "e = store_entry B (off mod 16) data (table_entries cfg ! i)"
  let ?c = "cfg\<lparr> table_entries := (table_entries cfg)[i := e] \<rparr>"
  have i: "\<not> length (table_entries cfg) \<le> i" using assms(3) by (simp add: i_def num_vectors_def)
  have c: "msix_wf ?c" "i < num_vectors ?c" using assms(4) i by (simp_all add: msix_wf_def num_vectors_def)
  have inj: "table_entries c1 = table_entries ?c"
    if "inject_msix_and_clear_pba I ?c i h = Some (c1, g1, e1)" for h c1 g1 e1
    using inject_cases [OF c that] same_but_pba_fields(1) by metis
  have "cfg' = ?c \<or> (\<exists>h g1 e1. inject_msix_and_clear_pba I ?c i h = Some (cfg', g1, e1))"
    using assms(1,2) i
    unfolding write_table_def Let_def i_def [symmetric] e_def [symmetric]
    by (auto split: if_splits option.splits)
  then have "table_entries cfg' = table_entries ?c" using inj by blast
  then show ?thesis by (simp add: i_def e_def)
qed

lemma write_table_wf:
  assumes "msix_wf cfg" "write_table B I cfg off data g = Some (cfg', g', errs)"
  shows "msix_wf cfg'"
  using assms
proof (cases rule: write_table_cases)
  case (plain i e r)
  then show ?thesis using assms(1) by (simp add: msix_wf_def)
next
  case (inject i e r g1 errs1)
  let ?c = "cfg\<lparr> table_entries := (table_entries cfg)[i := e] \<rparr>"
  have c: "msix_wf ?c" "i < num_vectors ?c" using assms(1) inject(1) by (simp_all add: msix_wf_def num_vectors_def)
  from inject_cases [OF c inject(6)] have "same_but_pba ?c cfg'" by blast
  then show ?thesis using same_but_pba_fields(6) c(1) by blast
qed (use assms in simp)

lemma store_entry_halves:
  assumes "byteorder_ok B" "length d1 = 4" "length d2 = 4" "m = 0 \<or> m = 8"
  shows "store_entry B m (d1 @ d2) e = store_entry B (m + 4) d2 (store_entry B m d1 e)"
  using assms(4)
  by (elim disjE) (simp_all add: store_entry_def byteorder_halves_read [OF assms(1-3)] word_halves assms(2,3)
      del: drop_bit_or)

text \<open>
  C23: The two access widths of the MSI-X table agree.  For a naturally aligned 8-byte access to
  an entry of the table, reading 8 bytes gives the two 4-byte reads one after the other, writing
  8 bytes leaves the table as the two 4-byte writes do, and what was written is read back.
\<close>
theorem msix_access_widths:
  assumes "byteorder_ok B" "msix_wf cfg" "off mod 8 = 0" "unat (off div 16) < num_vectors cfg"
    and "length d1 = 4" "length d2 = 4"
    and "write_table B I cfg off (d1 @ d2) g = Some (c8, g8, e8)"
    and "write_table B I cfg off d1 g = Some (c4, g4, e4)"
    and "write_table B I c4 (off + 4) d2 g4 = Some (c44, g44, e44)"
  shows "read_table B cfg off (replicate 8 0) =
      read_table B cfg off (replicate 4 0) @ read_table B cfg (off + 4) (replicate 4 0)
    \<and> table_entries c8 = table_entries c44 \<and> read_table B c8 off (replicate 8 0) = d1 @ d2"
proof -
  define m where "m = off mod 16"
  note up = upper_half [OF assms(3), folded m_def]
  define i where "i = unat (off div 16)"
  have i: "i < length (table_entries cfg)" using assms(4) by (simp add: i_def num_vectors_def)
  have t8: "table_entries c8 = (table_entries cfg)[i := store_entry B (m) (d1 @ d2) (table_entries cfg ! i)]"
    using write_table_entries [OF assms(7) _ assms(4,2)] assms(5,6) by (simp add: i_def m_def)
  have t4: "table_entries c4 = (table_entries cfg)[i := store_entry B (m) d1 (table_entries cfg ! i)]"
    using write_table_entries [OF assms(8) _ assms(4,2)] assms(5) by (simp add: i_def m_def)
  have wf4: "msix_wf c4" by (rule write_table_wf [OF assms(2,8)])
  have t44: "table_entries c44 = (table_entries c4)[i := store_entry B (m + 4) d2 (table_entries c4 ! i)]"
    using write_table_entries [OF assms(9) _ _ wf4] assms(6) i t4 up(1,2) by (simp add: i_def num_vectors_def)
  have eq: "table_entries c8 = table_entries c44"
    using t8 t44 t4 i store_entry_halves [OF assms(1,5,6) up(3)] by simp
  have halves: "read_table B c off (replicate 8 0) =
      read_table B c off (replicate 4 0) @ read_table B c (off + 4) (replicate 4 0)"
    if "i < length (table_entries c)" for c
    using that up(3) byteorder_halves_write [OF assms(1)]
    by (auto simp: read_table_def Let_def i_def [symmetric] m_def [symmetric] up(1,2))
  moreover have "read_table B c8 off (replicate 4 0) = d1" "read_table B c8 (off + 4) (replicate 4 0) = d2"
  proof -
    have e: "table_entries c8 ! i = store_entry B (m + 4) d2 (store_entry B (m) d1 (table_entries cfg ! i))"
      and len: "i < length (table_entries c8)"
      using t8 i store_entry_halves [OF assms(1,5,6) up(3)] by simp_all
    show "read_table B c8 off (replicate 4 0) = d1" "read_table B c8 (off + 4) (replicate 4 0) = d2"
      using up(3) len byteorder_read_write32 [OF assms(1)] assms(5,6)
      by (auto simp: read_table_def Let_def i_def [symmetric] m_def [symmetric] up(1,2) e store_entry_def)
  qed
  moreover have "i < length (table_entries c8)" using t8 i by simp
  ultimately show ?thesis using eq halves [OF i] halves [of c8] by simp
qed

theorem msix_access_widths_witness:
  "\<exists>cfg c4 c8 c44 g g4 g8 g44. msix_new (maybe_mut (msi_ops calm_hyp)) 4 0 None g = Some (Inr cfg, g)
    \<and> write_table std_le (maybe_mut (msi_ops calm_hyp)) cfg 0x20 [0, 0, 0xe0, 0xfe, 1, 0, 0, 0] g = Some (c8, g8, [])
    \<and> write_table std_le (maybe_mut (msi_ops calm_hyp)) cfg 0x20 [0, 0, 0xe0, 0xfe] g = Some (c4, g4, [])
    \<and> write_table std_le (maybe_mut (msi_ops calm_hyp)) c4 0x24 [1, 0, 0, 0] g4 = Some (c44, g44, [])
    \<and> table_entries c8 = table_entries c44
    \<and> read_table std_le c8 0x20 (replicate 8 0) = [0, 0, 0xe0, 0xfe, 1, 0, 0, 0]"
proof -
  let ?I = "maybe_mut (msi_ops calm_hyp)"
  obtain r and m :: "(nat, u32 \<times> interrupt_source_config) msi_manager" where "msi_inv {} (r, m)"
    using sample_update by metis
  define g where "g = (r, m)"
  define cfg where "cfg = \<lparr> table_entries = replicate 4 default_entry, pba_entries = [0],
    mx_devid = 0, mx_masked = True, mx_enabled = False \<rparr>"
  have new: "msix_new ?I 4 0 None g = Some (Inr cfg, g)"
    by (simp add: msix_new_def MAX_MSIX_VECTORS_PER_DEVICE_def BITS_PER_PBA_ENTRY_def cfg_def)
  note wf = msix_new_fresh(1,2) [OF new]
  have off: "length (table_entries c) \<le> unat (off div 16 :: u64) \<or> \<not> mx_enabled c \<Longrightarrow>
      \<exists>c'. write_table std_le ?I c off data h = Some (c', h, []) \<and> \<not> mx_enabled c'" if "\<not> mx_enabled c" for c off data h
    using that by (auto simp: write_table_def Let_def)
  have 0: "\<not> mx_enabled cfg" by (simp add: cfg_def)
  obtain c8 where w8: "write_table std_le ?I cfg 0x20 ([0, 0, 0xe0, 0xfe] @ [1, 0, 0, 0]) g = Some (c8, g, [])"
    using off [OF 0] 0 by blast
  obtain c4 where w4: "write_table std_le ?I cfg 0x20 [0, 0, 0xe0, 0xfe] g = Some (c4, g, [])"
    and 4: "\<not> mx_enabled c4" using off [OF 0] 0 by blast
  obtain c44 where w44: "write_table std_le ?I c4 (0x20 + 4) [1, 0, 0, 0] g = Some (c44, g, [])"
    using off [OF 4] 4 by blast
  have "table_entries c8 = table_entries c44
      \<and> read_table std_le c8 0x20 (replicate 8 0) = [0, 0, 0xe0, 0xfe] @ [1, 0, 0, 0]"
    using msix_access_widths [OF std_le_ok wf(1) _ _ _ _ w8 w4 w44] wf(2) by simp
  with new w8 w4 w44 show ?thesis by (intro exI conjI) (assumption | simp)+
qed

section \<open>The capability describes the device\<close>

lemma cap_size_new:
  assumes "msix_cap_new tb n toff pb poff = Some cap" "0 < n"
  shows "table_size cap = n" "n < 2048"
proof -
  have n: "n < 2048" using assms(1) by (simp add: msix_cap_new_def MAX_MSIX_VECTORS_PER_DEVICE_def split: if_splits)
  then show "n < 2048" .
  have m: "(0x7ff :: u16) = mask 11" by (simp add: mask_eq_exp_minus_1)
  have un: "0 < unat n" "unat n < 2048" using assms(2) n by (simp_all add: word_less_nat_alt)
  define w where "w = 0x8000 + n - 1"
  have "unat w = 32768 + (unat n - 1)"
    using un by (simp add: w_def unat_word_ariths unat_sub_if')
  moreover have "(32768 + (unat n - 1)) mod 2048 = unat n - 1"
    using un mod_mult_self1 [of "unat n - 1" 16 2048] by simp
  moreover have "unat (w AND 0x7ff) = unat w mod 2048"
    unfolding m take_bit_eq_mask [symmetric] by (simp add: unsigned_take_bit_eq take_bit_eq_mod unat_mod_distrib)
  ultimately have "unat ((0x8000 + n - 1) AND 0x7ff) = unat n - 1" unfolding w_def by simp
  then have "unat (((0x8000 + n - 1) AND 0x7ff) + 1) = unat n"
    using un by (simp add: unat_word_ariths)
  then show "table_size cap = n"
    using assms(1) by (auto simp: table_size_def msix_cap_new_def word_unat_eq_iff split: if_splits)
qed

lemma bit_flags: "bit (49152 :: u16) n \<longleftrightarrow> n = 14 \<or> n = 15" "bit (49152 :: int) n \<longleftrightarrow> n = 14 \<or> n = 15"
  using bit_or_iff [of "16384 :: u16" 32768 n] bit_exp_iff [where 'a = u16, of 14 n] bit_exp_iff [where 'a = u16, of 15 n]
    bit_or_iff [of "16384 :: int" 32768 n] bit_exp_iff [where 'a = int, of 14 n] bit_exp_iff [where 'a = int, of 15 n]
  by auto

lemma cap_flags:
  "table_size (cap_set_msg_ctl cap reg) = table_size cap"
  "cap_masked (cap_set_msg_ctl cap reg) \<longleftrightarrow> drop_bit 14 reg AND 1 = 1"
  "cap_enabled (cap_set_msg_ctl cap reg) \<longleftrightarrow> drop_bit 15 reg AND 1 = 1"
proof -
  define w where "w = (msg_ctl cap AND NOT (FUNCTION_MASK_MASK OR MSIX_ENABLE_MASK)) OR
    (reg AND (FUNCTION_MASK_MASK OR MSIX_ENABLE_MASK))"
  have b: "bit w n \<longleftrightarrow> n < 16 \<and> (if n = 14 \<or> n = 15 then bit reg n else bit (msg_ctl cap) n)" for n
    by (auto simp: w_def FUNCTION_MASK_MASK_def MSIX_ENABLE_MASK_def bit_simps bit_flags dest: bit_imp_le_length)
  have m: "(0x7ff :: u16) = mask 11" by (simp add: mask_eq_exp_minus_1)
  have "w AND 0x7ff = msg_ctl cap AND 0x7ff"
    unfolding m by (rule bit_word_eqI) (auto simp: b bit_simps)
  then show "table_size (cap_set_msg_ctl cap reg) = table_size cap"
    by (simp add: table_size_def cap_set_msg_ctl_def w_def)
  have "drop_bit 14 w AND 1 = drop_bit 14 reg AND 1" "drop_bit 15 w AND 1 = drop_bit 15 reg AND 1"
    by (rule bit_word_eqI, auto simp: b bit_simps)+
  then show "cap_masked (cap_set_msg_ctl cap reg) \<longleftrightarrow> drop_bit 14 reg AND 1 = 1"
    "cap_enabled (cap_set_msg_ctl cap reg) \<longleftrightarrow> drop_bit 15 reg AND 1 = 1"
    by (simp_all add: cap_masked_def cap_enabled_def cap_set_msg_ctl_def w_def)
qed

lemma bar_fields:
  "((off AND 0xfffffff8) OR ucast (bar AND 7 :: u8)) AND 0xfffffff8 = (off AND 0xfffffff8 :: u32)"
  "((off AND 0xfffffff8) OR ucast (bar AND 7 :: u8)) AND 7 = (ucast (bar AND 7) :: u32)"
proof -
  have m: "(0xfffffff8 :: u32) = NOT (mask 3)" "(7 :: u32) = mask 3" "(7 :: u8) = mask 3"
    by (simp_all add: mask_eq_exp_minus_1)
  show "((off AND 0xfffffff8) OR ucast (bar AND 7 :: u8)) AND 0xfffffff8 = (off AND 0xfffffff8 :: u32)"
    "((off AND 0xfffffff8) OR ucast (bar AND 7 :: u8)) AND 7 = (ucast (bar AND 7) :: u32)"
    unfolding m by (rule bit_word_eqI, auto simp: bit_simps)+
qed



end
