(* ===== verification/MsixRoutes.thy ===== *)
theory MsixRoutes
  imports Msix
begin

text \<open>
  The interrupt group follows the MSI-X table of \<^verbatim>\<open>pci/src/msix.rs\<close>; the table, the pending bits and
  the capability as the guest sees them.
\<close>

section \<open>Routes\<close>

lemma maybe_mut_simps [simp]:
  "isg_update (maybe_mut J) = isg_update J" "isg_trigger (maybe_mut J) = isg_trigger J"
  "isg_enable (maybe_mut J) g = Some (Inr (), g)" "isg_disable (maybe_mut J) g = Some (Inr (), g)"
  by (simp_all add: maybe_mut_def isg_default_enable_def isg_default_disable_def)

lemma vec_inj: "i < 2048 \<Longrightarrow> j < 2048 \<Longrightarrow> (word_of_nat i :: u32) = word_of_nat j \<longleftrightarrow> i = j"
  by (simp add: word_unat_eq_iff unat_of_nat take_bit_nat_eq_self)

context interrupt_source_group
begin

definition follows :: "'g \<Rightarrow> msix_config \<Rightarrow> bool" where
  "follows g cfg \<longleftrightarrow> (mx_enabled cfg \<longrightarrow> \<not> mx_masked cfg \<longrightarrow> (\<forall>v < num_vectors cfg.
     \<not> entry_masked (table_entries cfg ! v) \<longrightarrow>
     delivers g (word_of_nat v) (entry_config (mx_devid cfg) (table_entries cfg ! v))))"

definition routed :: "'g \<Rightarrow> u32 \<Rightarrow> msix_table_entry list \<Rightarrow> nat \<Rightarrow> bool" where
  "routed g dev es v \<longleftrightarrow> (\<not> entry_masked (es ! v) \<longrightarrow> delivers g (word_of_nat v) (entry_config dev (es ! v)))"

lemma routed_update:
  assumes "invar g" "isg_update ops (word_of_nat i) c m k g = Some (r, g')" "routed g dev es v"
    "i < 2048" "v < 2048" "v \<noteq> i"
  shows "routed g' dev es v"
  using update_other [OF assms(1,2), of "word_of_nat v"] vec_inj [OF assms(4,5)] assms(3,6)
  by (auto simp: routed_def)

lemma update_vectors_invar:
  "update_vectors (maybe_mut ops) dev k es g = Some (g', errs) \<Longrightarrow> invar g \<Longrightarrow> invar g'"
proof (induction es arbitrary: k g errs)
  case (Cons e es)
  obtain r g1 e2 where u: "isg_update ops (word_of_nat k) (entry_config dev e) (entry_masked e) True g = Some (r, g1)"
    and rest: "update_vectors (maybe_mut ops) dev (Suc k) es g1 = Some (g', e2)"
    using Cons(2) by (auto split: option.splits)
  show ?case using Cons(1) [OF rest] update_invar [OF Cons(3) u] by blast
qed simp

lemma update_vectors_routed:
  assumes "update_vectors (maybe_mut ops) dev k es g = Some (g', errs)" "invar g"
    "es = drop k tab" "length tab \<le> 2048" "\<And>v. v < k \<Longrightarrow> routed g dev tab v"
  shows "invar g' \<and> (errs = [] \<longrightarrow> (\<forall>v < length tab. routed g' dev tab v))"
  using assms
proof (induction es arbitrary: k g errs)
  case Nil
  then show ?case by auto
next
  case (Cons e es)
  have k: "k < length tab" using Cons(4) by (metis drop_eq_Nil list.distinct(1) not_le)
  then have es: "es = drop (Suc k) tab" and e: "e = tab ! k"
    using Cons(4) by (simp_all add: Cons_nth_drop_Suc [symmetric])
  obtain r g1 e2 where u: "isg_update ops (word_of_nat k) (entry_config dev e) (entry_masked e) True g = Some (r, g1)"
    and rest: "update_vectors (maybe_mut ops) dev (Suc k) es g1 = Some (g', e2)" and errs: "errs = logged r @ e2"
    using Cons(2) by (auto split: option.splits)
  have g1: "invar g1" using update_invar [OF Cons(3) u] by simp
  show ?case
  proof (cases "r = Inr ()")
    case True
    have "routed g1 dev tab v" if "v < Suc k" for v
    proof (cases "v = k")
      case eq: True
      then show ?thesis using update_unmasked [OF Cons(3)] u True e unfolding routed_def by metis
    next
      case False
      then show ?thesis using routed_update [OF Cons(3) u] Cons(5,6) k that by simp
    qed
    from Cons(1) [OF rest g1 es Cons(5) this] show ?thesis using errs True by simp
  next
    case False
    then show ?thesis using errs update_vectors_invar [OF rest g1] by simp
  qed
qed

lemma follows_iff:
  "follows g cfg \<longleftrightarrow> (mx_enabled cfg \<longrightarrow> \<not> mx_masked cfg \<longrightarrow>
     (\<forall>v < num_vectors cfg. routed g (mx_devid cfg) (table_entries cfg) v))"
  by (auto simp: follows_def routed_def)

lemma follows_same_pba: "same_but_pba c c' \<Longrightarrow> follows g c' = follows g c"
  by (simp add: follows_def same_but_pba_fields)

lemma routed_trigger: "isg_trigger ops i g = Some (r, g') \<Longrightarrow> routed g' = routed g"
  using trigger_frame by (fastforce simp: routed_def fun_eq_iff)

lemma inject_pending_frame:
  "inject_pending (maybe_mut ops) k es cfg g = Some (cfg', g', errs) \<Longrightarrow>
   routed g' = routed g \<and> invar g' = invar g"
proof (induction es arbitrary: k cfg g errs)
  case (Cons e es)
  consider (skip) errs1 where "inject_pending (maybe_mut ops) (Suc k) es cfg g = Some (cfg', g', errs1)"
    | (inj) c1 g1 e1 e2 where "inject_msix_and_clear_pba (maybe_mut ops) cfg k g = Some (c1, g1, e1)"
        "inject_pending (maybe_mut ops) (Suc k) es c1 g1 = Some (cfg', g', e2)"
    using Cons(2) by (auto split: if_splits option.splits)
  then show ?case
  proof cases
    case skip
    then show ?thesis by (rule Cons(1))
  next
    case inj
    obtain r where "isg_trigger ops (word_of_nat k) g = Some (r, g1)"
      using inj(1) by (auto simp: inject_msix_and_clear_pba_def split: option.splits)
    then have "routed g1 = routed g" "invar g1 = invar g" using routed_trigger trigger_frame by blast+
    then show ?thesis using Cons(1) [OF inj(2)] by simp
  qed
qed simp

lemma write_table_follows:
  assumes wf: "msix_wf cfg" and g: "invar g"
    and w: "write_table B (maybe_mut ops) cfg off data g = Some (cfg', g', errs)"
  shows "invar g' \<and> msix_wf cfg' \<and> (errs = [] \<longrightarrow> follows g cfg \<longrightarrow> follows g' cfg')"
proof -
  have upd: "invar g1 \<and> (r = Inr () \<longrightarrow> follows g cfg \<longrightarrow>
      follows g1 (cfg\<lparr> table_entries := (table_entries cfg)[i := e] \<rparr>))"
    if i: "i < num_vectors cfg" and u: "update_if_live (maybe_mut ops) cfg i e g = Some (r, g1)" for i e r g1
  proof (cases "mx_enabled cfg \<and> \<not> mx_masked cfg \<and> \<not> entry_masked e")
    case True
    then have u': "isg_update ops (word_of_nat i) (entry_config (mx_devid cfg) e) False True g = Some (r, g1)"
      using u by (simp add: update_if_live_def)
    have lens: "i < 2048" "\<And>v. v < num_vectors cfg \<Longrightarrow> v < 2048"
      using vector_in_pba [OF wf] i by blast+
    have "routed g1 (mx_devid cfg) ((table_entries cfg)[i := e]) v"
      if "r = Inr ()" "follows g cfg" "v < num_vectors cfg" for v
    proof (cases "v = i")
      case eq: True
      then show ?thesis using update_unmasked [OF g] u' that i by (auto simp: routed_def num_vectors_def)
    next
      case False
      have "routed g (mx_devid cfg) (table_entries cfg) v" using that True by (simp add: follows_iff)
      from routed_update [OF g u' this lens(1) lens(2) [OF that(3)] False] False
      show ?thesis by (simp add: routed_def)
    qed
    then show ?thesis using update_invar [OF g u'] by (simp add: follows_iff num_vectors_def)
  next
    case False
    then have "g1 = g" using u by (simp add: update_if_live_def split: if_splits)
    moreover have "follows g cfg \<longrightarrow> follows g (cfg\<lparr> table_entries := (table_entries cfg)[i := e] \<rparr>)"
      using False i by (auto simp: follows_iff num_vectors_def routed_def nth_list_update split: if_splits)
    ultimately show ?thesis using g by simp
  qed
  from wf w show ?thesis
  proof (cases rule: write_table_cases)
    case same
    then show ?thesis using g wf by simp
  next
    case (plain i e r)
    then show ?thesis using upd [OF plain(1,3)] wf by (auto simp: msix_wf_def)
  next
    case (inject i e r g1 errs1)
    let ?c = "cfg\<lparr> table_entries := (table_entries cfg)[i := e] \<rparr>"
    have c: "msix_wf ?c" "i < num_vectors ?c" using wf inject(1) by (simp_all add: msix_wf_def num_vectors_def)
    obtain r' where tr: "isg_trigger ops (word_of_nat i) g1 = Some (r', g')" and same: "same_but_pba ?c cfg'"
      using inject_cases [OF c inject(6)] by auto
    have "routed g' = routed g1" "invar g' = invar g1" using routed_trigger [OF tr] trigger_frame [OF tr] by auto
    then have "follows g' cfg' = follows g1 ?c"
      unfolding follows_same_pba [OF same] by (simp add: follows_iff)
    then show ?thesis
      using upd [OF inject(1,3)] same_but_pba_fields(6) [OF same] c(1) inject(5) \<open>invar g' = invar g1\<close>
      by auto
  qed
qed

lemma set_msg_ctl_follows:
  assumes wf: "msix_wf cfg" and g: "invar g"
    and w: "set_msg_ctl (maybe_mut ops) cfg reg g = Some (cfg', g', errs)"
  shows "invar g' \<and> msix_wf cfg' \<and> (errs = [] \<longrightarrow> follows g cfg \<longrightarrow> follows g' cfg')"
proof (rule set_msg_ctl_cases [OF wf w])
  fix c g1 e1 e2
  assume c: "c = cfg\<lparr> mx_masked := mx_masked c, mx_enabled := mx_enabled c \<rparr>"
    and r: "update_routing (maybe_mut ops) (mx_masked cfg) (mx_enabled cfg) c g = Some (g1, e1)"
    and errs: "errs = e1 @ e2"
    and rest: "if mx_masked cfg \<and> \<not> mx_masked c
      then inject_pending (maybe_mut ops) 0 (table_entries c) c g1 = Some (cfg', g', e2)
      else cfg' = c \<and> g' = g1 \<and> e2 = []"
  have tc: "table_entries c = table_entries cfg" "mx_devid c = mx_devid cfg" "msix_wf c"
    by (subst c, simp)+ (subst c, use wf in \<open>simp add: msix_wf_def\<close>)
  have len: "length (table_entries cfg) \<le> 2048" using wf by (simp add: msix_wf_def)
  have 1: "invar g1 \<and> (e1 = [] \<longrightarrow> follows g cfg \<longrightarrow> follows g1 c)"
  proof (cases "(mx_masked cfg \<noteq> mx_masked c \<or> mx_enabled cfg \<noteq> mx_enabled c) \<and> mx_enabled c \<and> \<not> mx_masked c")
    case True
    then have "update_vectors (maybe_mut ops) (mx_devid cfg) 0 (table_entries cfg) g = Some (g1, e1)"
      using r tc by (simp add: update_routing_def split: if_splits)
    from update_vectors_routed [OF this g _ len] show ?thesis
      by (simp add: follows_iff tc num_vectors_def)
  next
    case False
    then have "g1 = g" using r by (auto simp: update_routing_def split: if_splits)
    moreover have "follows g cfg \<longrightarrow> follows g c" using False tc by (auto simp: follows_iff num_vectors_def)
    ultimately show ?thesis using g by simp
  qed
  show ?thesis
  proof (cases "mx_masked cfg \<and> \<not> mx_masked c")
    case True
    with rest have inj: "inject_pending (maybe_mut ops) 0 (table_entries c) c g1 = Some (cfg', g', e2)" by simp
    have same: "same_but_pba c cfg'" using inject_pending_effect [OF inj tc(3)] by simp
    have "follows g' cfg' = follows g1 c"
      unfolding follows_same_pba [OF same] using inject_pending_frame [OF inj] by (simp add: follows_iff)
    then show ?thesis
      using 1 inject_pending_frame [OF inj] same_but_pba_fields(6) [OF same] tc(3) errs by auto
  next
    case False
    then show ?thesis using rest 1 tc(3) errs by (auto split: if_splits)
  qed
qed

lemma virtio_trigger_follows:
  assumes wf: "msix_wf cfg" and g: "invar g"
    and w: "virtio_trigger (maybe_mut ops) vi t cfg g = Some (r, vi', cfg', g')"
  shows "invar g' \<and> msix_wf cfg' \<and> (follows g cfg \<longrightarrow> follows g' cfg')"
proof (rule virtio_trigger_cases [OF wf w])
  fix vec
  assume eff: "if vec = VIRTQ_MSI_NO_VECTOR \<or> msix_table_size vi \<le> unat vec then cfg' = cfg \<and> g' = g
     else unat vec < num_vectors cfg \<and>
       (if mx_masked cfg \<or> entry_masked (table_entries cfg ! unat vec)
        then g' = g \<and> same_but_pba cfg cfg' \<and> (\<forall>w. pending cfg' w \<longleftrightarrow> w = unat vec \<or> pending cfg w)
        else cfg' = cfg \<and> isg_trigger (maybe_mut ops) (ucast vec) g = Some (r, g'))"
  have "same_but_pba cfg cfg' \<and> (g' = g \<or> isg_trigger ops (ucast vec) g = Some (r, g'))"
    using eff by (auto split: if_splits)
  then have same: "same_but_pba cfg cfg'" and "routed g' = routed g \<and> invar g' = invar g"
    using routed_trigger trigger_frame by auto
  then show ?thesis
    using g wf same_but_pba_fields(6) [OF same] follows_same_pba [OF same] by (simp add: follows_iff)
qed

lemma restore_vectors_routed:
  assumes "restore_vectors (maybe_mut ops) dev False k es g = Some (Inr u, g')" "invar g"
    "es = drop k tab" "length tab \<le> 2048" "\<And>v. v < k \<Longrightarrow> routed g dev tab v"
  shows "invar g' \<and> (\<forall>v < length tab. routed g' dev tab v)"
  using assms
proof (induction es arbitrary: k g)
  case Nil
  then show ?case by auto
next
  case (Cons e es)
  have k: "k < length tab" using Cons(4) by (metis drop_eq_Nil list.distinct(1) not_le)
  then have es: "es = drop (Suc k) tab" and e: "e = tab ! k"
    using Cons(4) by (simp_all add: Cons_nth_drop_Suc [symmetric])
  obtain g1 where rest: "restore_vectors (maybe_mut ops) dev False (Suc k) es g1 = Some (Inr u, g')"
    and g1: "invar g1" and "\<And>v. v < Suc k \<Longrightarrow> routed g1 dev tab v"
  proof (cases "entry_masked e")
    case True
    have "routed g dev tab v" if "v < Suc k" for v
      using Cons(6) that True e by (cases "v = k") (auto simp: routed_def)
    then show thesis using that [of g] Cons(2,3) True by simp
  next
    case False
    obtain r g1 where u0: "isg_update ops (word_of_nat k) (entry_config dev e) False True g = Some (r, g1)"
      using update_total [OF Cons(3)] by blast
    then have "r = Inr ()" and rest: "restore_vectors (maybe_mut ops) dev False (Suc k) es g1 = Some (Inr u, g')"
      using Cons(2) False by (cases r; simp)+
    then have u: "isg_update ops (word_of_nat k) (entry_config dev e) False True g = Some (Inr (), g1)"
      using u0 by simp
    have "routed g1 dev tab v" if "v < Suc k" for v
    proof (cases "v = k")
      case eq: True
      then show ?thesis using update_unmasked [OF Cons(3) u] e unfolding routed_def by metis
    next
      case False
      then show ?thesis using routed_update [OF Cons(3) u] Cons(5,6) k that by simp
    qed
    then show thesis using that [OF rest] update_invar [OF Cons(3) u] by blast
  qed
  from Cons(1) [OF rest g1 es Cons(5) this(3)] show ?case .
qed

lemma inject_total:
  assumes "msix_wf cfg" "v < num_vectors cfg"
  shows "inject_msix_and_clear_pba (maybe_mut ops) cfg v g \<noteq> None"
proof -
  obtain r g' where "isg_trigger ops (word_of_nat v) g = Some (r, g')" using trigger_total by blast
  moreover obtain c where "set_pba_bit cfg (word_of_nat v) True = Some c"
    using set_pba_bit_pending [OF assms, of True] by blast
  ultimately show ?thesis by (simp add: inject_msix_and_clear_pba_def)
qed

lemma inject_pending_total:
  assumes "msix_wf cfg" "es = drop k (table_entries cfg)"
  shows "inject_pending (maybe_mut ops) k es cfg g \<noteq> None"
  using assms
proof (induction es arbitrary: k cfg g)
  case (Cons e es)
  have k: "k < num_vectors cfg"
    using Cons(3) by (metis drop_eq_Nil list.distinct(1) not_le num_vectors_def)
  then have es: "es = drop (Suc k) (table_entries cfg)"
    using Cons(3) by (simp add: num_vectors_def Cons_nth_drop_Suc [symmetric])
  obtain c1 g1 e1 where i: "inject_msix_and_clear_pba (maybe_mut ops) cfg k g = Some (c1, g1, e1)"
    using inject_total [OF Cons(2) k, of g] by auto
  from inject_cases [OF Cons(2) k i] have same: "same_but_pba cfg c1" by blast
  note t = same_but_pba_fields [OF same]
  have "inject_pending (maybe_mut ops) (Suc k) es c1 g1 \<noteq> None"
    using Cons(1) [of c1 "Suc k" g1] Cons(2) es t by simp
  then show ?case
    using Cons(1) [OF Cons(2) es] i get_pba_bit_pending [OF Cons(2) k] by auto
qed simp

lemma update_vectors_total: "invar g \<Longrightarrow> update_vectors (maybe_mut ops) dev k es g \<noteq> None"
proof (induction es arbitrary: k g)
  case (Cons e es)
  obtain r g1 where u: "isg_update ops (word_of_nat k) (entry_config dev e) (entry_masked e) True g = Some (r, g1)"
    using update_total [OF Cons(2)] by blast
  have "update_vectors (maybe_mut ops) dev (Suc k) es g1 \<noteq> None"
    using Cons(1) update_invar [OF Cons(2) u] by blast
  then show ?case using u by auto
qed simp

lemma write_table_total:
  assumes "msix_wf cfg" "invar g"
  shows "write_table B (maybe_mut ops) cfg off data g \<noteq> None"
proof (cases "length data \<noteq> 4 \<and> length data \<noteq> 8 \<or> length (table_entries cfg) \<le> unat (off div 16)")
  case True
  then show ?thesis by (auto simp: write_table_def Let_def)
next
  case False
  define i where "i = unat (off div 16)"
  define e where "e = store_entry B (off mod 16) data (table_entries cfg ! i)"
  let ?c = "cfg\<lparr> table_entries := (table_entries cfg)[i := e] \<rparr>"
  have c: "msix_wf ?c" "i < num_vectors ?c" using assms(1) False by (simp_all add: msix_wf_def num_vectors_def i_def)
  obtain r g1 where u: "isg_update ops (word_of_nat i) (entry_config (mx_devid cfg) e) (entry_masked e) True g = Some (r, g1)"
    using update_total [OF assms(2)] by blast
  have inj: "inject_msix_and_clear_pba (maybe_mut ops) ?c i h \<noteq> None" for h by (rule inject_total [OF c])
  show ?thesis
    using False u inj [of g] inj [of g1] get_pba_bit_pending [OF c]
    unfolding write_table_def Let_def i_def [symmetric] e_def [symmetric]
    by (cases "entry_masked e") auto
qed

lemma set_msg_ctl_total:
  assumes "msix_wf cfg" "invar g"
  shows "set_msg_ctl (maybe_mut ops) cfg reg g \<noteq> None"
proof -
  define c where "c = cfg\<lparr> mx_masked := drop_bit 14 reg AND 1 = 1, mx_enabled := drop_bit 15 reg AND 1 = 1 \<rparr>"
  have c: "msix_wf c" using assms(1) by (simp add: c_def msix_wf_def)
  have "update_routing (maybe_mut ops) (mx_masked cfg) (mx_enabled cfg) c g \<noteq> None"
    using update_vectors_total [OF assms(2)] by (simp add: update_routing_def)
  then obtain g1 e1 where r: "update_routing (maybe_mut ops) (mx_masked cfg) (mx_enabled cfg) c g = Some (g1, e1)"
    by auto
  have "inject_pending (maybe_mut ops) 0 (table_entries c) c g1 \<noteq> None"
    by (rule inject_pending_total [OF c]) simp
  then show ?thesis using r by (auto simp: set_msg_ctl_def c_def [symmetric] Let_def)
qed

end

text \<open>Runs with the log of the errors on the way.\<close>

inductive msix_log_step ::
  "byteorder_ops \<Rightarrow> 'g isg_ops \<Rightarrow> (virtio_interrupt_msix \<times> msix_config \<times> 'g) \<times> irq_error list
    \<Rightarrow> (virtio_interrupt_msix \<times> msix_config \<times> 'g) \<times> irq_error list \<Rightarrow> bool" for B I where
  exec: "msix_exec B I ev s = Some (s', errs) \<Longrightarrow> msix_log_step B I (s, log) (s', log @ errs)"

inductive_cases msix_log_stepE: "msix_log_step B I x (s', log')"

context interrupt_source_group
begin

definition msix_inv :: "msix_config \<Rightarrow> 'g \<Rightarrow> irq_error list \<Rightarrow> bool" where
  "msix_inv cfg g log \<longleftrightarrow> msix_wf cfg \<and> invar g \<and> (log = [] \<longrightarrow> follows g cfg)"

lemma msix_exec_inv:
  assumes "msix_exec B (maybe_mut ops) ev (vi, cfg, g) = Some ((vi', cfg', g'), errs)" "msix_inv cfg g log"
  shows "msix_inv cfg' g' (log @ errs)"
proof -
  have wf: "msix_wf cfg" "invar g" using assms(2) by (simp_all add: msix_inv_def)
  have "invar g' \<and> msix_wf cfg' \<and> (errs = [] \<longrightarrow> follows g cfg \<longrightarrow> follows g' cfg')"
  proof (cases ev)
    case (WriteTable off data)
    then have "write_table B (maybe_mut ops) cfg off data g = Some (cfg', g', errs)" using assms(1) by auto
    then show ?thesis by (rule write_table_follows [OF wf])
  next
    case (WriteMsgCtl reg)
    then have "set_msg_ctl (maybe_mut ops) cfg reg g = Some (cfg', g', errs)" using assms(1) by auto
    then show ?thesis by (rule set_msg_ctl_follows [OF wf])
  next
    case (Raise t)
    then obtain r where "virtio_trigger (maybe_mut ops) vi t cfg g = Some (r, vi', cfg', g')"
      using assms(1) by auto
    from virtio_trigger_follows [OF wf this] show ?thesis by blast
  qed
  then show ?thesis using assms(2) by (simp add: msix_inv_def)
qed

lemma msix_inv_run:
  assumes "(msix_log_step B (maybe_mut ops))\<^sup>*\<^sup>* ((vi, cfg, g), log) ((vi', cfg', g'), log')" "msix_inv cfg g log"
  shows "msix_inv cfg' g' log'"
  using assms
proof (induction "((vi', cfg', g'), log')" arbitrary: vi' cfg' g' log' rule: rtranclp_induct)
  case (step x vi' cfg' g' log')
  from step(2) show ?case
  proof (rule msix_log_stepE)
    fix ev s errs log1
    assume x: "x = (s, log1)" "log' = log1 @ errs" and ex: "msix_exec B (maybe_mut ops) ev s = Some ((vi', cfg', g'), errs)"
    obtain v1 c1 g1 where s: "s = (v1, c1, g1)" by (metis prod_cases3)
    show ?thesis
      using msix_exec_inv [OF ex [unfolded s]] step(3) [of v1 c1 g1 log1] step(4) x s by simp
  qed
qed simp

lemma msix_new_inv:
  assumes "msix_new (maybe_mut ops) n dev st g = Some (Inr cfg, g')" "invar g"
    and "\<And>s. st = Some s \<Longrightarrow> length (st_table_entries s) \<le> 2048
      \<and> length (st_table_entries s) \<le> 64 * length (st_pba_entries s)"
  shows "msix_inv cfg g' []"
proof (cases st)
  case None
  note f = msix_new_fresh [OF assms(1) [unfolded None]]
  then show ?thesis using assms(2) by (simp add: msix_inv_def follows_def)
next
  case (Some s)
  have "n \<le> MAX_MSIX_VECTORS_PER_DEVICE" using assms(1) by (simp add: msix_new_def split: if_splits)
  show ?thesis
  proof (cases "st_enabled s \<and> \<not> st_masked s")
    case True
    then obtain u where r: "restore_vectors (maybe_mut ops) dev False 0 (st_table_entries s) g = Some (Inr u, g')"
      and cfg: "cfg = \<lparr> table_entries = st_table_entries s, pba_entries = st_pba_entries s,
                mx_devid = dev, mx_masked = st_masked s, mx_enabled = st_enabled s \<rparr>"
      using assms(1) Some \<open>n \<le> _\<close> by (auto simp: msix_new_def split: option.splits sum.splits prod.splits)
    from restore_vectors_routed [OF r assms(2), of "st_table_entries s"] assms(3) [OF Some]
    show ?thesis by (simp add: msix_inv_def follows_iff cfg num_vectors_def msix_wf_def)
  next
    case False
    then show ?thesis
      using assms Some by (auto simp: msix_new_def msix_inv_def follows_def msix_wf_def split: if_splits)
  qed
qed

end



end
