(* ===== verification/DeviceBus.thy ===== *)
theory DeviceBus
  imports Prelude
begin

text \<open>
  The device bus, \<^verbatim>\<open>vm-device/src/bus.rs\<close>, which routes guest port-I/O and MMIO accesses to
  the device that owns the address. The bus is a \<open>BTreeMap\<close> keyed by \<open>BusRange\<close>, whose equality
  and order look at the base only: it is modelled as a sorted association list from the base to
  the length and the device. The bus holds weak references; \<open>alive\<close> says which devices still
  exist at the time of a call. Devices are opaque: their \<open>BusDeviceSync\<close> methods are parameters
  that act on a state of the devices.
\<close>

section \<open>Model\<close>

datatype bus_error = Overlap | ZeroSizedRange | MissingAddressRange

type_synonym 'd bus = "(u64, u64 \<times> 'd) btree"

definition bus_range_overlaps :: "u64 \<times> u64 \<Rightarrow> u64 \<Rightarrow> u64 \<Rightarrow> bool" where
  "bus_range_overlaps rng base len =
     (fst rng < base + len \<and> base < fst rng + snd rng)"

definition bus_new :: "'d bus" where
  "bus_new = []"

definition first_before :: "('d \<Rightarrow> bool) \<Rightarrow> 'd bus \<Rightarrow> u64 \<Rightarrow> (u64 \<times> u64 \<times> 'd) option" where
  "first_before alive devices addr =
     (let before = takeWhile (\<lambda>(base, _). base \<le> addr) devices in
      if before = [] then None
      else case last before of (base, len, d) \<Rightarrow> if alive d then Some (base, len, d) else None)"

definition resolve :: "('d \<Rightarrow> bool) \<Rightarrow> 'd bus \<Rightarrow> u64 \<Rightarrow> (u64 \<times> u64 \<times> 'd) option" where
  "resolve alive devices addr =
     (case first_before alive devices addr of
        Some (base, len, d) \<Rightarrow>
          let offset = addr - base in if offset < len then Some (base, offset, d) else None
      | None \<Rightarrow> None)"

text \<open>
  \<open>BTreeMap::insert\<close> on an equal key keeps the key that is there (and with it its length) and
  replaces the value.
\<close>

definition bus_insert :: "'d bus \<Rightarrow> 'd \<Rightarrow> u64 \<Rightarrow> u64 \<Rightarrow> (bus_error + unit) \<times> 'd bus" where
  "bus_insert devices d base len =
     (if len = 0 then (Inl ZeroSizedRange, devices)
      else if list_ex (\<lambda>(b, l, _). bus_range_overlaps (b, l) base len) devices
      then (Inl Overlap, devices)
      else case bt_get devices base of
             Some (old_len, _) \<Rightarrow> (Inl Overlap, bt_insert base (old_len, d) devices)
           | None \<Rightarrow> (Inr (), bt_insert base (len, d) devices))"

definition bus_remove :: "'d bus \<Rightarrow> u64 \<Rightarrow> u64 \<Rightarrow> (bus_error + unit) \<times> 'd bus" where
  "bus_remove devices base len =
     (if len = 0 then (Inl ZeroSizedRange, devices)
      else case bt_get devices base of
             None \<Rightarrow> (Inl MissingAddressRange, devices)
           | Some _ \<Rightarrow> (Inr (), bt_remove base devices))"

text \<open>\<open>None\<close> is the panic of \<open>upgrade().unwrap()\<close> on a device that no longer exists.\<close>

definition remove_by_device :: "('d \<Rightarrow> bool) \<Rightarrow> 'd bus \<Rightarrow> 'd \<Rightarrow> 'd bus option" where
  "remove_by_device alive devices d =
     (if list_all (\<lambda>(_, _, d'). alive d') devices
      then let remove_key_list = map fst (filter (\<lambda>(_, _, d'). d' = d) devices)
           in Some (fold bt_remove remove_key_list devices)
      else None)"

definition update_range ::
  "('d \<Rightarrow> bool) \<Rightarrow> 'd bus \<Rightarrow> u64 \<Rightarrow> u64 \<Rightarrow> u64 \<Rightarrow> u64 \<Rightarrow> (bus_error + unit) \<times> 'd bus" where
  "update_range alive devices old_base old_len new_base new_len =
     (case resolve alive devices old_base of
        None \<Rightarrow> (Inl MissingAddressRange, devices)
      | Some (_, _, d) \<Rightarrow>
          (case bus_remove devices old_base old_len of
             (Inl e, devices') \<Rightarrow> (Inl e, devices')
           | (Inr _, devices') \<Rightarrow> bus_insert devices' d new_base new_len))"

definition bus_read ::
  "('d \<Rightarrow> bool) \<Rightarrow> ('d \<Rightarrow> u64 \<Rightarrow> u64 \<Rightarrow> u8 list \<Rightarrow> 's \<Rightarrow> u8 list \<times> 's) \<Rightarrow> 'd bus \<Rightarrow> u64 \<Rightarrow> u8 list
     \<Rightarrow> 's \<Rightarrow> (bus_error + unit) \<times> u8 list \<times> 's" where
  "bus_read alive dev_read devices addr data st =
     (let data' = replicate (length data) 0 in
      case resolve alive devices addr of
        Some (base, offset, d) \<Rightarrow>
          (let (data'', st') = dev_read d base offset data' st in (Inr (), data'', st'))
      | None \<Rightarrow> (Inl MissingAddressRange, data', st))"

definition bus_write ::
  "('d \<Rightarrow> bool) \<Rightarrow> ('d \<Rightarrow> u64 \<Rightarrow> u64 \<Rightarrow> u8 list \<Rightarrow> 's \<Rightarrow> 'b option \<times> 's) \<Rightarrow> 'd bus \<Rightarrow> u64 \<Rightarrow> u8 list
     \<Rightarrow> 's \<Rightarrow> (bus_error + 'b option) \<times> 's" where
  "bus_write alive dev_write devices addr data st =
     (case resolve alive devices addr of
        Some (base, offset, d) \<Rightarrow>
          (let (barrier, st') = dev_write d base offset data st in (Inr barrier, st'))
      | None \<Rightarrow> (Inl MissingAddressRange, st))"

section \<open>Specification\<close>

text \<open>
  A well-formed bus: non-empty ranges that end inside the 64-bit address space and are disjoint.
\<close>

definition bus_wf :: "'d bus \<Rightarrow> bool" where
  "bus_wf devices \<longleftrightarrow> bt_wf devices
     \<and> (\<forall>(b, l, d) \<in> set devices. l \<noteq> 0 \<and> unat b + unat l < 2 ^ 64)
     \<and> (\<forall>(b, l, d) \<in> set devices. \<forall>(b', l', d') \<in> set devices.
           b < b' \<longrightarrow> unat b + unat l \<le> unat b')"

definition in_range :: "u64 \<Rightarrow> u64 \<Rightarrow> u64 \<Rightarrow> bool" where
  "in_range base len addr \<longleftrightarrow> unat base \<le> unat addr \<and> unat addr < unat base + unat len"

text \<open>The owner of an address: the base of its range and its device.\<close>

definition owner :: "'d bus \<Rightarrow> u64 \<Rightarrow> u64 \<Rightarrow> 'd \<Rightarrow> bool" where
  "owner devices addr b d \<longleftrightarrow> (\<exists>l. (b, l, d) \<in> set devices \<and> in_range b l addr)"

section \<open>Lookup\<close>

lemma last_takeWhile_le:
  assumes "bt_wf m" "(k, v) \<in> set m" "k \<le> a" "\<And>k' v'. (k', v') \<in> set m \<Longrightarrow> k < k' \<Longrightarrow> a < k'"
  shows "takeWhile (\<lambda>(b, _). b \<le> a) m \<noteq> [] \<and> last (takeWhile (\<lambda>(b, _). b \<le> a) m) = (k, v)"
  using assms
proof (induction m)
  case Nil
  then show ?case by simp
next
  case (Cons e m)
  obtain b w where e: "e = (b, w)" by (cases e)
  show ?case
  proof (cases "(k, v) \<in> set m")
    case True
    then have "b < k" using Cons.prems(1) by (auto simp: e)
    then have "b \<le> a" using Cons.prems(3) by auto
    moreover have "takeWhile (\<lambda>(b, _). b \<le> a) m \<noteq> [] \<and> last (takeWhile (\<lambda>(b, _). b \<le> a) m) = (k, v)"
      using Cons.prems True by (intro Cons.IH) (auto simp: e)
    ultimately show ?thesis by (simp add: e)
  next
    case False
    then have kb: "k = b" "v = w" using Cons.prems(2) by (auto simp: e)
    have "takeWhile (\<lambda>(b, _). b \<le> a) m = []"
      using Cons.prems(1,4) by (cases m) (fastforce simp: e kb)+
    then show ?thesis using Cons.prems(3) by (simp add: e kb)
  qed
qed



lemma first_before_unique:
  assumes "bt_wf m" "takeWhile (\<lambda>(b, _). b \<le> a) m \<noteq> []"
  shows "\<exists>k v. last (takeWhile (\<lambda>(b, _). b \<le> a) m) = (k, v) \<and> (k, v) \<in> set m \<and> k \<le> a"
proof -
  obtain k v where kv: "last (takeWhile (\<lambda>(b, _). b \<le> a) m) = (k, v)" by (metis surj_pair)
  then have "(k, v) \<in> set (takeWhile (\<lambda>(b, _). b \<le> a) m)" using assms(2) last_in_set by metis
  then have "(k, v) \<in> set m \<and> k \<le> a" by (auto dest: set_takeWhileD)
  with kv show ?thesis by blast
qed

lemma resolve_owner:
  assumes wf: "bus_wf devices" and own: "owner devices addr b d"
  shows "resolve alive devices addr = (if alive d then Some (b, addr - b, d) else None)"
proof -
  obtain l where e: "(b, l, d) \<in> set devices" and r: "in_range b l addr" using own by (auto simp: owner_def)
  have le: "b \<le> addr" using r by (simp add: in_range_def word_le_nat_alt)
  have later: "addr < b'" if "(b', v') \<in> set devices" "b < b'" for b' v'
  proof -
    obtain l' d' where "v' = (l', d')" by (cases v')
    with wf e that have "unat b + unat l \<le> unat b'" by (fastforce simp: bus_wf_def)
    with r show ?thesis by (simp add: in_range_def word_less_nat_alt)
  qed
  have "takeWhile (\<lambda>(b, _). b \<le> addr) devices \<noteq> []
    \<and> last (takeWhile (\<lambda>(b, _). b \<le> addr) devices) = (b, l, d)"
    using wf e le later by (intro last_takeWhile_le) (auto simp: bus_wf_def)
  moreover have "addr - b < l" using r le by (auto simp: in_range_def word_less_nat_alt unat_sub)
  ultimately show ?thesis by (simp add: resolve_def first_before_def Let_def)
qed

lemma resolve_no_owner:
  assumes wf: "bus_wf devices" and none: "\<not> (\<exists>b d. owner devices addr b d)"
  shows "resolve alive devices addr = None"
proof (cases "takeWhile (\<lambda>(b, _). b \<le> addr) devices = []")
  case True
  then show ?thesis by (simp add: resolve_def first_before_def)
next
  case False
  have "bt_wf devices" using wf by (simp add: bus_wf_def)
  from first_before_unique [OF this False] obtain b l d where
    last: "last (takeWhile (\<lambda>(b, _). b \<le> addr) devices) = (b, l, d)"
    and e: "(b, l, d) \<in> set devices" and le: "b \<le> addr" by (metis surj_pair)
  have "\<not> addr - b < l"
  proof
    assume "addr - b < l"
    then have "in_range b l addr"
      using le by (auto simp: in_range_def word_less_nat_alt word_le_nat_alt unat_sub)
    with e none show False by (auto simp: owner_def)
  qed
  with last False show ?thesis by (simp add: resolve_def first_before_def Let_def)
qed

lemma owner_unique:
  assumes "bus_wf devices" "owner devices addr b d" "owner devices addr b' d'"
  shows "b = b' \<and> d = d'"
proof -
  from resolve_owner [OF assms(1,2), of "\<lambda>_. True"] resolve_owner [OF assms(1,3), of "\<lambda>_. True"]
  show ?thesis by simp
qed

section \<open>Insertion and removal\<close>

lemma overlaps_iff:
  assumes "unat b + unat l < 2 ^ 64" "unat base + unat len < 2 ^ 64"
  shows "bus_range_overlaps (b, l) base len \<longleftrightarrow>
    unat b < unat base + unat len \<and> unat base < unat b + unat l"
  using assms by (simp add: bus_range_overlaps_def word_less_nat_alt unat_add_exact)

definition bus_free_range :: "'d bus \<Rightarrow> u64 \<Rightarrow> u64 \<Rightarrow> bool" where
  "bus_free_range devices base len \<longleftrightarrow>
     (\<forall>(b, l, d) \<in> set devices. unat b + unat l \<le> unat base \<or> unat base + unat len \<le> unat b)"

lemma bus_insert_eq:
  assumes wf: "bus_wf devices" and room: "unat base + unat len < 2 ^ 64"
  shows "bus_insert devices d base len =
    (if len = 0 then (Inl ZeroSizedRange, devices)
     else if bus_free_range devices base len then (Inr (), bt_insert base (len, d) devices)
     else (Inl Overlap, devices))"
proof -
  have "list_ex (\<lambda>(b, l, _). bus_range_overlaps (b, l) base len) devices
      \<longleftrightarrow> \<not> bus_free_range devices base len"
    using wf room overlaps_iff [OF _ room]
    by (fastforce simp: list_ex_iff bus_free_range_def bus_wf_def)
  moreover have "bt_get devices base = None" if "len \<noteq> 0" "bus_free_range devices base len"
  proof -
    have "(base, l, d') \<notin> set devices" for l d'
    proof
      assume e: "(base, l, d') \<in> set devices"
      then have "unat l = 0 \<or> unat len = 0" using that(2) by (fastforce simp: bus_free_range_def)
      moreover have "l \<noteq> 0" using wf e by (auto simp: bus_wf_def)
      ultimately show False using that(1) by (simp add: unat_eq_0)
    qed
    then show ?thesis by (auto simp: bt_get_None_iff)
  qed
  ultimately show ?thesis by (simp add: bus_insert_def)
qed

lemma bus_insert_set:
  assumes "bus_wf devices" "bus_free_range devices base len" "len \<noteq> 0"
  shows "set (bt_insert base (len, d) devices) = insert (base, len, d) (set devices)"
proof -
  have "fst e \<noteq> base" if e: "e \<in> set devices" for e
  proof
    assume "fst e = base"
    then obtain l d' where "e = (base, l, d')" by (cases e) auto
    with assms e have "unat l = 0 \<or> unat len = 0" "l \<noteq> 0"
      by (fastforce simp: bus_free_range_def, auto simp: bus_wf_def)
    with assms(3) show False by (simp add: unat_eq_0)
  qed
  then show ?thesis using assms(1) by (auto simp: bt_insert_set bus_wf_def)
qed

lemma bus_insert_wf:
  assumes wf: "bus_wf devices" and free: "bus_free_range devices base len" and len: "len \<noteq> 0"
    and room: "unat base + unat len < 2 ^ 64"
  shows "bus_wf (bt_insert base (len, d) devices)"
proof -
  note s = bus_insert_set [OF wf free len, of d]
  have before: "unat b + unat l \<le> unat base" if "(b, l, d') \<in> set devices" "b < base" for b l d'
    using free that by (fastforce simp: bus_free_range_def word_less_nat_alt)
  have after: "unat base + unat len \<le> unat b" if "(b, l, d') \<in> set devices" "base < b" for b l d'
    using free that by (fastforce simp: bus_free_range_def word_less_nat_alt)
  have pairs: "unat b + unat l \<le> unat b'"
    if *: "(b, l, e) \<in> insert (base, len, d) (set devices)"
      "(b', l', e') \<in> insert (base, len, d) (set devices)" "b < b'" for b l e b' l' e'
  proof -
    have old: "unat b + unat l \<le> unat b'" if "(b, l, e) \<in> set devices" "(b', l', e') \<in> set devices"
      using wf that \<open>b < b'\<close> by (fastforce simp: bus_wf_def)
    from * old before after show ?thesis by auto
  qed
  have "bt_wf (bt_insert base (len, d) devices)" using wf by (simp add: bus_wf_def)
  moreover have "\<forall>(b, l, d) \<in> insert (base, len, d) (set devices). l \<noteq> 0 \<and> unat b + unat l < 2 ^ 64"
    using wf len room by (auto simp: bus_wf_def)
  moreover have "\<forall>(b, l, d) \<in> insert (base, len, d) (set devices).
      \<forall>(b', l', d') \<in> insert (base, len, d) (set devices). b < b' \<longrightarrow> unat b + unat l \<le> unat b'"
    using pairs by blast
  ultimately show ?thesis unfolding bus_wf_def s by simp
qed

lemma owner_insert:
  assumes "bus_wf devices" "bus_free_range devices base len" "len \<noteq> 0"
  shows "owner (bt_insert base (len, d) devices) addr b d' \<longleftrightarrow>
    (if in_range base len addr then b = base \<and> d' = d else owner devices addr b d')"
proof -
  have "\<not> owner devices addr b d'" if "in_range base len addr" for b d'
    using assms(2) that by (fastforce simp: owner_def in_range_def bus_free_range_def)
  then show ?thesis by (auto simp: owner_def bus_insert_set [OF assms])
qed

lemma bus_remove_wf: "bus_wf devices \<Longrightarrow> bus_wf (bt_remove base devices)"
  by (auto simp: bus_wf_def bt_remove_set)

lemma owner_remove:
  assumes "bus_wf devices"
  shows "owner (bt_remove base devices) addr b d \<longleftrightarrow> b \<noteq> base \<and> owner devices addr b d"
  using assms by (auto simp: owner_def bus_wf_def bt_remove_set)

section \<open>Address decoding as an interface\<close>

text \<open>
  What the users of a bus rely on: each address has at most one owner, registering a range makes
  the device the owner of exactly that range, and withdrawing it restores the previous decoding.
\<close>

locale address_decoder =
  fixes invar :: "'b \<Rightarrow> bool"
    and owns :: "'b \<Rightarrow> u64 \<Rightarrow> u64 \<Rightarrow> 'd \<Rightarrow> bool"
    and vacant :: "'b \<Rightarrow> u64 \<Rightarrow> u64 \<Rightarrow> bool"
    and register :: "'b \<Rightarrow> u64 \<Rightarrow> u64 \<Rightarrow> 'd \<Rightarrow> 'b"
    and withdraw :: "'b \<Rightarrow> u64 \<Rightarrow> 'b"
  assumes owns_unique: "invar b \<Longrightarrow> owns b x p d \<Longrightarrow> owns b x q e \<Longrightarrow> p = q \<and> d = e"
    and register_invar: "invar b \<Longrightarrow> vacant b p n \<Longrightarrow> invar (register b p n d)"
    and register_owns: "invar b \<Longrightarrow> vacant b p n \<Longrightarrow>
      owns (register b p n d) x q e \<longleftrightarrow> (if in_range p n x then q = p \<and> e = d else owns b x q e)"
    and vacant_owns: "invar b \<Longrightarrow> vacant b p n \<Longrightarrow> owns b x q e \<Longrightarrow> q \<noteq> p \<and> \<not> in_range p n x"
    and withdraw_invar: "invar b \<Longrightarrow> invar (withdraw b p)"
    and withdraw_owns: "invar b \<Longrightarrow> owns (withdraw b p) x q e \<longleftrightarrow> q \<noteq> p \<and> owns b x q e"
begin

lemma withdraw_register:
  assumes "invar b" "vacant b p n"
  shows "owns (withdraw (register b p n d) p) = owns b"
  using assms vacant_owns [OF assms]
  by (intro ext) (auto simp: withdraw_owns register_invar register_owns [OF assms])

lemma register_other:
  "invar b \<Longrightarrow> vacant b p n \<Longrightarrow> \<not> in_range p n x \<Longrightarrow> owns (register b p n d) x = owns b x"
  by (intro ext) (simp add: register_owns)

end

definition bus_vacant :: "'d bus \<Rightarrow> u64 \<Rightarrow> u64 \<Rightarrow> bool" where
  "bus_vacant devices base len \<longleftrightarrow>
     len \<noteq> 0 \<and> unat base + unat len < 2 ^ 64 \<and> bus_free_range devices base len"

interpretation device_bus: address_decoder bus_wf owner bus_vacant
  "\<lambda>devices base len d. bt_insert base (len, d) devices" "\<lambda>devices base. bt_remove base devices"
proof unfold_locales
  fix b :: "'d bus" and x p q n d e
  assume wf: "bus_wf b"
  show "owner b x p d \<Longrightarrow> owner b x q e \<Longrightarrow> p = q \<and> d = e" by (rule owner_unique [OF wf])
  show "bus_wf (bt_remove p b)" by (rule bus_remove_wf [OF wf])
  show "owner (bt_remove p b) x q e \<longleftrightarrow> q \<noteq> p \<and> owner b x q e" by (rule owner_remove [OF wf])
  assume v: "bus_vacant b p n"
  then show "bus_wf (bt_insert p (n, d) b)"
    using wf by (auto simp: bus_vacant_def intro: bus_insert_wf)
  show ins: "owner (bt_insert p (n, d) b) x q e \<longleftrightarrow> (if in_range p n x then q = p \<and> e = d else owner b x q e)"
    using wf v by (auto simp: bus_vacant_def owner_insert)
  show "q \<noteq> p \<and> \<not> in_range p n x" if "owner b x q e"
  proof -
    obtain l where l: "(q, l, e) \<in> set b" "in_range q l x" using \<open>owner b x q e\<close> by (auto simp: owner_def)
    then have sep: "unat q + unat l \<le> unat p \<or> unat p + unat n \<le> unat q" and "l \<noteq> 0"
      using v wf by (fastforce simp: bus_vacant_def bus_free_range_def, auto simp: bus_wf_def)
    moreover have "0 < unat l" "0 < unat n" using v \<open>l \<noteq> 0\<close> by (auto simp: bus_vacant_def unat_gt_0)
    ultimately show ?thesis using l(2) by (auto simp: in_range_def)
  qed
qed

section \<open>Properties\<close>

text \<open>
  C16: routing. On a well-formed bus an access at an address is resolved to the unique device
  whose range contains it, with the range's base and the offset into the range, provided the
  device still exists; otherwise no device is found.
\<close>
theorem resolve_correct:
  assumes "bus_wf devices"
  shows "resolve alive devices addr = Some (b, off, d) \<longleftrightarrow>
    owner devices addr b d \<and> alive d \<and> off = addr - b"
proof (cases "\<exists>b d. owner devices addr b d")
  case True
  then obtain b' d' where o: "owner devices addr b' d'" by blast
  show ?thesis
    unfolding resolve_owner [OF assms o] using o by (auto dest: owner_unique [OF assms o])
next
  case False
  then show ?thesis using resolve_no_owner [OF assms False] by auto
qed



text \<open>
  C38: changing a range is not atomic. If the new range meets the range of another device,
  \<open>update_range\<close> reports the overlap but the device has already lost its old range: none of its
  addresses is routed any more.
\<close>
theorem update_range_loses_device:
  assumes wf: "bus_wf devices" and dev: "(old_base, old_len, d) \<in> set devices" and "alive d"
    and other: "(b, l, e) \<in> set devices" "b \<noteq> old_base"
      "unat b < unat new_base + unat new_len" "unat new_base < unat b + unat l"
    and room: "unat new_base + unat new_len < 2 ^ 64" "new_len \<noteq> 0"
  shows "fst (update_range alive devices old_base old_len new_base new_len) = Inl Overlap
    \<and> (in_range old_base old_len addr \<longrightarrow>
        resolve alive (snd (update_range alive devices old_base old_len new_base new_len)) addr = None)"
proof -
  have len: "old_len \<noteq> 0" using wf dev by (auto simp: bus_wf_def)
  have own: "owner devices old_base old_base d"
    using dev len unat_gt_0 [of old_len] by (auto simp: owner_def in_range_def)
  have get: "bt_get devices old_base = Some (old_len, d)"
    using wf dev by (simp add: bt_get_iff bus_wf_def)
  have wf': "bus_wf (bt_remove old_base devices)" by (rule bus_remove_wf [OF wf])
  have "(b, l, e) \<in> set (bt_remove old_base devices)"
    using wf other by (simp add: bus_wf_def bt_remove_set)
  then have "\<not> bus_free_range (bt_remove old_base devices) new_base new_len"
    using other(3,4) by (fastforce simp: bus_free_range_def)
  then have up: "update_range alive devices old_base old_len new_base new_len
      = (Inl Overlap, bt_remove old_base devices)"
    using len get \<open>alive d\<close> room
    by (simp add: update_range_def resolve_owner [OF wf own] bus_remove_def bus_insert_eq [OF wf'])
  have "\<not> owner (bt_remove old_base devices) addr q f" if "in_range old_base old_len addr" for q f
  proof -
    have "owner devices addr old_base d" using that dev by (auto simp: owner_def)
    from owner_unique [OF wf this] show ?thesis by (auto simp: owner_remove [OF wf])
  qed
  with up resolve_no_owner [OF wf'] show ?thesis by auto
qed


section \<open>Witnesses\<close>

lemma bus_example_wf: "bus_wf [(0x100, 0x10, 1 :: nat), (0x200, 0x20, 2)]"
  by (simp add: bus_wf_def)

theorem resolve_correct_witness:
  "resolve (\<lambda>_. True) [(0x100, 0x10, 1 :: nat), (0x200, 0x20, 2)] 0x210 = Some (0x200, 0x10, 2)"
  unfolding resolve_correct [OF bus_example_wf] by (simp add: owner_def in_range_def)



theorem update_range_loses_device_witness:
  "fst (update_range (\<lambda>_. True) [(0x100, 0x10, 1 :: nat), (0x200, 0x20, 2)] 0x100 0x10 0x1F8 0x10)
     = Inl Overlap
   \<and> resolve (\<lambda>_. True)
       (snd (update_range (\<lambda>_. True) [(0x100, 0x10, 1 :: nat), (0x200, 0x20, 2)] 0x100 0x10 0x1F8 0x10))
       0x104 = None"
  using update_range_loses_device [OF bus_example_wf, where old_base = "0x100" and old_len = "0x10"
      and d = 1 and alive = "\<lambda>_. True" and b = "0x200" and l = "0x20" and e = 2
      and new_base = "0x1F8" and new_len = "0x10" and addr = "0x104"]
  by (simp add: in_range_def)

end
