(* ===== verification/RateLimiter.thy ===== *)
theory RateLimiter
  imports Complex_Main Prelude
begin

text \<open>
  The I/O rate limiter of \<^verbatim>\<open>rate_limiter/src/lib.rs\<close> and the limiter groups of
  \<^verbatim>\<open>rate_limiter/src/group.rs\<close>.

  Clock readings (\<open>Instant::now\<close>, \<open>Instant::elapsed\<close>) are arguments, in nanoseconds, in the
  order in which the code takes them.  The \<open>TimerFd\<close> of the \<open>vmm_sys_util\<close> crate is a
  parameter \<open>timer_ops\<close>.  The \<open>f64\<close> values of the over-consumption path are rationals
  rounded to 53 significant bits; all of them lie between \<open>2\<^sup>-\<^sup>6\<^sup>5\<close> and \<open>2\<^sup>1\<^sup>2\<^sup>9\<close>, so neither
  overflow nor subnormal numbers occur.
\<close>

section \<open>Rounded arithmetic\<close>

fun bit_width :: "nat \<Rightarrow> nat" where
  "bit_width n = (if n = 0 then 0 else Suc (bit_width (n div 2)))"

declare bit_width.simps [simp del]

definition round_half_even :: "rat \<Rightarrow> int" where
  "round_half_even x = (let f = \<lfloor>x\<rfloor>; r = x - of_int f in
     if r < 1 / 2 \<or> (r = 1 / 2 \<and> even f) then f else f + 1)"

definition f64_exponent :: "rat \<Rightarrow> int" where
  "f64_exponent x = (let (n, d) = quotient_of x;
     k = int (bit_width (nat n)) - int (bit_width (nat d)) in
     if 2 powi k \<le> x then k else k - 1)"

definition f64_round :: "rat \<Rightarrow> rat" where
  "f64_round x = (if x \<le> 0 then 0
     else let e = f64_exponent x - 52 in of_int (round_half_even (x / 2 powi e)) * 2 powi e)"

definition f64_of_u64 :: "u64 \<Rightarrow> rat" where
  "f64_of_u64 w = f64_round (of_nat (unat w))"

definition f64_div :: "rat \<Rightarrow> rat \<Rightarrow> rat" where
  "f64_div x y = f64_round (x / y)"

definition f64_mul :: "rat \<Rightarrow> rat \<Rightarrow> rat" where
  "f64_mul x y = f64_round (x * y)"

definition f64_to_u64 :: "rat \<Rightarrow> u64" where
  "f64_to_u64 x = (if x \<le> 0 then 0 else if 2 ^ 64 \<le> x then - 1 else word_of_int \<lfloor>x\<rfloor>)"

section \<open>Token buckets\<close>

definition NANOSEC_IN_ONE_MILLISEC :: u64 where
  "NANOSEC_IN_ONE_MILLISEC = 1000000"

definition REFILL_TIMER_INTERVAL_MS :: u64 where
  "REFILL_TIMER_INTERVAL_MS = 100"

function gcd_u64 :: "u64 \<Rightarrow> u64 \<Rightarrow> u64" where
  "gcd_u64 x y = (if y \<noteq> 0 then gcd_u64 y (x mod y) else x)"
  by pat_completeness auto
termination
  by (relation "measure (\<lambda>(x, y). unat y)")
    (auto simp: unat_mod_distrib unat_gt_0)

declare gcd_u64.simps [simp del]

datatype bucket_reduction = Failure | Success | OverConsumption rat

record token_bucket =
  tb_size :: u64
  one_time_burst :: u64
  refill_time :: u64
  budget :: u64
  last_update :: nat
  processed_capacity :: u64
  processed_refill_time :: u64

definition tb_new :: "nat \<Rightarrow> u64 \<Rightarrow> u64 \<Rightarrow> u64 \<Rightarrow> token_bucket option" where
  "tb_new now sz burst complete_refill_time_ms =
    (if sz = 0 \<or> complete_refill_time_ms = 0 then None
     else
       let complete_refill_time_ns = complete_refill_time_ms * NANOSEC_IN_ONE_MILLISEC;
           common_factor = gcd_u64 sz complete_refill_time_ns
       in Some \<lparr> tb_size = sz, one_time_burst = burst, refill_time = complete_refill_time_ms,
            budget = sz, last_update = now,
            processed_capacity = sz div common_factor,
            processed_refill_time = complete_refill_time_ns div common_factor \<rparr>)"

text \<open>The part of \<open>reduce\<close> after the burst credit: refill, cap, take.  Dividing by a zero
  \<open>processed_refill_time\<close> panics.\<close>

definition reduce_budget ::
  "nat \<Rightarrow> nat \<Rightarrow> u64 \<Rightarrow> token_bucket \<Rightarrow> (bucket_reduction \<times> token_bucket) option" where
  "reduce_budget t1 t2 tokens b =
    (let time_delta = word_of_nat (t1 - last_update b) :: u64;
         b = b\<lparr> last_update := t2 \<rparr>
     in if processed_refill_time b = 0 then None
        else
          let bud = budget b + (time_delta * processed_capacity b) div processed_refill_time b;
              bud = (if tb_size b \<le> bud then tb_size b else bud);
              b = b\<lparr> budget := bud \<rparr>
          in if bud < tokens
             then if tb_size b < tokens
                  then Some (OverConsumption
                         (f64_div (f64_of_u64 (tokens - bud)) (f64_of_u64 (tb_size b))),
                         b\<lparr> budget := 0 \<rparr>)
                  else Some (Failure, b)
             else Some (Success, b\<lparr> budget := bud - tokens \<rparr>))"

definition reduce ::
  "nat \<Rightarrow> nat \<Rightarrow> u64 \<Rightarrow> token_bucket \<Rightarrow> (bucket_reduction \<times> token_bucket) option" where
  "reduce t1 t2 tokens b =
    (if 0 < one_time_burst b
     then if tokens \<le> one_time_burst b
          then Some (Success,
                 b\<lparr> one_time_burst := one_time_burst b - tokens, last_update := t1 \<rparr>)
          else reduce_budget t1 t2 (tokens - one_time_burst b) (b\<lparr> one_time_burst := 0 \<rparr>)
     else reduce_budget t1 t2 tokens b)"

definition replenish :: "u64 \<Rightarrow> token_bucket \<Rightarrow> token_bucket" where
  "replenish tokens b =
    (if 0 < one_time_burst b then b\<lparr> one_time_burst := one_time_burst b + tokens \<rparr>
     else b\<lparr> budget := min (budget b + tokens) (tb_size b) \<rparr>)"

section \<open>The limiter\<close>

datatype token_type = Bytes | Ops

datatype bucket_update = NoUpdate | Disabled | Update token_bucket

datatype io_error = Interrupted | WouldBlock | OtherIo

datatype rl_error = SpuriousRateLimiterEvent | TimerFdWaitError io_error

text \<open>The timer of the \<open>vmm_sys_util\<close> crate: \<open>reset\<close> with a duration in milliseconds, whose
  failure is \<open>None\<close>, and \<open>wait\<close>.\<close>

record 't timer_ops =
  tm_reset :: "'t \<Rightarrow> u64 \<Rightarrow> 't option"
  tm_wait :: "'t \<Rightarrow> (io_error + u64) \<times> 't"

record 't rate_limiter =
  bandwidth :: "token_bucket option"
  ops :: "token_bucket option"
  timer_fd :: 't
  timer_active :: bool

definition rl_new ::
  "nat \<Rightarrow> nat \<Rightarrow> 't \<Rightarrow> u64 \<Rightarrow> u64 \<Rightarrow> u64 \<Rightarrow> u64 \<Rightarrow> u64 \<Rightarrow> u64 \<Rightarrow> 't rate_limiter" where
  "rl_new t1 t2 tfd bytes_cap bytes_burst bytes_ms ops_cap ops_burst ops_ms =
    \<lparr> bandwidth = tb_new t1 bytes_cap bytes_burst bytes_ms,
      ops = tb_new t2 ops_cap ops_burst ops_ms,
      timer_fd = tfd, timer_active = False \<rparr>"

definition bucket_of :: "token_type \<Rightarrow> 't rate_limiter \<Rightarrow> token_bucket option" where
  "bucket_of ty l = (case ty of Bytes \<Rightarrow> bandwidth l | Ops \<Rightarrow> ops l)"

definition set_bucket :: "token_type \<Rightarrow> token_bucket \<Rightarrow> 't rate_limiter \<Rightarrow> 't rate_limiter" where
  "set_bucket ty b l =
    (case ty of Bytes \<Rightarrow> l\<lparr> bandwidth := Some b \<rparr> | Ops \<Rightarrow> l\<lparr> ops := Some b \<rparr>)"

definition activate_timer ::
  "'t timer_ops \<Rightarrow> u64 \<Rightarrow> 't rate_limiter \<Rightarrow> 't rate_limiter option" where
  "activate_timer T dur l =
    (case tm_reset T (timer_fd l) dur of
       None \<Rightarrow> None
     | Some tfd \<Rightarrow> Some (l\<lparr> timer_fd := tfd, timer_active := True \<rparr>))"

definition consume ::
  "'t timer_ops \<Rightarrow> nat \<Rightarrow> nat \<Rightarrow> u64 \<Rightarrow> token_type \<Rightarrow> 't rate_limiter
    \<Rightarrow> (bool \<times> 't rate_limiter) option" where
  "consume T t1 t2 tokens ty l =
    (if timer_active l then Some (False, l)
     else case bucket_of ty l of
       None \<Rightarrow> Some (True, l)
     | Some b \<Rightarrow>
         (case reduce t1 t2 tokens b of
            None \<Rightarrow> None
          | Some (r, b') \<Rightarrow>
              (let l' = set_bucket ty b' l in
               case r of
                 Failure \<Rightarrow>
                   if \<not> timer_active l'
                   then map_option (Pair False) (activate_timer T REFILL_TIMER_INTERVAL_MS l')
                   else Some (False, l')
               | Success \<Rightarrow> Some (True, l')
               | OverConsumption ratio \<Rightarrow>
                   map_option (Pair True)
                     (activate_timer T
                       (f64_to_u64 (of_int \<lceil>f64_mul ratio (f64_of_u64 (refill_time b))\<rceil>)) l'))))"

definition manual_replenish :: "u64 \<Rightarrow> token_type \<Rightarrow> 't rate_limiter \<Rightarrow> 't rate_limiter" where
  "manual_replenish tokens ty l =
    (case bucket_of ty l of None \<Rightarrow> l | Some b \<Rightarrow> set_bucket ty (replenish tokens b) l)"

text \<open>The wait loop retries while the call is interrupted; not returning is \<open>None\<close>.\<close>

partial_function (option) wait_loop ::
  "'t timer_ops \<Rightarrow> 't \<Rightarrow> ((rl_error + unit) \<times> 't) option" where
  "wait_loop T t =
    (case tm_wait T t of
       (Inl e, t') \<Rightarrow>
         (case e of
            Interrupted \<Rightarrow> wait_loop T t'
          | WouldBlock \<Rightarrow> Some (Inl SpuriousRateLimiterEvent, t')
          | OtherIo \<Rightarrow> Some (Inl (TimerFdWaitError OtherIo), t'))
     | (Inr _, t') \<Rightarrow> Some (Inr (), t'))"

definition event_handler ::
  "'t timer_ops \<Rightarrow> 't rate_limiter \<Rightarrow> ((rl_error + unit) \<times> 't rate_limiter) option" where
  "event_handler T l =
    (case wait_loop T (timer_fd l) of
       None \<Rightarrow> None
     | Some (Inl e, t) \<Rightarrow> Some (Inl e, l\<lparr> timer_fd := t \<rparr>)
     | Some (Inr _, t) \<Rightarrow> Some (Inr (), l\<lparr> timer_fd := t, timer_active := False \<rparr>))"

definition update_bucket :: "bucket_update \<Rightarrow> token_bucket option \<Rightarrow> token_bucket option" where
  "update_bucket u b = (case u of Disabled \<Rightarrow> None | Update tb \<Rightarrow> Some tb | NoUpdate \<Rightarrow> b)"

definition update_buckets ::
  "bucket_update \<Rightarrow> bucket_update \<Rightarrow> 't rate_limiter \<Rightarrow> 't rate_limiter" where
  "update_buckets bytes op l =
    l\<lparr> bandwidth := update_bucket bytes (bandwidth l), ops := update_bucket op (ops l) \<rparr>"

section \<open>Limiter groups\<close>

text \<open>A group shares one limiter between the handles of its consumers; a handle is known by
  the descriptor of its \<open>EventFd\<close>.\<close>

record 't rl_group =
  grp_limiter :: "'t rate_limiter"
  grp_handles :: "nat list"

definition handle_new :: "nat option \<Rightarrow> 't rl_group \<Rightarrow> (nat \<times> 't rl_group) option" where
  "handle_new eventfd g =
    (case eventfd of None \<Rightarrow> None
     | Some fd \<Rightarrow> Some (fd, g\<lparr> grp_handles := grp_handles g @ [fd] \<rparr>))"

definition handle_drop :: "nat \<Rightarrow> 't rl_group \<Rightarrow> 't rl_group option" where
  "handle_drop fd g =
    (case position (\<lambda>h. h = fd) (grp_handles g) of
       None \<Rightarrow> None
     | Some index \<Rightarrow>
         Some (g\<lparr> grp_handles := take index (grp_handles g) @ drop (Suc index) (grp_handles g) \<rparr>))"

text \<open>The \<open>Unblocked\<close> branch of the worker thread: the event is consumed, then every handle is
  written until a write fails.  The result lists the descriptors written; a failing
  \<open>event_handler\<close> is unwrapped and panics.\<close>

fun write_handles :: "(nat \<Rightarrow> bool) \<Rightarrow> nat list \<Rightarrow> nat list \<times> bool" where
  "write_handles ok [] = ([], True)"
| "write_handles ok (h # hs) =
    (if ok h then (let (ws, r) = write_handles ok hs in (h # ws, r)) else ([], False))"

definition grp_unblocked ::
  "'t timer_ops \<Rightarrow> (nat \<Rightarrow> bool) \<Rightarrow> 't rl_group \<Rightarrow> ((nat list \<times> bool) \<times> 't rl_group) option" where
  "grp_unblocked T ok g =
    (case event_handler T (grp_limiter g) of
       Some (Inr _, l) \<Rightarrow> Some (write_handles ok (grp_handles g), g\<lparr> grp_limiter := l \<rparr>)
     | _ \<Rightarrow> None)"

section \<open>Rounding is positive and accurate\<close>

lemma bit_width_bounds:
  "0 < n \<Longrightarrow> 2 ^ (bit_width n - 1) \<le> n \<and> n < 2 ^ bit_width n \<and> 0 < bit_width n"
proof (induction n rule: bit_width.induct)
  case (1 n)
  have bw: "bit_width n = Suc (bit_width (n div 2))"
    using "1.prems" by (simp add: bit_width.simps [of n])
  show ?case
  proof (cases "n div 2 = 0")
    case True
    then have "n = 1" using "1.prems" by linarith
    then show ?thesis using bw by (simp add: bit_width.simps [of 0])
  next
    case False
    then have IH: "2 ^ (bit_width (n div 2) - 1) \<le> n div 2" "n div 2 < 2 ^ bit_width (n div 2)"
        "0 < bit_width (n div 2)"
      using "1.IH" "1.prems" by simp_all
    from IH(3) have "bit_width n - 1 = Suc (bit_width (n div 2) - 1)" using bw by simp
    then have "2 ^ (bit_width n - 1) \<le> n" using IH(1) by simp
    moreover have "n < 2 ^ bit_width n" using IH(2) bw by simp
    ultimately show ?thesis using bw by simp
  qed
qed

lemma f64_exponent_le:
  assumes "0 < x"
  shows "2 powi f64_exponent x \<le> x"
proof -
  obtain n d where q: "quotient_of x = (n, d)" by (cases "quotient_of x")
  then have x: "x = of_int n / of_int d" and d: "0 < d"
    by (auto dest: quotient_of_div quotient_of_denom_pos)
  have n: "0 < n" using assms x d by (simp add: zero_less_divide_iff)
  define a where "a = bit_width (nat n)"
  define b where "b = bit_width (nat d)"
  have an: "2 ^ (a - 1) \<le> nat n" and a0: "0 < a" and bd: "nat d < 2 ^ b"
    using bit_width_bounds [of "nat n"] bit_width_bounds [of "nat d"] n d
    by (simp_all add: a_def b_def)
  have le_n: "(2 :: rat) ^ (a - 1) \<le> of_int n"
    using an n by (metis of_nat_numeral of_nat_power of_nat_le_iff of_nat_nat less_imp_le)
  have le_d: "(of_int d :: rat) \<le> 2 ^ b"
    using bd d by (metis of_nat_numeral of_nat_power of_nat_less_iff of_nat_nat less_imp_le)
  have "(2 :: rat) powi (int a - int b - 1) = 2 powi (int (a - 1)) / 2 powi int b"
    using a0 by (simp add: power_int_diff flip: power_int_of_nat)
  also have "\<dots> \<le> of_int n / of_int d"
    unfolding power_int_of_nat by (rule frac_le) (use le_n le_d n d in simp_all)
  finally have "2 powi (int a - int b - 1) \<le> x" by (simp only: x)
  then show ?thesis
    unfolding f64_exponent_def by (simp add: q a_def b_def Let_def)
qed

lemma round_half_even_error: "\<bar>of_int (round_half_even x) - x\<bar> \<le> 1 / 2"
proof -
  have "of_int \<lfloor>x\<rfloor> \<le> x" "x < of_int \<lfloor>x\<rfloor> + 1" by linarith+
  then show ?thesis unfolding round_half_even_def Let_def by (auto simp: abs_le_iff)
qed

lemma f64_round_error:
  assumes "0 < x"
  shows "\<bar>f64_round x - x\<bar> \<le> x / 2 ^ 53"
proof -
  define u where "u = (2 :: rat) powi (f64_exponent x - 52)"
  have u0: "0 < u" by (simp add: u_def)
  have ux: "u * 2 ^ 52 \<le> x"
    using f64_exponent_le [OF assms] by (simp add: u_def power_int_diff)
  have "f64_round x - x = (of_int (round_half_even (x / u)) - x / u) * u"
    using assms u0 by (simp add: f64_round_def u_def Let_def field_simps)
  then have "\<bar>f64_round x - x\<bar> = \<bar>of_int (round_half_even (x / u)) - x / u\<bar> * u"
    using u0 by (simp add: abs_mult)
  also have "\<dots> \<le> 1 / 2 * u"
    using round_half_even_error u0 by (intro mult_right_mono) auto
  also have "\<dots> \<le> x / 2 ^ 53" using ux by simp
  finally show ?thesis .
qed

lemma f64_round_pos [simp]: "0 < x \<Longrightarrow> 0 < f64_round x"
proof -
  assume "0 < x"
  moreover from this have "x / 2 ^ 53 < x" by simp
  ultimately show "0 < f64_round x" using f64_round_error [of x] by linarith
qed

lemma f64_round_nonneg [simp]: "0 \<le> f64_round x"
  by (cases "0 < x") (simp_all add: less_imp_le, simp add: f64_round_def)


lemma f64_round_nat:
  assumes "n < 2 ^ 53"
  shows "f64_round (of_nat n) = of_nat n"
proof (cases "n = 0")
  case True
  then show ?thesis by (simp add: f64_round_def)
next
  case False
  define e where "e = f64_exponent (of_nat n) - 52"
  have "(of_nat n :: rat) < of_nat (2 ^ 53)" using assms by (simp only: of_nat_less_iff)
  then have "(2 :: rat) powi f64_exponent (of_nat n) < 2 powi 53"
    using f64_exponent_le [of "of_nat n"] False by simp
  then have "f64_exponent (of_nat n) < 53"
    using power_int_increasing [of 53 "f64_exponent (of_nat n)" "2 :: rat"] by linarith
  then have "e \<le> 0" by (simp add: e_def)
  then obtain k where k: "e = - int k" by (metis nonpos_int_cases)
  have "of_nat n / (2 :: rat) powi e = of_int (int n * 2 ^ k)"
    by (simp add: k power_int_minus divide_inverse)
  moreover have "round_half_even (of_int z) = z" for z by (simp add: round_half_even_def)
  note this [of "int n * 2 ^ k"]
  ultimately have "f64_round (of_nat n) = of_int (int n * 2 ^ k) * 2 powi e"
    using False by (simp add: f64_round_def e_def Let_def)
  then show ?thesis by (simp add: k power_int_minus)
qed

section \<open>The greatest common divisor and the refill fraction\<close>

lemma gcd_u64_correct: "unat (gcd_u64 x y) = gcd (unat x) (unat y)"
proof (induction x y rule: gcd_u64.induct)
  case (1 x y)
  then show ?case
    by (simp add: gcd_u64.simps [of x y] unat_mod_distrib unat_eq_0 gcd_red_nat [of "unat x"])
qed

definition refill_ns :: "token_bucket \<Rightarrow> nat" where
  "refill_ns b = unat (refill_time b) * 1000000"

definition tb_wf :: "token_bucket \<Rightarrow> bool" where
  "tb_wf b \<longleftrightarrow> 0 < tb_size b \<and> budget b \<le> tb_size b \<and> 0 < processed_refill_time b
    \<and> unat (processed_capacity b) * refill_ns b = unat (tb_size b) * unat (processed_refill_time b)"

lemma tb_new_wf:
  assumes "tb_new now sz burst ms = Some b" and "unat ms * 1000000 < 2 ^ 64"
  shows "tb_wf b" and "coprime (unat (processed_capacity b)) (unat (processed_refill_time b))"
proof -
  define ns where "ns = ms * NANOSEC_IN_ONE_MILLISEC"
  define g where "g = gcd (unat sz) (unat ns)"
  have nz: "0 < sz" "0 < ms" using assms(1) by (auto simp: tb_new_def word_neq_0_conv split: if_splits)
  have ns: "unat ns = unat ms * 1000000"
    using assms(2) by (simp add: ns_def NANOSEC_IN_ONE_MILLISEC_def unat_word_ariths)
  have b: "b = \<lparr> tb_size = sz, one_time_burst = burst, refill_time = ms, budget = sz,
      last_update = now, processed_capacity = sz div gcd_u64 sz ns,
      processed_refill_time = ns div gcd_u64 sz ns \<rparr>"
    using assms(1) nz by (auto simp: tb_new_def ns_def Let_def split: if_splits)
  have C: "unat (processed_capacity b) = unat sz div g"
    and R: "unat (processed_refill_time b) = unat ns div g"
    by (simp_all add: b unat_div_distrib gcd_u64_correct g_def)
  have dv: "g dvd unat sz" "g dvd unat ns" by (simp_all add: g_def)
  have ns0: "0 < unat ns" using ns nz by (simp add: unat_gt_0)
  then have "0 < g" by (simp add: g_def)
  then have "0 < unat (processed_refill_time b)"
    using R dv ns0 by (simp add: dvd_imp_le div_greater_zero_iff)
  moreover have "unat sz div g * unat ns = unat sz * (unat ns div g)"
    using dv by (metis div_mult_swap dvd_div_mult)
  ultimately show "tb_wf b"
    using C R nz by (simp add: tb_wf_def refill_ns_def b ns word_less_nat_alt)
  show "coprime (unat (processed_capacity b)) (unat (processed_refill_time b))"
    using ns0 unfolding C R g_def by (intro div_gcd_coprime) simp
qed


section \<open>What one reduction does\<close>

definition elapsed_ns :: "nat \<Rightarrow> token_bucket \<Rightarrow> nat" where
  "elapsed_ns t b = t - last_update b"

definition available_tokens :: "nat \<Rightarrow> token_bucket \<Rightarrow> nat" where
  "available_tokens t b =
    min (unat (tb_size b))
      (unat (budget b) + elapsed_ns t b * unat (tb_size b) div refill_ns b)"

definition refill_fits :: "nat \<Rightarrow> token_bucket \<Rightarrow> bool" where
  "refill_fits t b \<longleftrightarrow> elapsed_ns t b * unat (processed_capacity b) < 2 ^ 64
    \<and> elapsed_ns t b < 2 ^ 64
    \<and> unat (budget b) + elapsed_ns t b * unat (tb_size b) div refill_ns b < 2 ^ 64"

lemma div_cross:
  fixes a b c d e :: nat
  assumes "a * d = c * b" "0 < b" "0 < d"
  shows "e * a div b = e * c div d"
proof -
  have "e * a div b = e * a * d div (b * d)" using assms by simp
  also have "e * a * d = e * c * b" using assms(1) by (metis mult.assoc)
  also have "e * c * b div (b * d) = e * c div d"
    using assms by (simp add: mult.commute [of b d])
  finally show ?thesis .
qed

lemma tb_wf_refill_pos: "tb_wf b \<Longrightarrow> 0 < refill_ns b"
  by (rule ccontr) (auto simp: tb_wf_def word_less_nat_alt)

lemma refill_exact:
  assumes "tb_wf b" and "refill_fits t b"
  shows "unat ((word_of_nat (t - last_update b) * processed_capacity b) div processed_refill_time b)
    = elapsed_ns t b * unat (tb_size b) div refill_ns b"
proof -
  have "unat (word_of_nat (t - last_update b) * processed_capacity b)
      = elapsed_ns t b * unat (processed_capacity b)"
    using assms(2) by (simp add: refill_fits_def elapsed_ns_def unat_word_ariths unat_of_nat)
  then show ?thesis
    using assms tb_wf_refill_pos [OF assms(1)]
    by (simp add: unat_div_distrib tb_wf_def word_less_nat_alt
        div_cross [where a = "unat (processed_capacity b)" and c = "unat (tb_size b)"])
qed

lemma refilled_budget:
  assumes "tb_wf b" and "refill_fits t b"
  shows "unat (let bud = budget b
      + (word_of_nat (t - last_update b) * processed_capacity b) div processed_refill_time b
    in if tb_size b \<le> bud then tb_size b else bud) = available_tokens t b"
proof -
  have "unat (budget b
      + (word_of_nat (t - last_update b) * processed_capacity b) div processed_refill_time b)
    = unat (budget b) + elapsed_ns t b * unat (tb_size b) div refill_ns b"
    using refill_exact [OF assms] assms(2)
    by (simp add: refill_fits_def unat_word_ariths)
  then show ?thesis
    by (simp add: Let_def available_tokens_def word_le_nat_alt min_def)
qed

definition over_ratio :: "nat \<Rightarrow> u64 \<Rightarrow> rat" where
  "over_ratio n sz = f64_div (f64_of_u64 (word_of_nat n)) (f64_of_u64 sz)"

lemma reduce_budget_outcomes:
  assumes "tb_wf b" and "refill_fits t1 b"
  defines "av \<equiv> available_tokens t1 b"
  shows "reduce_budget t1 t2 tokens b =
    Some (if unat tokens \<le> av
          then (Success, b\<lparr> last_update := t2, budget := word_of_nat (av - unat tokens) \<rparr>)
          else if tb_size b < tokens
          then (OverConsumption (over_ratio (unat tokens - av) (tb_size b)),
                b\<lparr> last_update := t2, budget := 0 \<rparr>)
          else (Failure, b\<lparr> last_update := t2, budget := word_of_nat av \<rparr>))"
proof -
  define bud where "bud = (let bud = budget b
      + (word_of_nat (t1 - last_update b) * processed_capacity b) div processed_refill_time b
    in if tb_size b \<le> bud then tb_size b else bud)"
  have av: "av = unat bud" using refilled_budget [OF assms(1,2)] by (simp add: av_def bud_def)
  have sub: "word_of_nat (unat x - unat y) = x - y" if "y \<le> x" for x y :: u64
    using that by (simp add: word_le_nat_alt of_nat_diff)
  have step: "reduce_budget t1 t2 tokens b =
    (let b' = b\<lparr> last_update := t2, budget := bud \<rparr> in
     if bud < tokens
     then if tb_size b < tokens
       then Some (OverConsumption (f64_div (f64_of_u64 (tokens - bud)) (f64_of_u64 (tb_size b))),
              b'\<lparr> budget := 0 \<rparr>)
       else Some (Failure, b')
     else Some (Success, b'\<lparr> budget := bud - tokens \<rparr>))"
    using assms(1) by (auto simp: reduce_budget_def bud_def Let_def tb_wf_def)
  show ?thesis
    by (auto simp: step av Let_def over_ratio_def sub not_less word_le_nat_alt word_less_nat_alt)
qed


text \<open>
  C40: What one \<open>TokenBucket::reduce\<close> does, on every branch, when the intermediate products
  fit 64 bits.  A request within the remaining one-time burst is taken from the burst and the
  bucket is not refilled.  Otherwise the burst is used up, the bucket is refilled by exactly
  \<open>elapsed * size / refill_time\<close> tokens, capped at its size, and the rest of the request is
  granted when it fits the refilled budget; a larger request over-consumes (and empties the
  bucket) exactly when it exceeds the bucket's size, and otherwise fails and leaves the refilled
  budget untouched.
\<close>
theorem reduce_outcomes:
  fixes tokens :: u64
  assumes "tb_wf b" and "refill_fits t1 b"
  defines "av \<equiv> available_tokens t1 b" and "rest \<equiv> tokens - one_time_burst b"
  shows "reduce t1 t2 tokens b =
    Some (if 0 < one_time_burst b \<and> tokens \<le> one_time_burst b
          then (Success, b\<lparr> one_time_burst := one_time_burst b - tokens, last_update := t1 \<rparr>)
          else if unat rest \<le> av
          then (Success, b\<lparr> one_time_burst := 0, last_update := t2,
                            budget := word_of_nat (av - unat rest) \<rparr>)
          else if tb_size b < rest
          then (OverConsumption (over_ratio (unat rest - av) (tb_size b)),
                b\<lparr> one_time_burst := 0, last_update := t2, budget := 0 \<rparr>)
          else (Failure, b\<lparr> one_time_burst := 0, last_update := t2,
                            budget := word_of_nat av \<rparr>))"
proof -
  let ?b = "b\<lparr> one_time_burst := 0 \<rparr>"
  have b': "tb_wf ?b" "refill_fits t1 ?b" "available_tokens t1 ?b = av"
    using assms by (simp_all add: tb_wf_def refill_fits_def available_tokens_def elapsed_ns_def
        refill_ns_def)
  note rb = reduce_budget_outcomes [OF b'(1,2), of t2 rest, unfolded b'(3)]
  show ?thesis
  proof (cases "one_time_burst b = 0")
    case True
    then have "?b = b" by simp
    with rb True show ?thesis by (simp add: reduce_def rest_def)
  next
    case False
    then have "reduce t1 t2 tokens b = (if tokens \<le> one_time_burst b
        then Some (Success, b\<lparr> one_time_burst := one_time_burst b - tokens, last_update := t1 \<rparr>)
        else reduce_budget t1 t2 rest ?b)"
      by (simp add: reduce_def rest_def word_gt_0)
    with rb False show ?thesis by (simp add: word_gt_0)
  qed
qed

definition sample_bucket :: token_bucket where
  "sample_bucket = \<lparr> tb_size = 1000, one_time_burst = 0, refill_time = 1000, budget = 100,
     last_update = 0, processed_capacity = 1, processed_refill_time = 1000000 \<rparr>"

theorem reduce_outcomes_witness:
  "tb_wf sample_bucket \<and> refill_fits 500000000 sample_bucket \<and>
   reduce 500000000 500000001 700 sample_bucket =
     Some (Failure, sample_bucket\<lparr> last_update := 500000001, budget := 600 \<rparr>)"
proof -
  have wf: "tb_wf sample_bucket"
    by (simp add: sample_bucket_def tb_wf_def refill_ns_def word_less_nat_alt word_le_nat_alt)
  have fits: "refill_fits 500000000 sample_bucket"
    by (simp add: sample_bucket_def refill_fits_def refill_ns_def elapsed_ns_def)
  have av: "available_tokens 500000000 sample_bucket = 600"
    by (simp add: sample_bucket_def available_tokens_def refill_ns_def elapsed_ns_def)
  show ?thesis
    using reduce_outcomes [OF wf fits, of 500000001 700, unfolded av] wf fits
    by (simp add: sample_bucket_def word_less_nat_alt word_le_nat_alt)
qed

section \<open>The rate bound\<close>

lemma unat_add_le: "unat (x + y) \<le> unat x + unat y" for x y :: "'a::len word"
  by (simp add: unat_word_ariths)

lemma unat_refill_le:
  assumes "0 < processed_refill_time b"
  shows "unat ((word_of_nat n * processed_capacity b) div processed_refill_time b)
      * unat (processed_refill_time b) \<le> n * unat (processed_capacity b)"
proof -
  have "unat (word_of_nat n * processed_capacity b) \<le> n * unat (processed_capacity b)"
    by (simp add: unat_word_ariths unat_of_nat)
      (metis mod_less_eq_dividend mod_mult_left_eq)
  moreover have "unat ((word_of_nat n * processed_capacity b) div processed_refill_time b)
      * unat (processed_refill_time b) \<le> unat (word_of_nat n * processed_capacity b)"
    by (simp add: unat_div_distrib)
  ultimately show ?thesis by (rule order_trans [rotated])
qed


definition granted :: "bucket_reduction \<Rightarrow> u64 \<Rightarrow> nat" where
  "granted r tokens = (if r = Success then unat tokens else 0)"

lemma reduce_budget_Some:
  assumes "reduce_budget t1 t2 n b = Some (r, b')" and "last_update b \<le> t1" "t1 \<le> t2"
  shows "0 < processed_refill_time b"
    and "\<exists>bud. b' = b\<lparr> last_update := t2, budget := bud \<rparr>
      \<and> (granted r n + unat bud) * unat (processed_refill_time b)
        \<le> unat (budget b) * unat (processed_refill_time b)
          + (t2 - last_update b) * unat (processed_capacity b)"
proof -
  show R: "0 < processed_refill_time b"
    using assms(1) by (auto simp: reduce_budget_def Let_def word_gt_0 split: if_splits)
  define x where "x = budget b
      + (word_of_nat (t1 - last_update b) * processed_capacity b) div processed_refill_time b"
  define y where "y = (if tb_size b \<le> x then tb_size b else x)"
  have "unat y * unat (processed_refill_time b) \<le> unat x * unat (processed_refill_time b)"
    by (simp add: y_def word_le_nat_alt)
  also have "\<dots> \<le> (unat (budget b) + unat ((word_of_nat (t1 - last_update b)
        * processed_capacity b) div processed_refill_time b)) * unat (processed_refill_time b)"
    unfolding x_def by (rule mult_right_mono [OF unat_add_le]) simp
  also have "\<dots> \<le> unat (budget b) * unat (processed_refill_time b)
      + (t1 - last_update b) * unat (processed_capacity b)"
    using unat_refill_le [OF R, of "t1 - last_update b"] by (simp add: add_mult_distrib)
  also have "\<dots> \<le> unat (budget b) * unat (processed_refill_time b)
      + (t2 - last_update b) * unat (processed_capacity b)"
    using assms(3) by (simp add: diff_le_mono)
  finally have y: "unat y * unat (processed_refill_time b) \<le> \<dots>" .
  have res: "(r, b') = (if y < n then if tb_size b < n
        then (OverConsumption (f64_div (f64_of_u64 (n - y)) (f64_of_u64 (tb_size b))),
              b\<lparr> last_update := t2, budget := 0 \<rparr>)
        else (Failure, b\<lparr> last_update := t2, budget := y \<rparr>)
      else (Success, b\<lparr> last_update := t2, budget := y - n \<rparr>))"
    using assms(1) R by (auto simp: reduce_budget_def Let_def x_def y_def split: if_splits)
  have "unat n + unat (y - n) = unat y" if "\<not> y < n"
    using that by (simp add: unat_sub word_le_nat_alt not_less)
  then show "\<exists>bud. b' = b\<lparr> last_update := t2, budget := bud \<rparr>
      \<and> (granted r n + unat bud) * unat (processed_refill_time b)
        \<le> unat (budget b) * unat (processed_refill_time b)
          + (t2 - last_update b) * unat (processed_capacity b)"
    using res y by (auto simp: granted_def split: if_splits)
qed

lemma reduce_account:
  assumes "reduce t1 t2 n b = Some (r, b')" and "last_update b \<le> t1" "t1 \<le> t2"
  shows "(granted r n + unat (one_time_burst b') + unat (budget b')) * unat (processed_refill_time b)
      \<le> (unat (one_time_burst b) + unat (budget b)) * unat (processed_refill_time b)
        + (last_update b' - last_update b) * unat (processed_capacity b)
    \<and> last_update b \<le> last_update b' \<and> last_update b' \<le> t2
      \<and> processed_refill_time b' = processed_refill_time b
      \<and> processed_capacity b' = processed_capacity b"
proof (cases "0 < one_time_burst b \<and> n \<le> one_time_burst b")
  case True
  then have "r = Success"
      "b' = b\<lparr> one_time_burst := one_time_burst b - n, last_update := t1 \<rparr>"
    using assms(1) by (simp_all add: reduce_def)
  then show ?thesis
    using assms(2,3) True by (simp add: granted_def unat_sub word_le_nat_alt)
next
  case False
  define m where "m = n - one_time_burst b"
  define c where "c = b\<lparr> one_time_burst := 0 \<rparr>"
  have cb: "c = b" if "one_time_burst b = 0" using that by (simp add: c_def)
  have red: "reduce_budget t1 t2 m c = Some (r, b')"
  proof (cases "one_time_burst b = 0")
    case True
    then show ?thesis using assms(1) by (simp add: reduce_def m_def cb)
  next
    case burst: False
    then show ?thesis using assms(1) False by (simp add: reduce_def m_def c_def word_gt_0)
  qed
  have n: "granted r n = granted r m + (if r = Success then unat (one_time_burst b) else 0)"
    using False by (cases "one_time_burst b = 0")
      (auto simp: granted_def m_def unat_sub word_gt_0 word_le_nat_alt not_le)
  obtain bud where "b' = c\<lparr> last_update := t2, budget := bud \<rparr>"
      "(granted r m + unat bud) * unat (processed_refill_time c)
        \<le> unat (budget c) * unat (processed_refill_time c)
          + (t2 - last_update c) * unat (processed_capacity c)"
    using reduce_budget_Some(2) [OF red] assms(2,3) by (auto simp: c_def)
  then show ?thesis
    using assms(2,3) n by (auto simp: c_def add_mult_distrib)
qed


fun reduce_run :: "(nat \<times> nat \<times> u64) list \<Rightarrow> token_bucket \<Rightarrow> (nat \<times> token_bucket) option" where
  "reduce_run [] b = Some (0, b)"
| "reduce_run ((t1, t2, n) # rs) b =
    (case reduce t1 t2 n b of
       None \<Rightarrow> None
     | Some (r, b') \<Rightarrow> map_option (\<lambda>(g, b''). (granted r n + g, b'')) (reduce_run rs b'))"

fun clock_ok :: "nat \<Rightarrow> (nat \<times> nat \<times> u64) list \<Rightarrow> bool" where
  "clock_ok t [] \<longleftrightarrow> True"
| "clock_ok t ((t1, t2, n) # rs) \<longleftrightarrow> t \<le> t1 \<and> t1 \<le> t2 \<and> clock_ok t2 rs"

lemma clock_ok_mono: "clock_ok t rs \<Longrightarrow> s \<le> t \<Longrightarrow> clock_ok s rs"
  by (cases rs) auto

lemma reduce_run_account:
  "reduce_run rs b = Some (g, b') \<Longrightarrow> clock_ok (last_update b) rs \<Longrightarrow>
   g * unat (processed_refill_time b)
     + (unat (one_time_burst b') + unat (budget b')) * unat (processed_refill_time b)
      \<le> (unat (one_time_burst b) + unat (budget b)) * unat (processed_refill_time b)
        + (last_update b' - last_update b) * unat (processed_capacity b)
    \<and> last_update b \<le> last_update b'"
proof (induction rs arbitrary: b g)
  case Nil
  then show ?case by simp
next
  case (Cons x rs)
  obtain t1 t2 n where x: "x = (t1, t2, n)" by (cases x) auto
  from Cons.prems(1) obtain r c h where c: "reduce t1 t2 n b = Some (r, c)"
      and h: "reduce_run rs c = Some (h, b')" "g = granted r n + h"
    by (auto simp: x split: option.splits)
  have ck: "last_update b \<le> t1" "t1 \<le> t2" "clock_ok t2 rs" using Cons.prems(2) by (auto simp: x)
  note acc = reduce_account [OF c ck(1,2)]
  have "clock_ok (last_update c) rs" using ck(3) acc clock_ok_mono by blast
  from Cons.IH [OF h(1) this]
  have IH: "h * unat (processed_refill_time b)
      + (unat (one_time_burst b') + unat (budget b')) * unat (processed_refill_time b)
      \<le> (unat (one_time_burst c) + unat (budget c)) * unat (processed_refill_time b)
        + (last_update b' - last_update c) * unat (processed_capacity b)
      \<and> last_update c \<le> last_update b'"
    using acc by simp
  have "last_update b' - last_update b
      = (last_update b' - last_update c) + (last_update c - last_update b)"
    using IH acc by simp
  then have "(last_update b' - last_update b) * unat (processed_capacity b)
      = (last_update b' - last_update c) * unat (processed_capacity b)
        + (last_update c - last_update b) * unat (processed_capacity b)"
    by (simp add: add_mult_distrib)
  then show ?case using IH acc by (simp add: h(2) add_mult_distrib)
qed





section \<open>A blocked limiter wakes up\<close>

text \<open>What the limiter relies on of a one-shot timer: \<open>armed\<close> timers will fire; setting a
  non-zero duration arms the timer (a zero duration disarms a \<open>timerfd\<close>), and a \<open>wait\<close> that
  does not report an expiration leaves it armed.\<close>

definition timer_contract :: "'t timer_ops \<Rightarrow> ('t \<Rightarrow> bool) \<Rightarrow> bool" where
  "timer_contract T armed \<longleftrightarrow>
     (\<forall>t d t'. tm_reset T t d = Some t' \<longrightarrow> d \<noteq> 0 \<longrightarrow> armed t')
   \<and> (\<forall>t e t'. tm_wait T t = (Inl e, t') \<longrightarrow> armed t \<longrightarrow> armed t')"

inductive rl_step :: "'t timer_ops \<Rightarrow> 't rate_limiter \<Rightarrow> 't rate_limiter \<Rightarrow> bool" for T where
  step_consume: "consume T t1 t2 n ty l = Some (r, l') \<Longrightarrow> rl_step T l l'"
| step_replenish: "rl_step T l (manual_replenish n ty l)"
| step_event: "event_handler T l = Some (r, l') \<Longrightarrow> rl_step T l l'"
| step_update: "\<lbrakk> \<And>b. bytes = Update b \<Longrightarrow> \<exists>t s o1 ms. tb_new t s o1 ms = Some b;
     \<And>b. op = Update b \<Longrightarrow> \<exists>t s o1 ms. tb_new t s o1 ms = Some b \<rbrakk>
     \<Longrightarrow> rl_step T l (update_buckets bytes op l)"

definition bucket_pos :: "token_bucket \<Rightarrow> bool" where
  "bucket_pos b \<longleftrightarrow> 0 < tb_size b \<and> 0 < refill_time b"

definition rl_inv :: "('t \<Rightarrow> bool) \<Rightarrow> 't rate_limiter \<Rightarrow> bool" where
  "rl_inv armed l \<longleftrightarrow> (timer_active l \<longrightarrow> armed (timer_fd l))
    \<and> pred_option bucket_pos (bandwidth l) \<and> pred_option bucket_pos (ops l)"

lemma tb_new_pos: "tb_new t sz burst ms = Some b \<Longrightarrow> bucket_pos b"
  by (auto simp: tb_new_def bucket_pos_def Let_def word_gt_0 split: if_splits)

lemma replenish_pos [simp]: "bucket_pos (replenish n b) = bucket_pos b"
  by (simp add: replenish_def bucket_pos_def)

lemma f64_of_u64_pos [simp]: "0 < w \<Longrightarrow> 0 < f64_of_u64 w"
  unfolding f64_of_u64_def
  by (rule f64_round_pos) (simp only: of_nat_0_less_iff unat_gt_0 word_gt_0)

lemma reduce_pos:
  assumes "reduce t1 t2 n b = Some (r, b')" and "bucket_pos b"
  shows "bucket_pos b'" and "\<And>q. r = OverConsumption q \<Longrightarrow> 0 < q"
proof -
  have *: "bucket_pos b' \<and> (\<forall>q. r = OverConsumption q \<longrightarrow> 0 < q)"
    if "reduce_budget t1 t2 m c = Some (r, b')" "bucket_pos c" for m c
    using that
    by (auto simp: reduce_budget_def Let_def bucket_pos_def f64_div_def word_gt_0
        split: if_splits intro!: f64_round_pos divide_pos_pos)
  have "bucket_pos (b\<lparr> one_time_burst := 0 \<rparr>)" using assms(2) by (simp add: bucket_pos_def)
  with * assms show "bucket_pos b'" "\<And>q. r = OverConsumption q \<Longrightarrow> 0 < q"
    by (auto simp: reduce_def bucket_pos_def split: if_splits)
qed

lemma f64_to_u64_ceiling_nonzero:
  assumes "0 < x"
  shows "f64_to_u64 (of_int \<lceil>x\<rceil>) \<noteq> 0"
proof (cases "2 ^ 64 \<le> (of_int \<lceil>x\<rceil> :: rat)")
  case True
  then show ?thesis by (simp add: f64_to_u64_def)
next
  case False
  have pos: "0 < \<lceil>x\<rceil>" using assms by simp
  have "\<lceil>x\<rceil> < 2 ^ 64" using False by (simp add: not_le)
  then have "uint (word_of_int \<lceil>x\<rceil> :: u64) = \<lceil>x\<rceil>"
    using pos by (simp add: uint_word_of_int)
  then have "(word_of_int \<lceil>x\<rceil> :: u64) \<noteq> 0" using pos by (metis less_irrefl uint_0_eq)
  then show ?thesis using pos False by (simp add: f64_to_u64_def)
qed

lemma activate_timer_inv:
  assumes "timer_contract T armed" "activate_timer T d l = Some l'" "d \<noteq> 0"
    "pred_option bucket_pos (bandwidth l)" "pred_option bucket_pos (ops l)"
  shows "rl_inv armed l'"
  using assms by (auto simp: activate_timer_def rl_inv_def timer_contract_def split: option.splits)

lemma set_bucket_inv:
  "rl_inv armed l \<Longrightarrow> bucket_pos b \<Longrightarrow> rl_inv armed (set_bucket ty b l)"
  by (cases ty) (auto simp: set_bucket_def rl_inv_def)

lemma bucket_of_pos: "rl_inv armed l \<Longrightarrow> bucket_of ty l = Some b \<Longrightarrow> bucket_pos b"
  by (cases ty) (auto simp: bucket_of_def rl_inv_def)

lemma consume_inv:
  assumes c: "timer_contract T armed" and inv: "rl_inv armed l"
    and con: "consume T t1 t2 n ty l = Some (r, l')"
  shows "rl_inv armed l'"
proof (cases "timer_active l \<or> bucket_of ty l = None")
  case True
  then show ?thesis using con inv by (auto simp: consume_def split: if_splits option.splits)
next
  case False
  then obtain b where b: "bucket_of ty l = Some b" "\<not> timer_active l" by auto
  obtain q b' where red: "reduce t1 t2 n b = Some (q, b')"
    using con b by (auto simp: consume_def split: option.splits)
  have pos: "bucket_pos b" by (rule bucket_of_pos [OF inv b(1)])
  define l1 where "l1 = set_bucket ty b' l"
  have l1: "rl_inv armed l1" "\<not> timer_active l1"
    using set_bucket_inv [OF inv reduce_pos(1) [OF red pos]] b(2) unfolding l1_def
    by (blast, cases ty) (simp_all add: set_bucket_def)
  note act = activate_timer_inv [OF c, of _ l1 l']
  show ?thesis
  proof (cases q)
    case Failure
    then have "activate_timer T REFILL_TIMER_INTERVAL_MS l1 = Some l'"
      using con b red l1(2) by (auto simp: consume_def l1_def Let_def)
    then show ?thesis
      using act l1(1) by (simp add: rl_inv_def REFILL_TIMER_INTERVAL_MS_def)
  next
    case Success
    then show ?thesis using con b red l1 by (simp add: consume_def l1_def Let_def)
  next
    case (OverConsumption x)
    let ?d = "f64_to_u64 (of_int \<lceil>f64_mul x (f64_of_u64 (refill_time b))\<rceil>)"
    have "0 < x * f64_of_u64 (refill_time b)"
      using reduce_pos(2) [OF red pos OverConsumption] pos by (simp add: bucket_pos_def)
    then have "?d \<noteq> 0" by (intro f64_to_u64_ceiling_nonzero) (simp add: f64_mul_def)
    moreover have "activate_timer T ?d l1 = Some l'"
      using con b red OverConsumption by (auto simp: consume_def l1_def Let_def)
    ultimately show ?thesis using act l1(1) by (simp add: rl_inv_def)
  qed
qed



lemma wait_loop_armed:
  assumes "timer_contract T armed" "wait_loop T t = Some y" "armed t" "fst y \<noteq> Inr ()"
  shows "armed (snd y)"
proof -
  have "timer_contract T armed \<longrightarrow> armed t \<longrightarrow> fst y \<noteq> Inr () \<longrightarrow> armed (snd y)"
    by (rule wait_loop.raw_induct [OF _ assms(2)])
      (auto simp: timer_contract_def split: prod.splits sum.splits io_error.splits)
  then show ?thesis using assms by blast
qed

text \<open>The wait loop returns as soon as a wait is not interrupted.\<close>

fun interrupted_then :: "'t timer_ops \<Rightarrow> nat \<Rightarrow> 't \<Rightarrow> bool" where
  "interrupted_then T 0 t \<longleftrightarrow> fst (tm_wait T t) \<noteq> Inl Interrupted"
| "interrupted_then T (Suc k) t \<longleftrightarrow>
    fst (tm_wait T t) = Inl Interrupted \<and> interrupted_then T k (snd (tm_wait T t))"

lemma wait_loop_returns: "interrupted_then T k t \<Longrightarrow> \<exists>y. wait_loop T t = Some y"
proof (induction k arbitrary: t)
  case 0
  then show ?case
    by (subst wait_loop.simps) (auto split: prod.splits sum.splits io_error.splits)
next
  case (Suc k)
  then show ?case by (subst wait_loop.simps) (auto split: prod.splits)
qed

lemma rl_step_inv:
  assumes "timer_contract T armed" "rl_step T l l'" "rl_inv armed l"
  shows "rl_inv armed l'"
  using assms(2)
proof cases
  case (step_consume t1 t2 n ty r)
  then show ?thesis using consume_inv assms by blast
next
  case (step_replenish n ty)
  then show ?thesis
    using assms(3) bucket_of_pos [OF assms(3)]
    by (auto simp: manual_replenish_def split: option.splits intro!: set_bucket_inv)
next
  case (step_event r)
  then show ?thesis
    using assms(3) wait_loop_armed [OF assms(1), of "timer_fd l"]
    by (fastforce simp: event_handler_def rl_inv_def split: option.splits sum.splits)
next
  case (step_update bytes op)
  then show ?thesis
    using assms(3) tb_new_pos
    by (auto simp: update_buckets_def update_bucket_def rl_inv_def split: bucket_update.splits)
qed

text \<open>
  C10: A blocked limiter is always woken up.  In every state reachable from
  \<open>RateLimiter::new\<close> by \<open>consume\<close>, \<open>manual_replenish\<close>, \<open>event_handler\<close> and \<open>update_buckets\<close>, a
  blocked limiter has its one-shot timer armed: the delay computed in floating point for an
  over-consumption is never rounded to the zero duration, which would disarm the timer.  The
  limiter accepts no token while blocked, and a handled timer event unblocks it.
\<close>
theorem blocked_timer_armed:
  assumes "timer_contract T armed"
    and "(rl_step T)\<^sup>*\<^sup>* (rl_new t1 t2 tfd bc bb bm oc ob om) l" and "timer_active l"
  shows "armed (timer_fd l) \<and> consume T s1 s2 n ty l = Some (False, l)
    \<and> (tm_wait T (timer_fd l) = (Inr k, t')
       \<longrightarrow> event_handler T l = Some (Inr (), l\<lparr> timer_fd := t', timer_active := False \<rparr>))"
proof -
  have "rl_inv armed l"
    using assms(2)
  proof (induction rule: rtranclp_induct)
    case base
    show ?case by (auto simp: rl_inv_def rl_new_def option.pred_set dest: tb_new_pos)
  next
    case (step l l')
    then show ?case using rl_step_inv [OF assms(1)] by blast
  qed
  then show ?thesis
    using assms(3) by (simp add: rl_inv_def consume_def event_handler_def wait_loop.simps)
qed

text \<open>A timer whose state is its remaining duration, and a limiter of ten bytes per second
  from which thirty bytes are requested.\<close>

definition count_timer :: "u64 timer_ops" where
  "count_timer = \<lparr> tm_reset = (\<lambda>t d. Some d),
     tm_wait = (\<lambda>t. if t = 0 then (Inl WouldBlock, 0) else (Inr 1, 0)) \<rparr>"

theorem blocked_timer_armed_witness:
  "\<exists>l. (rl_step count_timer)\<^sup>*\<^sup>* (rl_new 0 0 0 10 0 1000 0 0 0) l \<and> timer_active l
    \<and> timer_fd l = 2000 \<and> timer_fd l \<noteq> 0 \<and> consume count_timer 0 0 1 Bytes l = Some (False, l)"
proof -
  let ?l0 = "rl_new 0 0 0 10 0 1000 0 0 0 :: u64 rate_limiter"
  define l where "l = ?l0\<lparr> bandwidth := Some \<lparr> tb_size = 10, one_time_burst = 0,
    refill_time = 1000, budget = 0, last_update = 0, processed_capacity = 1,
    processed_refill_time = 100000000 \<rparr>, timer_fd := 2000, timer_active := True \<rparr>"
  have con: "consume count_timer 0 0 30 Bytes ?l0 = Some (True, l)"
    using f64_round_nat [of 20] f64_round_nat [of 10] f64_round_nat [of 2]
      f64_round_nat [of 1000] f64_round_nat [of 2000]
    by (simp add: l_def consume_def rl_new_def tb_new_def NANOSEC_IN_ONE_MILLISEC_def
        gcd_u64.simps bucket_of_def set_bucket_def reduce_def reduce_budget_def
        word_less_nat_alt word_le_nat_alt f64_of_u64_def f64_div_def f64_mul_def f64_to_u64_def
        activate_timer_def count_timer_def Let_def)
  have "(rl_step count_timer)\<^sup>*\<^sup>* ?l0 l" by (rule r_into_rtranclp, rule step_consume, rule con)
  moreover have act: "timer_active l" "timer_fd l = 2000" by (simp_all add: l_def)
  moreover have "timer_contract count_timer (\<lambda>t. t \<noteq> 0)"
    by (auto simp: timer_contract_def count_timer_def split: if_splits)
  note blocked_timer_armed [OF this calculation(1) act(1), of 0 0 1 Bytes]
  ultimately show ?thesis by blast
qed

lemma handle_drop_new:
  assumes "fd \<notin> set (grp_handles g)"
  shows "\<exists>g'. handle_new (Some fd) g = Some (fd, g') \<and> handle_drop fd g' = Some g"
proof -
  have "position (\<lambda>h. h = fd) (grp_handles g @ [fd]) = Some (length (grp_handles g))"
    using assms by (auto simp: position_Some_iff nth_append)
  then show ?thesis by (simp add: handle_new_def handle_drop_def)
qed

lemma write_handles_all: "list_all ok hs \<Longrightarrow> write_handles ok hs = (hs, True)"
  by (induction hs) auto


section \<open>Limits of the 64-bit arithmetic\<close>

text \<open>The refill product of an idle bucket wraps: a bucket of 1000000007 tokens per second that
  was emptied and left alone for about 18.4 seconds holds no token at all, although reducing the
  fraction is meant to avoid the overflow.\<close>

lemma idle_refill_wraps:
  "\<exists>b. tb_new 0 1000000007 0 1000 = Some b
    \<and> reduce 0 0 1000000007 b = Some (Success, b\<lparr> budget := 0 \<rparr>)
    \<and> reduce 18446743945 18446743945 1 (b\<lparr> budget := 0 \<rparr>)
      = Some (Failure, b\<lparr> last_update := 18446743945, budget := 0 \<rparr>)"
  by (simp add: tb_new_def NANOSEC_IN_ONE_MILLISEC_def gcd_u64.simps reduce_def reduce_budget_def
      word_less_nat_alt word_le_nat_alt Let_def)

text \<open>A refill time whose nanoseconds are a multiple of \<open>2\<^sup>6\<^sup>4\<close> passes the zero check of
  \<open>new\<close> and makes the first \<open>reduce\<close> divide by zero.\<close>

lemma huge_refill_time_panics:
  "\<exists>b. tb_new 0 1000 0 (2 ^ 58) = Some b \<and> reduce t1 t2 n b = None"
  by (simp add: tb_new_def NANOSEC_IN_ONE_MILLISEC_def gcd_u64.simps reduce_def reduce_budget_def
      Let_def)

end
