(* ===== verification/PciConfig.thy ===== *)
theory PciConfig
  imports Msix
begin

text \<open>
  \<^verbatim>\<open>pci/src/configuration.rs\<close>: the configuration space of a PCI function.  The 1024 registers and
  their writable bits are lists of 32-bit words, a BAR is a record, and each operation of
  \<open>PciConfiguration\<close> returns the updated configuration.  \<open>None\<close> is a panic (an index out of range or
  a failed \<open>unwrap\<close>).  The MSI-X state that the configuration shares with its device is a field of
  the record, and a write to the MSI-X capability goes to the interrupt source group of the device.
  Register indices and byte offsets are natural numbers; where the code adds them at 64 bits the
  reduction is written out.
\<close>

section \<open>Model\<close>

subsection \<open>Constants\<close>

definition NUM_CONFIGURATION_REGISTERS :: nat where
  "NUM_CONFIGURATION_REGISTERS = 1024"

definition COMMAND_REG :: nat where "COMMAND_REG = 1"
definition COMMAND_REG_MEMORY_SPACE_MASK :: u32 where "COMMAND_REG_MEMORY_SPACE_MASK = 0x00000002"
definition STATUS_REG :: nat where "STATUS_REG = 1"
definition STATUS_REG_CAPABILITIES_USED_MASK :: u32 where
  "STATUS_REG_CAPABILITIES_USED_MASK = 0x00100000"
definition BAR0_REG :: nat where "BAR0_REG = 4"
definition ROM_BAR_REG :: nat where "ROM_BAR_REG = 12"
definition ROM_BAR_IDX :: nat where "ROM_BAR_IDX = 6"
definition BAR_SIZE_PROBE_ALL_ONES :: u32 where "BAR_SIZE_PROBE_ALL_ONES = 0xffffffff"
definition BAR_IO_ADDR_MASK :: u32 where "BAR_IO_ADDR_MASK = 0xfffffffc"
definition BAR_MEM_ADDR_MASK :: u32 where "BAR_MEM_ADDR_MASK = 0xfffffff0"
definition ROM_BAR_ADDR_MASK :: u32 where "ROM_BAR_ADDR_MASK = 0xfffff800"
definition MSI_CAPABILITY_REGISTER_MASK :: u32 where "MSI_CAPABILITY_REGISTER_MASK = 0x00710000"
definition MSIX_CAPABILITY_REGISTER_MASK :: u32 where "MSIX_CAPABILITY_REGISTER_MASK = 0xc0000000"
definition NUM_BAR_REGS :: nat where "NUM_BAR_REGS = 6"
definition CAPABILITY_LIST_HEAD_OFFSET :: nat where "CAPABILITY_LIST_HEAD_OFFSET = 0x34"
definition FIRST_CAPABILITY_OFFSET :: nat where "FIRST_CAPABILITY_OFFSET = 0x40"
definition CAPABILITY_MAX_OFFSET :: nat where "CAPABILITY_MAX_OFFSET = 192"

lemmas pci_consts =
  NUM_CONFIGURATION_REGISTERS_def COMMAND_REG_def STATUS_REG_def BAR0_REG_def ROM_BAR_REG_def
  ROM_BAR_IDX_def NUM_BAR_REGS_def CAPABILITY_LIST_HEAD_OFFSET_def FIRST_CAPABILITY_OFFSET_def
  CAPABILITY_MAX_OFFSET_def

lemmas pci_masks =
  COMMAND_REG_MEMORY_SPACE_MASK_def STATUS_REG_CAPABILITIES_USED_MASK_def
  BAR_SIZE_PROBE_ALL_ONES_def BAR_IO_ADDR_MASK_def BAR_MEM_ADDR_MASK_def ROM_BAR_ADDR_MASK_def
  MSI_CAPABILITY_REGISTER_MASK_def MSIX_CAPABILITY_REGISTER_MASK_def

subsection \<open>Data\<close>

datatype pci_bar_region_type = Memory32BitRegion | IoRegion | Memory64BitRegion

primrec region_type_value :: "pci_bar_region_type \<Rightarrow> u32" where
  "region_type_value Memory32BitRegion = 0"
| "region_type_value IoRegion = 0x01"
| "region_type_value Memory64BitRegion = 0x04"

datatype pci_bar_prefetchable = NotPrefetchable | Prefetchable

primrec prefetchable_value :: "pci_bar_prefetchable \<Rightarrow> u32" where
  "prefetchable_value NotPrefetchable = 0"
| "prefetchable_value Prefetchable = 0x08"

record pci_bar =
  bar_addr :: u32
  bar_size :: u32
  bar_used :: bool
  bar_type :: "pci_bar_region_type option"

definition default_bar :: pci_bar where
  "default_bar = \<lparr> bar_addr = 0, bar_size = 0, bar_used = False, bar_type = None \<rparr>"

record pci_bar_configuration =
  bc_addr :: u64
  bc_size :: u64
  bc_idx :: nat
  bc_region_type :: pci_bar_region_type
  bc_prefetchable :: pci_bar_prefetchable

record bar_reprogramming_params =
  rp_bar_idx :: "nat option"
  rp_old_base :: u64
  rp_new_base :: u64
  rp_len :: u64
  rp_region_type :: pci_bar_region_type

datatype pci_config_error =
    BarAddressInvalid u64 u64 | BarInUse nat | BarInUse64 nat | BarInvalid nat | BarInvalid64 nat
  | BarSizeInvalid u64 | CapabilityEmpty | CapabilitySpaceFull nat
  | Decode32BarSize | Decode64BarSize | Encode32BarSize | Encode64BarSize
  | RomBarAddressInvalid u64 u64 | RomBarInUse nat | RomBarInvalid nat | RomBarSizeInvalid u64

record pci_configuration =
  pc_registers :: "u32 list"
  pc_writable_bits :: "u32 list"
  pc_bars :: "pci_bar list"
  pc_rom_bar_addr :: u32
  pc_rom_bar_size :: u32
  pc_rom_bar_used :: bool
  pc_last_capability :: "(nat \<times> nat) option"
  pc_msix_cap_reg_idx :: "nat option"
  pc_msix_config :: "msix_config option"
  pc_pending :: "bar_reprogramming_params list"

definition set_bar :: "nat \<Rightarrow> (pci_bar \<Rightarrow> pci_bar) \<Rightarrow> pci_configuration \<Rightarrow> pci_configuration" where
  "set_bar i f cfg = cfg\<lparr> pc_bars := (pc_bars cfg)[i := f (pc_bars cfg ! i)] \<rparr>"

definition set_register :: "nat \<Rightarrow> u32 \<Rightarrow> pci_configuration \<Rightarrow> pci_configuration" where
  "set_register i v cfg = cfg\<lparr> pc_registers := (pc_registers cfg)[i := v] \<rparr>"

definition set_writable :: "nat \<Rightarrow> u32 \<Rightarrow> pci_configuration \<Rightarrow> pci_configuration" where
  "set_writable i v cfg = cfg\<lparr> pc_writable_bits := (pc_writable_bits cfg)[i := v] \<rparr>"

subsection \<open>BAR sizes\<close>

definition encode_32_bits_bar_size :: "u32 \<Rightarrow> u32 option" where
  "encode_32_bits_bar_size sz = (if 0 < sz then Some (NOT (sz - 1)) else None)"

definition decode_32_bits_bar_size :: "u32 \<Rightarrow> u32 option" where
  "decode_32_bits_bar_size sz = (if 0 < sz then Some (NOT sz + 1) else None)"

definition encode_64_bits_bar_size :: "u64 \<Rightarrow> (u32 \<times> u32) option" where
  "encode_64_bits_bar_size sz =
    (if 0 < sz
     then let result = NOT (sz - 1) in
          Some (ucast (drop_bit 32 result), ucast (result AND 0xffffffff))
     else None)"

definition decode_64_bits_bar_size :: "u32 \<Rightarrow> u32 \<Rightarrow> u64 option" where
  "decode_64_bits_bar_size hi lo =
    (let sz = push_bit 32 (ucast hi) OR ucast lo :: u64 in
     if 0 < sz then Some (NOT sz + 1) else None)"

subsection \<open>Register accesses\<close>

definition read_reg :: "pci_configuration \<Rightarrow> nat \<Rightarrow> u32" where
  "read_reg cfg reg_idx =
    (if reg_idx < length (pc_registers cfg) then pc_registers cfg ! reg_idx else 0xffffffff)"

definition is_bar_reg :: "nat \<Rightarrow> bool" where
  "is_bar_reg reg_idx \<longleftrightarrow> BAR0_REG \<le> reg_idx \<and> reg_idx < BAR0_REG + NUM_BAR_REGS"

definition is_bar_size_probe :: "pci_configuration \<Rightarrow> nat \<Rightarrow> u32 \<Rightarrow> bool" where
  "is_bar_size_probe cfg reg_idx value \<longleftrightarrow>
    is_bar_reg reg_idx \<and>
    (case bar_type (pc_bars cfg ! (reg_idx - BAR0_REG)) of
       Some IoRegion \<Rightarrow> value AND BAR_IO_ADDR_MASK = BAR_IO_ADDR_MASK
     | Some _ \<Rightarrow> value AND BAR_MEM_ADDR_MASK = BAR_MEM_ADDR_MASK
     | None \<Rightarrow> value = BAR_SIZE_PROBE_ALL_ONES)"

definition write_reg :: "pci_configuration \<Rightarrow> nat \<Rightarrow> u32 \<Rightarrow> pci_configuration option" where
  "write_reg cfg reg_idx value =
    (if length (pc_writable_bits cfg) \<le> reg_idx then None
     else
       let writable = pc_writable_bits cfg ! reg_idx;
           wmask = (if is_bar_size_probe cfg reg_idx value
                   then writable AND bar_size (pc_bars cfg ! (reg_idx - BAR0_REG))
                   else if reg_idx = ROM_BAR_REG \<and> value AND ROM_BAR_ADDR_MASK = ROM_BAR_ADDR_MASK
                   then writable AND pc_rom_bar_size cfg
                   else writable)
       in if reg_idx < length (pc_registers cfg)
          then Some (set_register reg_idx
                 ((pc_registers cfg ! reg_idx AND NOT writable) OR (value AND wmask)) cfg)
          else Some cfg)"

text \<open>The update of a field of a register: the bits of \<open>field\<close> that are writable take the value.\<close>

definition merge_register :: "u32 \<Rightarrow> u32 \<Rightarrow> u32 \<Rightarrow> u32 \<Rightarrow> u32" where
  "merge_register r writable field value =
    (r AND NOT (field AND writable)) OR (value AND writable)"

definition write_word :: "pci_configuration \<Rightarrow> nat \<Rightarrow> u16 \<Rightarrow> pci_configuration" where
  "write_word cfg offset value =
    (if offset mod 4 \<noteq> 0 \<and> offset mod 4 \<noteq> 2 then cfg
     else
       let shift = (if offset mod 4 = 0 then 0 else 16); reg_idx = offset div 4 in
       if reg_idx < length (pc_registers cfg)
       then set_register reg_idx
              (merge_register (pc_registers cfg ! reg_idx) (pc_writable_bits cfg ! reg_idx)
                 (push_bit shift 0xffff) (push_bit shift (ucast value))) cfg
       else cfg)"

definition write_byte_internal :: "pci_configuration \<Rightarrow> nat \<Rightarrow> u8 \<Rightarrow> bool \<Rightarrow> pci_configuration" where
  "write_byte_internal cfg offset value apply_writable_mask =
    (let shift = offset mod 4 * 8; reg_idx = offset div 4 in
     if reg_idx < length (pc_registers cfg)
     then set_register reg_idx
            (merge_register (pc_registers cfg ! reg_idx)
               (if apply_writable_mask then pc_writable_bits cfg ! reg_idx else 0xffffffff)
               (push_bit shift 0xff) (push_bit shift (ucast value))) cfg
     else cfg)"

definition write_byte :: "pci_configuration \<Rightarrow> nat \<Rightarrow> u8 \<Rightarrow> pci_configuration" where
  "write_byte cfg offset value = write_byte_internal cfg offset value True"

subsection \<open>BAR set-up\<close>

definition bar_masks :: "pci_bar_configuration \<Rightarrow> u32 \<times> u32" where
  "bar_masks config =
    (case bc_region_type config of
       IoRegion \<Rightarrow> (BAR_IO_ADDR_MASK, region_type_value IoRegion)
     | t \<Rightarrow> (BAR_MEM_ADDR_MASK, prefetchable_value (bc_prefetchable config) OR region_type_value t))"

text \<open>The size of the BAR, and for a 64-bit BAR the upper register.\<close>

definition bar_set_size ::
  "pci_configuration \<Rightarrow> pci_bar_configuration \<Rightarrow> u64 \<Rightarrow> pci_config_error + pci_configuration" where
  "bar_set_size cfg config end_addr =
    (let i = bc_idx config in
     case bc_region_type config of
       Memory64BitRegion \<Rightarrow>
         if NUM_BAR_REGS \<le> i + 1 then Inl (BarInvalid64 i)
         else if bar_used (pc_bars cfg ! (i + 1)) then Inl (BarInUse64 i)
         else
           (case encode_64_bits_bar_size (bc_size config) of
              None \<Rightarrow> Inl Encode64BarSize
            | Some (size_hi, size_lo) \<Rightarrow>
                let upper = ucast (drop_bit 32 (bc_addr config)) in
                Inr (set_bar (i + 1) (\<lambda>b. b\<lparr> bar_addr := upper, bar_size := size_hi, bar_used := True \<rparr>)
                      (set_bar i (\<lambda>b. b\<lparr> bar_size := size_lo \<rparr>)
                      (set_writable (BAR0_REG + i + 1) 0xffffffff
                      (set_register (BAR0_REG + i + 1) upper cfg)))))
     | _ \<Rightarrow>
         if 0xffffffff < end_addr then Inl (BarAddressInvalid (bc_addr config) (bc_size config))
         else
           (case encode_32_bits_bar_size (ucast (bc_size config)) of
              None \<Rightarrow> Inl Encode32BarSize
            | Some sz \<Rightarrow> Inr (set_bar i (\<lambda>b. b\<lparr> bar_size := sz \<rparr>) cfg)))"

definition add_pci_bar ::
  "pci_configuration \<Rightarrow> pci_bar_configuration \<Rightarrow> ((pci_config_error + unit) \<times> pci_configuration) option" where
  "add_pci_bar cfg config =
    (let i = bc_idx config; reg_idx = BAR0_REG + i in
     if length (pc_bars cfg) \<le> i then None
     else if bar_used (pc_bars cfg ! i) then Some (Inl (BarInUse i), cfg)
     else if \<not> is_power_of_two (bc_size config) then Some (Inl (BarSizeInvalid (bc_size config)), cfg)
     else if NUM_BAR_REGS \<le> i then Some (Inl (BarInvalid i), cfg)
     else
       (case checked_add (bc_addr config) (bc_size config - 1) of
          None \<Rightarrow> Some (Inl (BarAddressInvalid (bc_addr config) (bc_size config)), cfg)
        | Some end_addr \<Rightarrow>
            (case bar_set_size cfg config end_addr of
               Inl e \<Rightarrow> Some (Inl e, cfg)
             | Inr cfg \<Rightarrow>
                 let (wmask, lower_bits) = bar_masks config;
                     lower = (ucast (bc_addr config) AND wmask) OR lower_bits
                 in Some (Inr (),
                      set_bar i (\<lambda>b. b\<lparr> bar_addr := lower, bar_used := True, bar_type := Some (bc_region_type config) \<rparr>)
                      (set_writable reg_idx wmask
                      (set_register reg_idx lower cfg))))))"

definition add_pci_rom_bar ::
  "pci_configuration \<Rightarrow> pci_bar_configuration \<Rightarrow> u32 \<Rightarrow> (pci_config_error + unit) \<times> pci_configuration" where
  "add_pci_rom_bar cfg config active =
    (let i = bc_idx config in
     if pc_rom_bar_used cfg then (Inl (RomBarInUse i), cfg)
     else if \<not> is_power_of_two (bc_size config) then (Inl (RomBarSizeInvalid (bc_size config)), cfg)
     else if i \<noteq> ROM_BAR_IDX then (Inl (RomBarInvalid i), cfg)
     else
       (case checked_add (bc_addr config) (bc_size config - 1) of
          None \<Rightarrow> (Inl (RomBarAddressInvalid (bc_addr config) (bc_size config)), cfg)
        | Some end_addr \<Rightarrow>
            if 0xffffffff < end_addr
            then (Inl (RomBarAddressInvalid (bc_addr config) (bc_size config)), cfg)
            else
              let r = ucast (bc_addr config) OR active;
                  cfg = (set_writable ROM_BAR_REG ROM_BAR_ADDR_MASK
                         (set_register ROM_BAR_REG r cfg))\<lparr> pc_rom_bar_addr := r \<rparr>
              in (case encode_32_bits_bar_size (ucast (bc_size config)) of
                    None \<Rightarrow> (Inl Encode32BarSize, cfg)
                  | Some sz \<Rightarrow> (Inr (), cfg\<lparr> pc_rom_bar_size := sz, pc_rom_bar_used := True \<rparr>))))"

definition get_bar_addr :: "pci_configuration \<Rightarrow> nat \<Rightarrow> u64 option" where
  "get_bar_addr cfg n =
    (if length (pc_bars cfg) \<le> n then None
     else
       let addr = ucast (bar_addr (pc_bars cfg ! n) AND pc_writable_bits cfg ! (BAR0_REG + n)) :: u64 in
       if bar_type (pc_bars cfg ! n) = Some Memory64BitRegion
       then (if length (pc_bars cfg) \<le> n + 1 then None
             else Some (addr OR push_bit 32 (ucast (bar_addr (pc_bars cfg ! (n + 1))))))
       else Some addr)"

subsection \<open>Detection of BAR moves\<close>

text \<open>A write to the register of a BAR with a type: a 32-bit BAR moves at once.\<close>

definition detect_low ::
  "pci_configuration \<Rightarrow> nat \<Rightarrow> pci_bar_region_type \<Rightarrow> u32 \<Rightarrow> u32
     \<Rightarrow> (bar_reprogramming_params option \<times> pci_configuration) option" where
  "detect_low cfg i t wmask value =
    (if t = Memory64BitRegion then Some (None, cfg)
     else if value AND wmask = bar_addr (pc_bars cfg ! i) AND wmask then Some (None, cfg)
     else
       (case decode_32_bits_bar_size (bar_size (pc_bars cfg ! i)) of
          None \<Rightarrow> None
        | Some len \<Rightarrow>
            Some (Some \<lparr> rp_bar_idx = Some i,
                         rp_old_base = ucast (bar_addr (pc_bars cfg ! i) AND wmask),
                         rp_new_base = ucast (value AND wmask),
                         rp_len = ucast len, rp_region_type = t \<rparr>,
                  set_bar i (\<lambda>b. b\<lparr> bar_addr := value \<rparr>) cfg)))"

text \<open>A write to the register of a BAR without a type, taken as the upper half of the BAR below.\<close>

definition detect_high ::
  "pci_configuration \<Rightarrow> nat \<Rightarrow> u32 \<Rightarrow> u32
     \<Rightarrow> (bar_reprogramming_params option \<times> pci_configuration) option" where
  "detect_high cfg i wmask value =
    (let reg_idx = BAR0_REG + i;
         low = pc_registers cfg ! (reg_idx - 1);
         low_mask = pc_writable_bits cfg ! (reg_idx - 1);
         low_addr = bar_addr (pc_bars cfg ! (i - 1)) in
     if 0 < i \<and> (low AND low_mask \<noteq> low_addr AND low_mask
                 \<or> value AND wmask \<noteq> bar_addr (pc_bars cfg ! i) AND wmask)
     then
       (case decode_64_bits_bar_size (bar_size (pc_bars cfg ! i)) (bar_size (pc_bars cfg ! (i - 1))) of
          None \<Rightarrow> None
        | Some len \<Rightarrow>
            Some (Some \<lparr> rp_bar_idx = Some (i - 1),
                         rp_old_base = push_bit 32 (ucast (bar_addr (pc_bars cfg ! i) AND wmask))
                                       OR ucast (low_addr AND low_mask),
                         rp_new_base = push_bit 32 (ucast (value AND wmask)) OR ucast (low AND low_mask),
                         rp_len = len, rp_region_type = Memory64BitRegion \<rparr>,
                  set_bar (i - 1) (\<lambda>b. b\<lparr> bar_addr := low \<rparr>)
                    (set_bar i (\<lambda>b. b\<lparr> bar_addr := value \<rparr>) cfg)))
     else Some (None, cfg))"

definition detect_rom ::
  "pci_configuration \<Rightarrow> u32 \<Rightarrow> u32 \<Rightarrow> (bar_reprogramming_params option \<times> pci_configuration) option" where
  "detect_rom cfg wmask value =
    (if value AND ROM_BAR_ADDR_MASK = ROM_BAR_ADDR_MASK then Some (None, cfg)
     else
       (case decode_32_bits_bar_size (pc_rom_bar_size cfg) of
          None \<Rightarrow> None
        | Some len \<Rightarrow>
            Some (Some \<lparr> rp_bar_idx = Some ROM_BAR_IDX,
                         rp_old_base = ucast (pc_rom_bar_addr cfg AND wmask),
                         rp_new_base = ucast (value AND wmask),
                         rp_len = ucast len, rp_region_type = Memory32BitRegion \<rparr>,
                  cfg\<lparr> pc_rom_bar_addr := value \<rparr>)))"

definition detect_bar_reprogramming ::
  "byteorder_ops \<Rightarrow> pci_configuration \<Rightarrow> nat \<Rightarrow> u8 list
     \<Rightarrow> (bar_reprogramming_params option \<times> pci_configuration) option" where
  "detect_bar_reprogramming B cfg reg_idx data =
    (if length data \<noteq> 4 then Some (None, cfg)
     else
       let value = read_u32 B data in
       if is_bar_size_probe cfg reg_idx value then Some (None, cfg)
       else if length (pc_writable_bits cfg) \<le> reg_idx then None
       else
         let wmask = pc_writable_bits cfg ! reg_idx in
         if is_bar_reg reg_idx
         then
           (let i = reg_idx - BAR0_REG in
            case bar_type (pc_bars cfg ! i) of
              Some t \<Rightarrow> detect_low cfg i t wmask value
            | None \<Rightarrow> detect_high cfg i wmask value)
         else if reg_idx = ROM_BAR_REG \<and> value AND wmask \<noteq> pc_rom_bar_addr cfg AND wmask
         then detect_rom cfg wmask value
         else Some (None, cfg))"

definition restore_bar_addr ::
  "pci_configuration \<Rightarrow> bar_reprogramming_params \<Rightarrow> pci_configuration option" where
  "restore_bar_addr cfg p =
    (case rp_bar_idx p of
       None \<Rightarrow> None
     | Some i \<Rightarrow>
         let bars = pc_bars cfg; wb = pc_writable_bits cfg; regs = pc_registers cfg in
         if i < NUM_BAR_REGS
         then
           (case rp_region_type p of
              Memory64BitRegion \<Rightarrow>
                if NUM_BAR_REGS \<le> i + 1 \<or> bar_type (bars ! i) \<noteq> Some Memory64BitRegion then Some cfg
                else
                  let low_mask = wb ! (BAR0_REG + i); high_mask = wb ! (BAR0_REG + i + 1);
                      current = push_bit 32 (ucast (bar_addr (bars ! (i + 1)) AND high_mask))
                                OR ucast (bar_addr (bars ! i) AND low_mask) :: u64 in
                  if current = rp_new_base p
                  then
                    let old_low = ucast (rp_old_base p) :: u32;
                        old_high = ucast (drop_bit 32 (rp_old_base p)) :: u32 in
                    Some (set_register (BAR0_REG + i + 1)
                            ((regs ! (BAR0_REG + i + 1) AND NOT high_mask) OR (old_high AND high_mask))
                         (set_register (BAR0_REG + i)
                            ((regs ! (BAR0_REG + i) AND NOT low_mask) OR (old_low AND low_mask))
                         (set_bar (i + 1) (\<lambda>b. b\<lparr> bar_addr := old_high \<rparr>)
                         (set_bar i (\<lambda>b. b\<lparr> bar_addr := old_low \<rparr>) cfg))))
                  else Some cfg
            | t \<Rightarrow>
                let wmask = wb ! (BAR0_REG + i) in
                if bar_type (bars ! i) = Some t \<and> ucast (bar_addr (bars ! i) AND wmask) = rp_new_base p
                then
                  let old = ucast (rp_old_base p) :: u32 in
                  Some (set_register (BAR0_REG + i)
                          ((regs ! (BAR0_REG + i) AND NOT wmask) OR (old AND wmask))
                       (set_bar i (\<lambda>b. b\<lparr> bar_addr := old \<rparr>) cfg))
                else Some cfg)
         else if i = ROM_BAR_IDX \<and> pc_rom_bar_used cfg
         then
           let wmask = wb ! ROM_BAR_REG in
           if ucast (pc_rom_bar_addr cfg AND wmask) = rp_new_base p
           then
             let old = ucast (rp_old_base p) :: u32;
                 r = (regs ! ROM_BAR_REG AND NOT wmask) OR (old AND wmask) in
             Some ((set_register ROM_BAR_REG r cfg)\<lparr> pc_rom_bar_addr := r \<rparr>)
           else Some cfg
         else Some cfg)"

subsection \<open>Guest writes\<close>

text \<open>The message control word of an access to the MSI-X capability register.\<close>

definition msix_msg_ctl :: "byteorder_ops \<Rightarrow> pci_configuration \<Rightarrow> nat \<Rightarrow> u64 \<Rightarrow> u8 list \<Rightarrow> u16 option" where
  "msix_msg_ctl B cfg reg_idx offset data =
    (if pc_msix_cap_reg_idx cfg \<noteq> Some reg_idx then None
     else if offset = 2 \<and> length data = 2 then Some (read_u16 B data)
     else if offset = 0 \<and> length data = 4 then Some (ucast (drop_bit 16 (read_u32 B data)))
     else None)"

definition write_msix_ctl ::
  "byteorder_ops \<Rightarrow> 'g isg_ops \<Rightarrow> pci_configuration \<Rightarrow> nat \<Rightarrow> u64 \<Rightarrow> u8 list \<Rightarrow> 'g
     \<Rightarrow> (pci_configuration \<times> 'g) option" where
  "write_msix_ctl B I cfg reg_idx offset data g =
    (case (pc_msix_config cfg, msix_msg_ctl B cfg reg_idx offset data) of
       (Some mx, Some reg) \<Rightarrow>
         (case set_msg_ctl I mx reg g of
            None \<Rightarrow> None
          | Some (mx', g', _) \<Rightarrow> Some (cfg\<lparr> pc_msix_config := Some mx' \<rparr>, g'))
     | _ \<Rightarrow> Some (cfg, g))"

definition write_data ::
  "byteorder_ops \<Rightarrow> pci_configuration \<Rightarrow> nat \<Rightarrow> u64 \<Rightarrow> u8 list \<Rightarrow> pci_configuration option" where
  "write_data B cfg reg_idx offset data =
    (let pos = (reg_idx * 4 + unat offset) mod 2 ^ 64 in
     if length data = 1 then Some (write_byte cfg pos (data ! 0))
     else if length data = 2
     then Some (write_word cfg pos (ucast (data ! 0) OR push_bit 8 (ucast (data ! 1))))
     else if length data = 4 then write_reg cfg reg_idx (read_u32 B data)
     else Some cfg)"

definition push_pending :: "bar_reprogramming_params option \<Rightarrow> pci_configuration \<Rightarrow> pci_configuration" where
  "push_pending po cfg =
    (case po of None \<Rightarrow> cfg | Some p \<Rightarrow> cfg\<lparr> pc_pending := pc_pending cfg @ [p] \<rparr>)"

definition memory_space_enabled :: "pci_configuration \<Rightarrow> bool" where
  "memory_space_enabled cfg \<longleftrightarrow>
    read_reg cfg COMMAND_REG AND COMMAND_REG_MEMORY_SPACE_MASK = COMMAND_REG_MEMORY_SPACE_MASK"

definition take_pending_moves ::
  "pci_configuration \<Rightarrow> bar_reprogramming_params list \<times> pci_configuration" where
  "take_pending_moves cfg =
    (if pc_pending cfg \<noteq> [] \<and> memory_space_enabled cfg
     then (pc_pending cfg, cfg\<lparr> pc_pending := [] \<rparr>)
     else ([], cfg))"

definition write_config_register ::
  "byteorder_ops \<Rightarrow> 'g isg_ops \<Rightarrow> pci_configuration \<Rightarrow> nat \<Rightarrow> u64 \<Rightarrow> u8 list \<Rightarrow> 'g
     \<Rightarrow> (bar_reprogramming_params list \<times> pci_configuration \<times> 'g) option" where
  "write_config_register B I cfg reg_idx offset data g =
    (if 4 < (unat offset + length data) mod 2 ^ 64 then Some ([], cfg, g)
     else
       (case write_msix_ctl B I cfg reg_idx offset data g of
          None \<Rightarrow> None
        | Some (cfg, g) \<Rightarrow>
            (case write_data B cfg reg_idx offset data of
               None \<Rightarrow> None
             | Some cfg \<Rightarrow>
                 (case detect_bar_reprogramming B cfg reg_idx data of
                    None \<Rightarrow> None
                  | Some (po, cfg) \<Rightarrow>
                      let (ms, cfg) = take_pending_moves (push_pending po cfg) in Some (ms, cfg, g)))))"

definition clear_pending_bar_reprogram :: "pci_configuration \<Rightarrow> pci_configuration" where
  "clear_pending_bar_reprogram cfg = cfg\<lparr> pc_pending := [] \<rparr>"

end
