(* ===== verification/PciBars.thy ===== *)
theory PciBars
  imports PciConfig
begin

text \<open>
  The BARs of a PCI function: what a configuration that was built by \<open>add_pci_bar\<close> and
  \<open>add_pci_rom_bar\<close> looks like, and how guest writes move the BARs.  A guest write of a BAR register
  updates the configuration at once and reports the move; the moves are held back while the memory
  space bit of the command register is clear.  The invariant relates the configuration to the places
  where the rest of the VMM has mapped the BARs: performing the moves that are still held back, in
  order, takes every BAR from its mapping to the address in the configuration.
\<close>

section \<open>Well-formed configurations\<close>

definition pc_wf :: "pci_configuration \<Rightarrow> bool" where
  "pc_wf cfg \<longleftrightarrow> length (pc_registers cfg) = NUM_CONFIGURATION_REGISTERS
     \<and> length (pc_writable_bits cfg) = NUM_CONFIGURATION_REGISTERS
     \<and> length (pc_bars cfg) = NUM_BAR_REGS"

abbreviation bar_writable :: "pci_configuration \<Rightarrow> nat \<Rightarrow> u32" where
  "bar_writable cfg i \<equiv> pc_writable_bits cfg ! (BAR0_REG + i)"

definition addr_bits :: "pci_bar_region_type \<Rightarrow> u32" where
  "addr_bits t = (if t = IoRegion then BAR_IO_ADDR_MASK else BAR_MEM_ADDR_MASK)"

text \<open>What each of the six BAR registers is: unused, a BAR of its own or the upper half of the BAR below.\<close>

definition bar_ok :: "pci_configuration \<Rightarrow> nat \<Rightarrow> bool" where
  "bar_ok cfg i \<longleftrightarrow>
    (let b = pc_bars cfg ! i in
     case bar_type b of
       None \<Rightarrow>
         (if bar_used b
          then 0 < i \<and> bar_type (pc_bars cfg ! (i - 1)) = Some Memory64BitRegion
               \<and> bar_writable cfg i = 0xffffffff
          else bar_writable cfg i = 0)
     | Some t \<Rightarrow>
         bar_used b \<and> bar_writable cfg i = addr_bits t
         \<and> (if t = Memory64BitRegion
            then i + 1 < NUM_BAR_REGS \<and> bar_type (pc_bars cfg ! (i + 1)) = None
                 \<and> bar_used (pc_bars cfg ! (i + 1))
                 \<and> (bar_size b \<noteq> 0 \<or> bar_size (pc_bars cfg ! (i + 1)) \<noteq> 0)
            else bar_size b \<noteq> 0))"

definition rom_ok :: "pci_configuration \<Rightarrow> bool" where
  "rom_ok cfg \<longleftrightarrow>
    (if pc_rom_bar_used cfg
     then pc_writable_bits cfg ! ROM_BAR_REG = ROM_BAR_ADDR_MASK \<and> pc_rom_bar_size cfg \<noteq> 0
     else pc_writable_bits cfg ! ROM_BAR_REG = 0)"

definition layout_ok :: "pci_configuration \<Rightarrow> bool" where
  "layout_ok cfg \<longleftrightarrow> pc_wf cfg \<and> (\<forall>i < NUM_BAR_REGS. bar_ok cfg i) \<and> rom_ok cfg"

text \<open>The BARs that exist, by the index that a move carries, and what the configuration says of them.\<close>

definition bar_live :: "pci_configuration \<Rightarrow> nat \<Rightarrow> bool" where
  "bar_live cfg i \<longleftrightarrow>
    (i < NUM_BAR_REGS \<and> bar_type (pc_bars cfg ! i) \<noteq> None) \<or> (i = ROM_BAR_IDX \<and> pc_rom_bar_used cfg)"

definition bar_region :: "pci_configuration \<Rightarrow> nat \<Rightarrow> pci_bar_region_type" where
  "bar_region cfg i =
    (if i = ROM_BAR_IDX then Memory32BitRegion else the (bar_type (pc_bars cfg ! i)))"

definition bar_base :: "pci_configuration \<Rightarrow> nat \<Rightarrow> u64" where
  "bar_base cfg i =
    (if i = ROM_BAR_IDX then ucast (pc_rom_bar_addr cfg AND pc_writable_bits cfg ! ROM_BAR_REG)
     else the (get_bar_addr cfg i))"

definition bar_len :: "pci_configuration \<Rightarrow> nat \<Rightarrow> u64" where
  "bar_len cfg i =
    (if i = ROM_BAR_IDX then ucast (NOT (pc_rom_bar_size cfg) + 1)
     else if bar_type (pc_bars cfg ! i) = Some Memory64BitRegion
     then NOT (push_bit 32 (ucast (bar_size (pc_bars cfg ! (i + 1)))) OR ucast (bar_size (pc_bars cfg ! i))) + 1
     else ucast (NOT (bar_size (pc_bars cfg ! i)) + 1))"

section \<open>Moves\<close>

text \<open>The mapping of the BARs in the rest of the VMM, and a list of moves performed on it.\<close>

fun replay :: "(nat \<Rightarrow> u64) \<Rightarrow> bar_reprogramming_params list \<Rightarrow> nat \<Rightarrow> u64" where
  "replay loc [] = loc"
| "replay loc (p # ps) = replay (loc(the (rp_bar_idx p) := rp_new_base p)) ps"

definition move_ok :: "pci_configuration \<Rightarrow> (nat \<Rightarrow> u64) \<Rightarrow> bar_reprogramming_params \<Rightarrow> bool" where
  "move_ok cfg loc p \<longleftrightarrow>
    (\<exists>i. rp_bar_idx p = Some i \<and> bar_live cfg i \<and> rp_old_base p = loc i \<and> rp_new_base p \<noteq> loc i
         \<and> rp_len p = bar_len cfg i \<and> rp_region_type p = bar_region cfg i)"

fun moves_ok :: "pci_configuration \<Rightarrow> (nat \<Rightarrow> u64) \<Rightarrow> bar_reprogramming_params list \<Rightarrow> bool" where
  "moves_ok cfg loc [] \<longleftrightarrow> True"
| "moves_ok cfg loc (p # ps) \<longleftrightarrow>
     move_ok cfg loc p \<and> moves_ok cfg (loc(the (rp_bar_idx p) := rp_new_base p)) ps"

text \<open>The address bits of a BAR; the registers cannot hold a base with other bits.\<close>

definition bar_bits :: "pci_configuration \<Rightarrow> nat \<Rightarrow> u64" where
  "bar_bits cfg i =
    (if i = ROM_BAR_IDX then ucast (pc_writable_bits cfg ! ROM_BAR_REG)
     else if bar_type (pc_bars cfg ! i) = Some Memory64BitRegion
     then push_bit 32 (- 1) OR ucast (bar_writable cfg i)
     else ucast (bar_writable cfg i))"

definition base_fits :: "pci_configuration \<Rightarrow> nat \<Rightarrow> u64 \<Rightarrow> bool" where
  "base_fits cfg i b \<longleftrightarrow> b AND bar_bits cfg i = b"

definition bars_inv :: "pci_configuration \<Rightarrow> (nat \<Rightarrow> u64) \<Rightarrow> bool" where
  "bars_inv cfg loc \<longleftrightarrow>
    layout_ok cfg \<and> moves_ok cfg loc (pc_pending cfg)
    \<and> (\<forall>i. bar_live cfg i \<longrightarrow> replay loc (pc_pending cfg) i = bar_base cfg i)
    \<and> (\<forall>i. bar_live cfg i \<longrightarrow> base_fits cfg i (loc i))
    \<and> (\<forall>p \<in> set (pc_pending cfg). base_fits cfg (the (rp_bar_idx p)) (rp_new_base p))"

text \<open>
  A register that belongs to no BAR is taken for the upper half of the BAR below it.  A write to it
  is harmless unless the register below holds something else than the address of its BAR, which is
  the case while the guest is probing the size of that BAR.
\<close>

definition bar_write_safe :: "pci_configuration \<Rightarrow> nat \<Rightarrow> bool" where
  "bar_write_safe cfg reg_idx \<longleftrightarrow>
    (let i = reg_idx - BAR0_REG in
     is_bar_reg reg_idx \<and> 0 < i \<and> \<not> bar_used (pc_bars cfg ! i) \<longrightarrow>
     pc_registers cfg ! (reg_idx - 1) AND pc_writable_bits cfg ! (reg_idx - 1)
       = bar_addr (pc_bars cfg ! (i - 1)) AND pc_writable_bits cfg ! (reg_idx - 1))"

section \<open>Frames\<close>

lemma set_bar_simps [simp]:
  "pc_registers (set_bar i f cfg) = pc_registers cfg"
  "pc_writable_bits (set_bar i f cfg) = pc_writable_bits cfg"
  "length (pc_bars (set_bar i f cfg)) = length (pc_bars cfg)"
  "pc_rom_bar_addr (set_bar i f cfg) = pc_rom_bar_addr cfg"
  "pc_rom_bar_size (set_bar i f cfg) = pc_rom_bar_size cfg"
  "pc_rom_bar_used (set_bar i f cfg) = pc_rom_bar_used cfg"
  "pc_pending (set_bar i f cfg) = pc_pending cfg"
  by (simp_all add: set_bar_def)

text \<open>The part of a configuration that decides what its BARs are, which guest writes leave alone.\<close>

definition same_layout :: "pci_configuration \<Rightarrow> pci_configuration \<Rightarrow> bool" where
  "same_layout c d \<longleftrightarrow>
     length (pc_registers d) = length (pc_registers c) \<and> pc_writable_bits d = pc_writable_bits c
   \<and> length (pc_bars d) = length (pc_bars c)
   \<and> (\<forall>i < length (pc_bars c). bar_size (pc_bars d ! i) = bar_size (pc_bars c ! i)
        \<and> bar_used (pc_bars d ! i) = bar_used (pc_bars c ! i)
        \<and> bar_type (pc_bars d ! i) = bar_type (pc_bars c ! i))
   \<and> pc_rom_bar_size d = pc_rom_bar_size c \<and> pc_rom_bar_used d = pc_rom_bar_used c"

lemma same_layout_refl [simp]: "same_layout c c"
  by (simp add: same_layout_def)

lemma same_layout_trans: "same_layout c d \<Longrightarrow> same_layout d e \<Longrightarrow> same_layout c e"
  by (simp add: same_layout_def)

lemma same_layout_upd [simp]:
  "same_layout c (set_register r v d) \<longleftrightarrow> same_layout c d"
  "same_layout c (d\<lparr> pc_pending := ps \<rparr>) \<longleftrightarrow> same_layout c d"
  "same_layout c (d\<lparr> pc_msix_config := mx \<rparr>) \<longleftrightarrow> same_layout c d"
  "same_layout c (d\<lparr> pc_rom_bar_addr := a \<rparr>) \<longleftrightarrow> same_layout c d"
  "same_layout c (d\<lparr> pc_registers := (pc_registers d)[r := v] \<rparr>) \<longleftrightarrow> same_layout c d"
  by (auto simp: same_layout_def set_register_def)

lemma nth_update: "xs[i := v] ! j = (if i = j \<and> i < length xs then v else xs ! j)"
  by (cases "i < length xs") (auto simp: nth_list_update not_less list_update_beyond)

lemma set_addr_fields [simp]:
  "bar_size (xs[i := (xs ! i)\<lparr> bar_addr := a \<rparr>] ! j) = bar_size (xs ! j)"
  "bar_used (xs[i := (xs ! i)\<lparr> bar_addr := a \<rparr>] ! j) = bar_used (xs ! j)"
  "bar_type (xs[i := (xs ! i)\<lparr> bar_addr := a \<rparr>] ! j) = bar_type (xs ! j)"
  by (auto simp: nth_update)

lemma same_layout_set_addr [simp]:
  "same_layout c (set_bar i (\<lambda>b. b\<lparr> bar_addr := a \<rparr>) d) \<longleftrightarrow> same_layout c d"
  by (simp add: same_layout_def set_bar_def)

lemma same_layout_ok:
  assumes "same_layout c d" and "layout_ok c"
  shows "layout_ok d"
proof -
  have len: "length (pc_bars c) = NUM_BAR_REGS" using assms(2) by (simp add: layout_ok_def pc_wf_def)
  have "bar_ok d i" if "i < NUM_BAR_REGS" for i
  proof -
    have ok: "bar_ok c i" using that assms(2) by (simp add: layout_ok_def)
    have *: "bar_size (pc_bars d ! j) = bar_size (pc_bars c ! j)
        \<and> bar_used (pc_bars d ! j) = bar_used (pc_bars c ! j)
        \<and> bar_type (pc_bars d ! j) = bar_type (pc_bars c ! j)" if "j < NUM_BAR_REGS" for j
      using assms(1) that len by (simp add: same_layout_def)
    have wb: "pc_writable_bits d = pc_writable_bits c" using assms(1) by (simp add: same_layout_def)
    show ?thesis
      using ok * [OF that] * [of "i - 1"] * [of "i + 1"] that
      unfolding bar_ok_def Let_def wb
      by (cases "bar_type (pc_bars c ! i)") (auto split: if_splits)
  qed
  then show ?thesis
    using assms by (auto simp: layout_ok_def pc_wf_def same_layout_def rom_ok_def)
qed

lemma same_layout_live:
  assumes "same_layout c d" and "pc_wf c"
  shows "bar_live d i = bar_live c i"
  using assms by (auto simp: same_layout_def bar_live_def pc_wf_def)

lemma same_layout_desc:
  assumes "same_layout c d" and "layout_ok c" and "bar_live c i"
  shows "bar_region d i = bar_region c i" and "bar_len d i = bar_len c i"
proof -
  have len: "length (pc_bars c) = NUM_BAR_REGS" using assms(2) by (simp add: layout_ok_def pc_wf_def)
  have *: "bar_size (pc_bars d ! j) = bar_size (pc_bars c ! j)
        \<and> bar_type (pc_bars d ! j) = bar_type (pc_bars c ! j)" if "j < NUM_BAR_REGS" for j
    using assms(1) that len by (simp add: same_layout_def)
  have up: "i + 1 < NUM_BAR_REGS" if "i < NUM_BAR_REGS" "bar_type (pc_bars c ! i) = Some Memory64BitRegion"
    using assms(2) that by (auto simp: layout_ok_def bar_ok_def Let_def)
  show "bar_region d i = bar_region c i" "bar_len d i = bar_len c i"
    using assms(1,3) * [of i] * [of "i + 1"] up
    by (auto simp: bar_region_def bar_len_def bar_live_def same_layout_def)
qed

lemma moves_ok_cong:
  assumes "same_layout c d" and "layout_ok c"
  shows "moves_ok d loc ps = moves_ok c loc ps"
proof (induction ps arbitrary: loc)
  case Nil
  then show ?case by simp
next
  case (Cons p ps)
  have "move_ok d loc p = move_ok c loc p"
    using assms same_layout_live [OF assms(1)] same_layout_desc [OF assms]
    by (auto simp: move_ok_def layout_ok_def)
  then show ?case by (simp only: moves_ok.simps Cons)
qed

lemma moves_ok_snoc:
  "moves_ok cfg loc (ps @ [p]) \<longleftrightarrow> moves_ok cfg loc ps \<and> move_ok cfg (replay loc ps) p"
  by (induction ps arbitrary: loc) auto

lemma replay_snoc:
  "replay loc (ps @ [p]) = (replay loc ps)(the (rp_bar_idx p) := rp_new_base p)"
  by (induction ps arbitrary: loc) auto

section \<open>Guest writes move the BARs\<close>

lemma write_msix_ctl_frame:
  "write_msix_ctl B I cfg reg_idx offset data g = Some (cfg', g') \<Longrightarrow>
    cfg' = cfg \<or> (\<exists>mx. cfg' = cfg\<lparr> pc_msix_config := mx \<rparr>)"
  by (auto simp: write_msix_ctl_def split: option.splits)

lemma write_data_frame:
  assumes "write_data B cfg reg_idx offset data = Some cfg'"
  shows "\<exists>regs. cfg' = cfg\<lparr> pc_registers := regs \<rparr> \<and> length regs = length (pc_registers cfg)
    \<and> (length data = 4 \<longrightarrow> (\<forall>r. r \<noteq> reg_idx \<longrightarrow> regs ! r = pc_registers cfg ! r))"
proof -
  have "\<exists>regs. d = cfg\<lparr> pc_registers := regs \<rparr> \<and> length regs = length (pc_registers cfg)
      \<and> (\<forall>r. r \<noteq> k \<longrightarrow> regs ! r = pc_registers cfg ! r)"
    if "d = cfg \<or> (\<exists>v. d = set_register k v cfg)" for d k
    using that by (auto simp: set_register_def intro: exI [of _ "pc_registers cfg"])
  moreover have "cfg' = cfg \<or> (\<exists>k v. cfg' = set_register k v cfg \<and> (length data = 4 \<longrightarrow> k = reg_idx))"
    using assms
    by (auto simp: write_data_def write_byte_def write_byte_internal_def write_word_def write_reg_def
        Let_def split: if_splits)
  ultimately show ?thesis by metis
qed

lemma bar_base_simps:
  assumes "pc_wf cfg" and "i < NUM_BAR_REGS"
  shows "bar_type (pc_bars cfg ! i) = Some t \<Longrightarrow> t \<noteq> Memory64BitRegion \<Longrightarrow>
      bar_base cfg i = ucast (bar_addr (pc_bars cfg ! i) AND bar_writable cfg i)"
    and "bar_type (pc_bars cfg ! i) = Some Memory64BitRegion \<Longrightarrow> i + 1 < NUM_BAR_REGS \<Longrightarrow>
      bar_base cfg i = ucast (bar_addr (pc_bars cfg ! i) AND bar_writable cfg i)
        OR push_bit 32 (ucast (bar_addr (pc_bars cfg ! (i + 1))))"
  using assms by (auto simp: bar_base_def get_bar_addr_def pc_wf_def pci_consts Let_def)

definition detect_ok ::
  "pci_configuration \<Rightarrow> bar_reprogramming_params option \<Rightarrow> pci_configuration \<Rightarrow> bool" where
  "detect_ok cfg po cfg' \<longleftrightarrow>
    same_layout cfg cfg' \<and> pc_pending cfg' = pc_pending cfg
    \<and> (case po of
         None \<Rightarrow> cfg' = cfg
       | Some p \<Rightarrow> move_ok cfg (bar_base cfg) p
           \<and> (\<forall>i. bar_live cfg i \<longrightarrow> bar_base cfg' i = ((bar_base cfg)(the (rp_bar_idx p) := rp_new_base p)) i))"

lemma ucast_u64_eq_iff: "(ucast a :: u64) = ucast b \<longleftrightarrow> a = b" for a b :: u32
proof
  assume eq: "(ucast a :: u64) = ucast b"
  show "a = b"
  proof (rule bit_word_eqI)
    fix n assume "n < LENGTH(32)"
    then show "bit a n = bit b n" using arg_cong [OF eq, of "\<lambda>w. bit w n"] by (simp add: bit_simps)
  qed
qed simp

lemma detect_low_ok:
  assumes lay: "layout_ok cfg" and i: "i < NUM_BAR_REGS" and t: "bar_type (pc_bars cfg ! i) = Some t"
  shows "\<exists>po cfg'. detect_low cfg i t (bar_writable cfg i) value = Some (po, cfg') \<and> detect_ok cfg po cfg'"
proof (cases "t = Memory64BitRegion \<or>
    value AND bar_writable cfg i = bar_addr (pc_bars cfg ! i) AND bar_writable cfg i")
  case True
  then show ?thesis by (auto simp: detect_low_def detect_ok_def)
next
  case False
  let ?c = "set_bar i (\<lambda>b. b\<lparr> bar_addr := value \<rparr>) cfg"
  have wf: "pc_wf cfg" and sz: "0 < bar_size (pc_bars cfg ! i)"
    using lay i t False by (auto simp: layout_ok_def bar_ok_def Let_def word_gt_0)
  have wf': "pc_wf ?c" using wf by (simp add: pc_wf_def set_bar_def)
  have base: "bar_base cfg i = ucast (bar_addr (pc_bars cfg ! i) AND bar_writable cfg i)"
    using bar_base_simps(1) [OF wf i t] False by simp
  have new: "bar_base ?c i = ucast (value AND bar_writable cfg i)"
    using bar_base_simps(1) [OF wf' i] t i wf False
    by (simp add: set_bar_def pc_wf_def)
  have other: "bar_base ?c j = bar_base cfg j" if "j \<noteq> i" "bar_live cfg j" for j
  proof -
    have "j + 1 \<noteq> i" if "j < NUM_BAR_REGS" "bar_type (pc_bars cfg ! j) = Some Memory64BitRegion"
      using lay that t by (auto simp: layout_ok_def bar_ok_def Let_def)
    then show ?thesis
      using \<open>j \<noteq> i\<close> \<open>bar_live cfg j\<close> by (auto simp: bar_base_def get_bar_addr_def set_bar_def Let_def bar_live_def)
  qed
  have ne: "(ucast (value AND bar_writable cfg i) :: u64) \<noteq> bar_base cfg i"
    using False by (simp add: base ucast_u64_eq_iff)
  have idx: "i \<noteq> ROM_BAR_IDX" using i by (simp add: pci_consts)
  define p where "p = \<lparr> rp_bar_idx = Some i, rp_old_base = bar_base cfg i,
    rp_new_base = ucast (value AND bar_writable cfg i),
    rp_len = ucast (NOT (bar_size (pc_bars cfg ! i)) + 1), rp_region_type = t \<rparr>"
  have "detect_low cfg i t (bar_writable cfg i) value = Some (Some p, ?c)"
    using False sz by (simp add: detect_low_def decode_32_bits_bar_size_def p_def base)
  moreover have "move_ok cfg (bar_base cfg) p"
    using i t False ne idx
    by (auto simp: move_ok_def p_def bar_live_def bar_region_def bar_len_def)
  then have "detect_ok cfg (Some p) ?c"
    using new other by (simp add: detect_ok_def p_def)
  ultimately show ?thesis by blast
qed

lemma and_all_ones [simp]: "v AND 0xffffffff = v" "0xffffffff AND v = v" for v :: u32
proof -
  have "(0xffffffff :: u32) = - 1" by simp
  then show "v AND 0xffffffff = v" "0xffffffff AND v = v"
    by (simp_all only: and.right_neutral and.left_neutral)
qed

lemma decode_64_Some:
  assumes "hi \<noteq> 0 \<or> lo \<noteq> 0"
  shows "decode_64_bits_bar_size hi lo = Some (NOT (push_bit 32 (ucast hi) OR ucast lo) + 1)"
proof -
  have "push_bit 32 (ucast hi) OR ucast lo \<noteq> (0 :: u64)"
  proof
    assume z: "push_bit 32 (ucast hi) OR ucast lo = (0 :: u64)"
    have "hi = 0"
      by (rule bit_word_eqI) (use arg_cong [OF z, of "\<lambda>w. bit w (32 + n)" for n] in \<open>simp add: bit_simps\<close>)
    moreover have "lo = 0"
      by (rule bit_word_eqI) (use arg_cong [OF z, of "\<lambda>w. bit w n" for n] in \<open>simp add: bit_simps\<close>)
    ultimately show False using assms by simp
  qed
  then show ?thesis by (simp add: decode_64_bits_bar_size_def Let_def word_gt_0)
qed

lemma halves_eq_iff:
  "(push_bit 32 (ucast h) OR ucast l :: u64) = push_bit 32 (ucast h') OR ucast l' \<longleftrightarrow> h = h' \<and> l = l'"
  for h l h' l' :: u32
proof
  assume eq: "(push_bit 32 (ucast h) OR ucast l :: u64) = push_bit 32 (ucast h') OR ucast l'"
  have "h = h'"
  proof (rule bit_word_eqI)
    fix n assume "n < LENGTH(32)"
    then show "bit h n = bit h' n"
      using arg_cong [OF eq, of "\<lambda>w. bit w (32 + n)"] by (auto simp: bit_simps dest: bit_imp_le_length)
  qed
  moreover have "l = l'"
  proof (rule bit_word_eqI)
    fix n assume "n < LENGTH(32)"
    then show "bit l n = bit l' n"
      using arg_cong [OF eq, of "\<lambda>w. bit w n"] by (simp add: bit_simps)
  qed
  ultimately show "h = h' \<and> l = l'" by simp
qed simp

lemma layout_bar: "layout_ok cfg \<Longrightarrow> i < NUM_BAR_REGS \<Longrightarrow> bar_ok cfg i"
  by (simp add: layout_ok_def)

lemma detect_high_ok:
  assumes lay: "layout_ok cfg" and i: "i < NUM_BAR_REGS" and t: "bar_type (pc_bars cfg ! i) = None"
    and safe: "bar_write_safe cfg (BAR0_REG + i)"
  shows "\<exists>po cfg'. detect_high cfg i (bar_writable cfg i) value = Some (po, cfg') \<and> detect_ok cfg po cfg'"
proof (cases "0 < i \<and> bar_used (pc_bars cfg ! i)
    \<and> (pc_registers cfg ! (BAR0_REG + i - 1) AND pc_writable_bits cfg ! (BAR0_REG + i - 1)
         \<noteq> bar_addr (pc_bars cfg ! (i - 1)) AND pc_writable_bits cfg ! (BAR0_REG + i - 1)
       \<or> value AND bar_writable cfg i \<noteq> bar_addr (pc_bars cfg ! i) AND bar_writable cfg i)")
  case False
  have "bar_writable cfg i = 0" if "\<not> bar_used (pc_bars cfg ! i)"
    using lay i t that by (auto simp: layout_ok_def bar_ok_def Let_def)
  then have "detect_high cfg i (bar_writable cfg i) value = Some (None, cfg)"
    using False safe i by (auto simp: detect_high_def bar_write_safe_def is_bar_reg_def Let_def)
  then show ?thesis by (simp add: detect_ok_def)
next
  case True
  then obtain k where k: "i = Suc k" and used: "bar_used (pc_bars cfg ! i)" by (cases i) auto
  let ?low = "pc_registers cfg ! (BAR0_REG + k)"
  let ?c = "set_bar k (\<lambda>b. b\<lparr> bar_addr := ?low \<rparr>) (set_bar (Suc k) (\<lambda>b. b\<lparr> bar_addr := value \<rparr>) cfg)"
  have wf: "pc_wf cfg" using lay by (simp add: layout_ok_def)
  have ki: "k < NUM_BAR_REGS" "k + 1 < NUM_BAR_REGS" using i k by auto
  have tk: "bar_type (pc_bars cfg ! k) = Some Memory64BitRegion" and wi: "bar_writable cfg (Suc k) = 0xffffffff"
    using lay i t used k by (auto simp: layout_ok_def bar_ok_def Let_def)
  have all: "v AND bar_writable cfg (Suc k) = v" for v
    unfolding wi by simp
  have sz: "bar_size (pc_bars cfg ! Suc k) \<noteq> 0 \<or> bar_size (pc_bars cfg ! k) \<noteq> 0"
    using layout_bar [OF lay ki(1)] tk by (auto simp: bar_ok_def)
  have base: "bar_base cfg k = push_bit 32 (ucast (bar_addr (pc_bars cfg ! Suc k)))
      OR ucast (bar_addr (pc_bars cfg ! k) AND bar_writable cfg k)"
    using bar_base_simps(2) [OF wf ki(1) tk ki(2)] by (simp add: or.commute)
  have wf': "pc_wf ?c" using wf by (simp add: pc_wf_def)
  have nth: "pc_bars ?c ! k = (pc_bars cfg ! k)\<lparr> bar_addr := ?low \<rparr>"
      "pc_bars ?c ! Suc k = (pc_bars cfg ! Suc k)\<lparr> bar_addr := value \<rparr>"
    using ki wf by (simp_all add: set_bar_def pc_wf_def)
  have new: "bar_base ?c k = push_bit 32 (ucast value) OR ucast (?low AND bar_writable cfg k)"
    using bar_base_simps(2) [OF wf' ki(1) _ ki(2)] tk by (simp add: nth or.commute)
  have other: "bar_base ?c j = bar_base cfg j" if "j \<noteq> k" "bar_live cfg j" for j
  proof -
    have "j \<noteq> Suc k" using that(2) t k ki by (auto simp: bar_live_def pci_consts)
    moreover have "j + 1 \<noteq> k" if "j < NUM_BAR_REGS" "bar_type (pc_bars cfg ! j) = Some Memory64BitRegion"
      using lay that tk by (auto simp: layout_ok_def bar_ok_def Let_def)
    ultimately show ?thesis
      using that by (auto simp: bar_base_def get_bar_addr_def set_bar_def Let_def bar_live_def nth_update)
  qed
  define p where "p = \<lparr> rp_bar_idx = Some k, rp_old_base = bar_base cfg k, rp_new_base = bar_base ?c k,
    rp_len = NOT (push_bit 32 (ucast (bar_size (pc_bars cfg ! Suc k))) OR ucast (bar_size (pc_bars cfg ! k))) + 1,
    rp_region_type = Memory64BitRegion \<rparr>"
  have diff: "?low AND bar_writable cfg k \<noteq> bar_addr (pc_bars cfg ! k) AND bar_writable cfg k
      \<or> value \<noteq> bar_addr (pc_bars cfg ! Suc k)"
    using True all by (simp add: k)
  have "detect_high cfg i (bar_writable cfg i) value = Some (Some p, ?c)"
    using diff all decode_64_Some [OF sz]
    by (simp add: detect_high_def k Let_def p_def base new)
  moreover have "move_ok cfg (bar_base cfg) p"
    using ki tk diff base new halves_eq_iff
    by (auto simp: move_ok_def p_def bar_live_def bar_region_def bar_len_def pci_consts)
  then have "detect_ok cfg (Some p) ?c"
    using other by (simp add: detect_ok_def p_def)
  ultimately show ?thesis by blast
qed

lemma detect_rom_ok:
  assumes lay: "layout_ok cfg"
    and d: "value AND pc_writable_bits cfg ! ROM_BAR_REG \<noteq> pc_rom_bar_addr cfg AND pc_writable_bits cfg ! ROM_BAR_REG"
  shows "\<exists>po cfg'. detect_rom cfg (pc_writable_bits cfg ! ROM_BAR_REG) value = Some (po, cfg') \<and> detect_ok cfg po cfg'"
proof (cases "value AND ROM_BAR_ADDR_MASK = ROM_BAR_ADDR_MASK")
  case True
  then show ?thesis by (simp add: detect_rom_def detect_ok_def)
next
  case False
  have used: "pc_rom_bar_used cfg" and sz: "0 < pc_rom_bar_size cfg"
    using lay d by (auto simp: layout_ok_def rom_ok_def word_gt_0 split: if_splits)
  have "bar_base (cfg\<lparr> pc_rom_bar_addr := value \<rparr>) j = bar_base cfg j" if "j \<noteq> ROM_BAR_IDX" for j
    using that by (simp add: bar_base_def get_bar_addr_def Let_def)
  then show ?thesis
    using False used sz d
    by (auto simp: detect_rom_def decode_32_bits_bar_size_def detect_ok_def move_ok_def bar_live_def
        bar_region_def bar_len_def bar_base_def ucast_u64_eq_iff)
qed

lemma detect_bar_reprogramming_ok:
  assumes lay: "layout_ok cfg" and r: "reg_idx < NUM_CONFIGURATION_REGISTERS"
    and safe: "length data = 4 \<Longrightarrow> bar_write_safe cfg reg_idx"
  shows "\<exists>po cfg'. detect_bar_reprogramming B cfg reg_idx data = Some (po, cfg') \<and> detect_ok cfg po cfg'"
proof (cases "length data = 4 \<and> \<not> is_bar_size_probe cfg reg_idx (read_u32 B data)")
  case False
  then show ?thesis by (auto simp: detect_bar_reprogramming_def detect_ok_def Let_def)
next
  case True
  have len: "length (pc_writable_bits cfg) = NUM_CONFIGURATION_REGISTERS"
    using lay by (simp add: layout_ok_def pc_wf_def)
  show ?thesis
  proof (cases "is_bar_reg reg_idx")
    case bar: True
    define i where "i = reg_idx - BAR0_REG"
    have i: "i < NUM_BAR_REGS" "reg_idx = BAR0_REG + i" using bar by (auto simp: is_bar_reg_def i_def)
    have "bar_write_safe cfg (BAR0_REG + i)" using safe True i by simp
    from detect_high_ok [OF lay i(1) _ this] detect_low_ok [OF lay i(1)]
    show ?thesis
      using True bar r len i
      by (cases "bar_type (pc_bars cfg ! i)") (simp_all add: detect_bar_reprogramming_def Let_def)
  next
    case False
    then show ?thesis
      using True r len detect_rom_ok [OF lay]
      by (auto simp: detect_bar_reprogramming_def detect_ok_def Let_def)
  qed
qed

lemma base_fits_cong:
  assumes "same_layout c d" and "pc_wf c" and "bar_live c i"
  shows "base_fits d i b = base_fits c i b"
  using assms by (auto simp: base_fits_def bar_bits_def same_layout_def bar_live_def pc_wf_def)

lemma bar_base_fits:
  assumes lay: "layout_ok cfg" and live: "bar_live cfg i"
  shows "base_fits cfg i (bar_base cfg i)"
proof (cases "i = ROM_BAR_IDX")
  case True
  then show ?thesis
    by (simp add: base_fits_def bar_bits_def bar_base_def)  (rule bit_word_eqI, auto simp: bit_simps)
next
  case False
  then obtain t where i: "i < NUM_BAR_REGS" and t: "bar_type (pc_bars cfg ! i) = Some t"
    using live by (auto simp: bar_live_def)
  have wf: "pc_wf cfg" using lay by (simp add: layout_ok_def)
  show ?thesis
  proof (cases "t = Memory64BitRegion")
    case True
    then have "i + 1 < NUM_BAR_REGS" using layout_bar [OF lay i] t by (simp add: bar_ok_def Let_def)
    then show ?thesis
      using True t False bar_base_simps(2) [OF wf i]
      by (simp add: base_fits_def bar_bits_def) (rule bit_word_eqI, auto simp: bit_simps)
  next
    case False
    then show ?thesis
      using t i \<open>i \<noteq> ROM_BAR_IDX\<close>
      by (simp add: base_fits_def bar_bits_def bar_base_simps(1) [OF wf i]) (rule bit_word_eqI, auto simp: bit_simps)
  qed
qed

lemma moves_ok_idx: "moves_ok cfg loc ps \<Longrightarrow> p \<in> set ps \<Longrightarrow> \<exists>i. rp_bar_idx p = Some i \<and> bar_live cfg i"
  by (induction ps arbitrary: loc) (auto simp: move_ok_def)

lemma moves_ok_live: "moves_ok cfg loc ps \<Longrightarrow> p \<in> set ps \<Longrightarrow> bar_live cfg (the (rp_bar_idx p))"
  using moves_ok_idx by fastforce

lemma move_ok_cong: "same_layout c d \<Longrightarrow> layout_ok c \<Longrightarrow> move_ok d loc p = move_ok c loc p"
  using moves_ok_cong [of c d loc "[p]"] by simp

lemma bars_inv_same:
  assumes inv: "bars_inv cfg loc" and lay: "same_layout cfg cfg'" and pend: "pc_pending cfg' = pc_pending cfg"
    and base: "\<And>i. bar_live cfg i \<Longrightarrow> bar_base cfg' i = bar_base cfg i"
  shows "bars_inv cfg' loc"
proof -
  have l: "layout_ok cfg" and wf: "pc_wf cfg" using inv by (auto simp: bars_inv_def layout_ok_def)
  show ?thesis
    using inv same_layout_ok [OF lay l] pend base moves_ok_live [of cfg loc]
    by (auto simp: bars_inv_def moves_ok_cong [OF lay l] same_layout_live [OF lay wf] base_fits_cong [OF lay wf])
qed

lemma bar_base_upd [simp]:
  "bar_base (cfg\<lparr> pc_registers := regs \<rparr>) = bar_base cfg"
  "bar_base (cfg\<lparr> pc_msix_config := mx \<rparr>) = bar_base cfg"
  "bar_base (cfg\<lparr> pc_pending := ps \<rparr>) = bar_base cfg"
  "bar_base (set_register r v cfg) = bar_base cfg"
  by (rule ext, simp add: bar_base_def get_bar_addr_def set_register_def Let_def)+

lemma bars_inv_frame:
  assumes "bars_inv cfg loc" and "length regs = length (pc_registers cfg)"
  shows "bars_inv (cfg\<lparr> pc_registers := regs \<rparr>) loc" and "bars_inv (cfg\<lparr> pc_msix_config := mx \<rparr>) loc"
proof -
  have "same_layout cfg (cfg\<lparr> pc_registers := regs \<rparr>)" using assms(2) by (simp add: same_layout_def)
  then show "bars_inv (cfg\<lparr> pc_registers := regs \<rparr>) loc"
    by (rule bars_inv_same [OF assms(1)]) simp_all
  have "same_layout cfg (cfg\<lparr> pc_msix_config := mx \<rparr>)" by simp
  then show "bars_inv (cfg\<lparr> pc_msix_config := mx \<rparr>) loc"
    by (rule bars_inv_same [OF assms(1)]) simp_all
qed

lemma bars_inv_push:
  assumes inv: "bars_inv cfg loc" and d: "detect_ok cfg po cfg'"
  shows "bars_inv (push_pending po cfg') loc"
proof (cases po)
  case None
  then show ?thesis using inv d by (simp add: detect_ok_def push_pending_def)
next
  case (Some p)
  have l: "layout_ok cfg" and wf: "pc_wf cfg" using inv by (auto simp: bars_inv_def layout_ok_def)
  from d Some have lay: "same_layout cfg cfg'" and pend: "pc_pending cfg' = pc_pending cfg"
    and mv: "move_ok cfg (bar_base cfg) p"
    and base: "\<And>i. bar_live cfg i \<Longrightarrow> bar_base cfg' i = ((bar_base cfg)(the (rp_bar_idx p) := rp_new_base p)) i"
    by (auto simp: detect_ok_def)
  let ?c = "push_pending (Some p) cfg'"
  have lay': "same_layout cfg ?c" using lay by (simp add: push_pending_def)
  have base': "bar_base ?c = bar_base cfg'" by (simp add: push_pending_def)
  have pend': "pc_pending ?c = pc_pending cfg @ [p]" by (simp add: push_pending_def pend)
  from mv obtain i where i: "rp_bar_idx p = Some i" "bar_live cfg i" by (auto simp: move_ok_def)
  have mv': "move_ok cfg (replay loc (pc_pending cfg)) p"
    using mv inv i by (auto simp: move_ok_def bars_inv_def)
  have fit: "base_fits cfg i (rp_new_base p)"
    using bar_base_fits [OF same_layout_ok [OF lay l]] base [OF i(2)] i same_layout_live [OF lay wf]
      base_fits_cong [OF lay wf i(2)] by force
  show ?thesis
    using inv mv' fit base i same_layout_ok [OF lay' l] moves_ok_live [of cfg loc "pc_pending cfg"]
    unfolding Some bars_inv_def
    by (auto simp: moves_ok_cong [OF lay' l] move_ok_cong [OF lay' l] same_layout_live [OF lay' wf] base_fits_cong [OF lay' wf] base'
        pend' moves_ok_snoc replay_snoc)
qed

lemma bars_inv_take:
  assumes inv: "bars_inv cfg loc" and t: "take_pending_moves cfg = (ms, cfg')"
  shows "bars_inv (cfg'\<lparr> pc_pending := ms @ pc_pending cfg' \<rparr>) loc"
proof -
  have "cfg'\<lparr> pc_pending := ms @ pc_pending cfg' \<rparr> = cfg"
    using t by (auto simp: take_pending_moves_def split: if_splits)
  with inv show ?thesis by simp
qed

text \<open>
  The contract of a guest write: with the moves it reports put in front of those that are still held
  back, the invariant holds.
\<close>

lemma write_config_moves:
  assumes inv: "bars_inv cfg loc"
    and safe: "length data = 4 \<Longrightarrow> bar_write_safe cfg reg_idx"
    and w: "write_config_register B I cfg reg_idx offset data g = Some (ms, cfg', g')"
  shows "bars_inv (cfg'\<lparr> pc_pending := ms @ pc_pending cfg' \<rparr>) loc"
proof (cases "4 < (unat offset + length data) mod 2 ^ 64")
  case True
  then show ?thesis using w inv by (simp add: write_config_register_def)
next
  case False
  then obtain c1 c2 c3 po where c1: "write_msix_ctl B I cfg reg_idx offset data g = Some (c1, g')"
    and c2: "write_data B c1 reg_idx offset data = Some c2"
    and c3: "detect_bar_reprogramming B c2 reg_idx data = Some (po, c3)"
    and t: "take_pending_moves (push_pending po c3) = (ms, cfg')"
    using w by (auto simp: write_config_register_def split: option.splits prod.splits)
  have i1: "bars_inv c1 loc"
    using write_msix_ctl_frame [OF c1] inv by (auto intro: bars_inv_frame)
  from write_data_frame [OF c2] obtain regs where regs: "c2 = c1\<lparr> pc_registers := regs \<rparr>"
    "length regs = length (pc_registers c1)"
    "length data = 4 \<Longrightarrow> r \<noteq> reg_idx \<Longrightarrow> regs ! r = pc_registers c1 ! r" for r by blast
  have i2: "bars_inv c2 loc" using bars_inv_frame(1) [OF i1 regs(2)] regs(1) by simp
  have "detect_ok c2 po c3"
  proof (cases "length data = 4")
    case True
    have lay: "layout_ok c2" using i2 by (simp add: bars_inv_def)
    have "bar_write_safe c1 reg_idx"
      using safe [OF True] write_msix_ctl_frame [OF c1] by (auto simp: bar_write_safe_def)
    then have "bar_write_safe c2 reg_idx"
      using regs(3) [OF True, of "reg_idx - 1"] by (auto simp: bar_write_safe_def regs(1) Let_def is_bar_reg_def pci_consts)
    moreover have "reg_idx < NUM_CONFIGURATION_REGISTERS"
      using c2 True i1 by (auto simp: write_data_def write_reg_def bars_inv_def layout_ok_def pc_wf_def
          not_le [symmetric] Let_def split: if_splits)
    ultimately show ?thesis
      using detect_bar_reprogramming_ok [OF lay, of reg_idx data B] c3 by simp
  next
    case False
    then show ?thesis using c3 by (simp add: detect_bar_reprogramming_def detect_ok_def)
  qed
  from bars_inv_take [OF bars_inv_push [OF i2 this] t] show ?thesis .
qed

section \<open>Failed moves are rolled back\<close>

lemma fits_low:
  "b AND ucast m = b \<Longrightarrow> ucast (ucast b AND m) = b" for b :: u64 and m :: u32
proof -
  assume "b AND ucast m = b"
  then have "bit b n \<Longrightarrow> bit (ucast m :: u64) n" for n by (metis bit_and_iff)
  then have "bit b n \<Longrightarrow> n < 32 \<and> bit m n" for n
    using bit_imp_le_length [of m n] by (auto simp: bit_simps)
  then show ?thesis by (intro bit_word_eqI) (auto simp: bit_simps)
qed

lemma fits_halves:
  fixes b :: u64 and m :: u32
  assumes "b AND (push_bit 32 (- 1) OR ucast m) = b"
  shows "ucast (ucast b AND m) OR push_bit 32 (ucast (ucast (drop_bit 32 b) :: u32)) = b"
proof -
  from assms have "bit b n \<Longrightarrow> bit (push_bit 32 (- 1) OR ucast m :: u64) n" for n by (metis bit_and_iff)
  then have b: "bit b n \<Longrightarrow> n < 32 \<Longrightarrow> bit m n" for n by (force simp: bit_simps)
  show ?thesis
  proof (rule bit_word_eqI)
    fix n assume "n < LENGTH(64)"
    then show "bit (ucast (ucast b AND m) OR push_bit 32 (ucast (ucast (drop_bit 32 b) :: u32)) :: u64) n = bit b n"
      using b [of n] by (cases "n < 32") (auto simp: bit_simps dest: bit_imp_le_length)
  qed
qed

definition restored :: "pci_configuration \<Rightarrow> bar_reprogramming_params \<Rightarrow> nat \<Rightarrow> pci_configuration \<Rightarrow> bool" where
  "restored cfg p i cfg' \<longleftrightarrow> same_layout cfg cfg' \<and> pc_pending cfg' = pc_pending cfg
    \<and> (\<forall>j. bar_live cfg j \<longrightarrow> bar_base cfg' j = ((bar_base cfg)(i := rp_old_base p)) j)"

lemma set_register_simps [simp]:
  "pc_bars (set_register r v cfg) = pc_bars cfg"
  "pc_writable_bits (set_register r v cfg) = pc_writable_bits cfg"
  "pc_rom_bar_addr (set_register r v cfg) = pc_rom_bar_addr cfg"
  "pc_rom_bar_size (set_register r v cfg) = pc_rom_bar_size cfg"
  "pc_rom_bar_used (set_register r v cfg) = pc_rom_bar_used cfg"
  "pc_pending (set_register r v cfg) = pc_pending cfg"
  by (simp_all add: set_register_def)

text \<open>The address of one BAR does not change with the address of another.\<close>

lemma bar_base_set_low:
  assumes lay: "layout_ok cfg" and i: "i < NUM_BAR_REGS" and t: "bar_type (pc_bars cfg ! i) = Some t"
    and j: "j \<noteq> i" "bar_live cfg j"
  shows "bar_base (set_bar i (\<lambda>b. b\<lparr> bar_addr := a \<rparr>) cfg) j = bar_base cfg j"
proof -
  have "j + 1 \<noteq> i" if "j < NUM_BAR_REGS" "bar_type (pc_bars cfg ! j) = Some Memory64BitRegion"
    using layout_bar [OF lay that(1)] that t by (auto simp: bar_ok_def Let_def)
  then show ?thesis
    using j by (auto simp: bar_base_def get_bar_addr_def set_bar_def Let_def bar_live_def)
qed

lemma bar_base_set_high:
  assumes lay: "layout_ok cfg" and k: "Suc k < NUM_BAR_REGS"
    and t: "bar_type (pc_bars cfg ! k) = Some Memory64BitRegion" and j: "j \<noteq> k" "bar_live cfg j"
  shows "bar_base (set_bar (Suc k) (\<lambda>b. b\<lparr> bar_addr := a \<rparr>) cfg) j = bar_base cfg j"
proof -
  have "bar_type (pc_bars cfg ! Suc k) = None"
    using layout_bar [OF lay, of k] k t by (simp add: bar_ok_def Let_def)
  then have "j \<noteq> Suc k" using j k by (auto simp: bar_live_def pci_consts)
  then show ?thesis
    using j by (auto simp: bar_base_def get_bar_addr_def set_bar_def Let_def bar_live_def)
qed

lemma restore_low:
  assumes lay: "layout_ok cfg" and i: "i < NUM_BAR_REGS" and t: "bar_type (pc_bars cfg ! i) = Some t"
    and t': "t \<noteq> Memory64BitRegion" and p: "rp_bar_idx p = Some i" "rp_region_type p = t"
    "rp_new_base p = bar_base cfg i" and fit: "base_fits cfg i (rp_old_base p)"
  shows "\<exists>cfg'. restore_bar_addr cfg p = Some cfg' \<and> restored cfg p i cfg'"
proof -
  have wf: "pc_wf cfg" and idx: "i \<noteq> ROM_BAR_IDX" using lay i by (auto simp: layout_ok_def pci_consts)
  let ?c = "set_bar i (\<lambda>b. b\<lparr> bar_addr := ucast (rp_old_base p) \<rparr>) cfg"
  have r: "restore_bar_addr cfg p = Some (set_register (BAR0_REG + i)
      ((pc_registers cfg ! (BAR0_REG + i) AND NOT (bar_writable cfg i))
        OR (ucast (rp_old_base p) AND bar_writable cfg i)) ?c)"
    using p i t t' bar_base_simps(1) [OF wf i t t']
    by (cases t) (simp_all add: restore_bar_addr_def Let_def)
  have "pc_wf ?c" using wf by (simp add: pc_wf_def)
  from bar_base_simps(1) [OF this i] have "bar_base ?c i = rp_old_base p"
    using t t' fit idx wf i fits_low [of "rp_old_base p" "bar_writable cfg i"]
    by (simp add: set_bar_def base_fits_def bar_bits_def pc_wf_def)
  then show ?thesis
    using r bar_base_set_low [OF lay i t] by (simp add: restored_def)
qed

lemma restore_rom:
  assumes lay: "layout_ok cfg" and used: "pc_rom_bar_used cfg" and p: "rp_bar_idx p = Some ROM_BAR_IDX"
    "rp_new_base p = bar_base cfg ROM_BAR_IDX" and fit: "base_fits cfg ROM_BAR_IDX (rp_old_base p)"
  shows "\<exists>cfg'. restore_bar_addr cfg p = Some cfg' \<and> restored cfg p ROM_BAR_IDX cfg'"
proof -
  let ?m = "pc_writable_bits cfg ! ROM_BAR_REG"
  let ?r = "(pc_registers cfg ! ROM_BAR_REG AND NOT ?m) OR (ucast (rp_old_base p) AND ?m)"
  have r: "restore_bar_addr cfg p = Some ((set_register ROM_BAR_REG ?r cfg)\<lparr> pc_rom_bar_addr := ?r \<rparr>)"
    using p used by (simp add: restore_bar_addr_def Let_def bar_base_def pci_consts)
  have "?r AND ?m = ucast (rp_old_base p) AND ?m" by (rule bit_word_eqI) (auto simp: bit_simps)
  then have "ucast (?r AND ?m) = rp_old_base p"
    using fit fits_low [of "rp_old_base p" ?m] by (simp add: base_fits_def bar_bits_def)
  then show ?thesis
    using r by (auto simp: restored_def bar_base_def get_bar_addr_def set_register_def Let_def)
qed

lemma restore_wide:
  assumes lay: "layout_ok cfg" and i: "i < NUM_BAR_REGS" and t: "bar_type (pc_bars cfg ! i) = Some Memory64BitRegion"
    and p: "rp_bar_idx p = Some i" "rp_region_type p = Memory64BitRegion"
    "rp_new_base p = bar_base cfg i" and fit: "base_fits cfg i (rp_old_base p)"
  shows "\<exists>cfg'. restore_bar_addr cfg p = Some cfg' \<and> restored cfg p i cfg'"
proof -
  have wf: "pc_wf cfg" and idx: "i \<noteq> ROM_BAR_IDX" using lay i by (auto simp: layout_ok_def pci_consts)
  have k: "Suc i < NUM_BAR_REGS" and ty: "bar_type (pc_bars cfg ! Suc i) = None" "bar_used (pc_bars cfg ! Suc i)"
    using layout_bar [OF lay i] t by (simp_all add: bar_ok_def Let_def)
  have all: "bar_writable cfg (Suc i) = 0xffffffff" using layout_bar [OF lay k] ty by (simp add: bar_ok_def Let_def)
  let ?h = "ucast (drop_bit 32 (rp_old_base p)) :: u32"
  let ?l = "ucast (rp_old_base p) :: u32"
  let ?d = "set_bar i (\<lambda>b. b\<lparr> bar_addr := ?l \<rparr>) cfg"
  let ?c = "set_bar (Suc i) (\<lambda>b. b\<lparr> bar_addr := ?h \<rparr>) ?d"
  have base: "rp_new_base p = push_bit 32 (ucast (bar_addr (pc_bars cfg ! Suc i)))
      OR ucast (bar_addr (pc_bars cfg ! i) AND bar_writable cfg i)"
    using bar_base_simps(2) [OF wf i t] k p by (simp add: or.commute)
  obtain hv lv where r: "restore_bar_addr cfg p =
      Some (set_register (BAR0_REG + Suc i) hv (set_register (BAR0_REG + i) lv ?c))"
    using p i t k all base by (simp add: restore_bar_addr_def Let_def)
  have lay0: "layout_ok ?d" by (rule same_layout_ok [OF _ lay]) simp
  have t0: "bar_type (pc_bars ?d ! i) = Some Memory64BitRegion" using t by (simp add: set_bar_def)
  have live: "bar_live ?d j = bar_live cfg j" for j
    by (rule same_layout_live [OF _ wf]) simp
  have "pc_wf ?c" using wf by (simp add: pc_wf_def)
  from bar_base_simps(2) [OF this i] have "bar_base ?c i = rp_old_base p"
    using t k fit idx wf i fits_halves [of "rp_old_base p" "bar_writable cfg i"]
    by (simp add: set_bar_def base_fits_def bar_bits_def pc_wf_def nth_update)
  moreover have "bar_base ?c j = bar_base cfg j" if "j \<noteq> i" "bar_live cfg j" for j
    using bar_base_set_high [OF lay0 k t0] bar_base_set_low [OF lay i t] that live by simp
  ultimately show ?thesis
    using r by (simp add: restored_def)
qed

lemma restore_bar_addr_ok:
  assumes lay: "layout_ok cfg" and live: "bar_live cfg i" and p: "rp_bar_idx p = Some i"
    "rp_region_type p = bar_region cfg i" "rp_new_base p = bar_base cfg i"
    and fit: "base_fits cfg i (rp_old_base p)"
  shows "\<exists>cfg'. restore_bar_addr cfg p = Some cfg' \<and> restored cfg p i cfg'"
proof (cases "i = ROM_BAR_IDX")
  case True
  then show ?thesis using restore_rom [OF lay] live p fit by (auto simp: bar_live_def pci_consts)
next
  case False
  then obtain t where i: "i < NUM_BAR_REGS" and t: "bar_type (pc_bars cfg ! i) = Some t"
    using live by (auto simp: bar_live_def)
  then have "rp_region_type p = t" using p False by (simp add: bar_region_def)
  then show ?thesis
    using restore_low [OF lay i t] restore_wide [OF lay i] t p fit
    by (cases "t = Memory64BitRegion") auto
qed


section \<open>Moves one by one\<close>

lemma pending_irrelevant [simp]:
  "layout_ok (cfg\<lparr> pc_pending := ps \<rparr>) = layout_ok cfg"
  "bar_live (cfg\<lparr> pc_pending := ps \<rparr>) = bar_live cfg"
  "base_fits (cfg\<lparr> pc_pending := ps \<rparr>) = base_fits cfg"
  "move_ok (cfg\<lparr> pc_pending := ps \<rparr>) = move_ok cfg"
  by (auto simp: layout_ok_def pc_wf_def bar_ok_def rom_ok_def bar_live_def base_fits_def bar_bits_def
      move_ok_def bar_len_def bar_region_def Let_def fun_eq_iff cong: option.case_cong)

lemma pending_irrelevant_moves [simp]: "moves_ok (cfg\<lparr> pc_pending := ps \<rparr>) loc ms = moves_ok cfg loc ms"
  by (induction ms arbitrary: loc) simp_all

lemma bars_inv_moved:
  assumes "bars_inv (cfg\<lparr> pc_pending := p # ps \<rparr>) loc"
  shows "bars_inv (cfg\<lparr> pc_pending := ps \<rparr>) (loc(the (rp_bar_idx p) := rp_new_base p))"
  using assms by (auto simp: bars_inv_def)

lemma moves_ok_other:
  assumes "\<forall>p \<in> set ps. rp_bar_idx p \<noteq> Some i" and "moves_ok cfg (loc(i := b)) ps"
  shows "moves_ok cfg loc ps"
  using assms
proof (induction ps arbitrary: loc)
  case Nil
  then show ?case by simp
next
  case (Cons p ps)
  have mv: "move_ok cfg (loc(i := b)) p" using Cons.prems(2) by (simp only: moves_ok.simps)
  have ne: "rp_bar_idx p \<noteq> Some i" using Cons.prems(1) by simp
  with mv have j: "the (rp_bar_idx p) \<noteq> i" "move_ok cfg loc p" by (auto simp: move_ok_def)
  then have eq: "(loc(i := b))(the (rp_bar_idx p) := rp_new_base p) = (loc(the (rp_bar_idx p) := rp_new_base p))(i := b)"
    by (simp add: fun_upd_twist)
  have "moves_ok cfg ((loc(the (rp_bar_idx p) := rp_new_base p))(i := b)) ps"
    using Cons.prems(2) unfolding moves_ok.simps eq by (rule conjunct2)
  moreover have "\<forall>p \<in> set ps. rp_bar_idx p \<noteq> Some i" using Cons.prems(1) by simp
  ultimately show ?case using j Cons.IH by (simp only: moves_ok.simps)
qed

lemma replay_other: "\<forall>p \<in> set ps. the (rp_bar_idx p) \<noteq> i \<Longrightarrow> replay loc ps i = loc i"
  by (induction ps arbitrary: loc) auto

lemma replay_elsewhere:
  "\<forall>p \<in> set ps. the (rp_bar_idx p) \<noteq> i \<Longrightarrow> replay (loc(i := b)) ps = (replay loc ps)(i := b)"
proof (induction ps arbitrary: loc)
  case (Cons p ps)
  then have eq: "(loc(i := b))(the (rp_bar_idx p) := rp_new_base p) = (loc(the (rp_bar_idx p) := rp_new_base p))(i := b)"
    by (simp add: fun_upd_twist)
  have "\<forall>p \<in> set ps. the (rp_bar_idx p) \<noteq> i" using Cons.prems by simp
  then show ?case by (simp only: replay.simps eq Cons.IH)
qed simp

lemma bars_inv_restored:
  assumes inv: "bars_inv (cfg\<lparr> pc_pending := p # ps \<rparr>) loc"
    and once: "\<forall>q \<in> set ps. rp_bar_idx q \<noteq> rp_bar_idx p"
  shows "\<exists>cfg'. restore_bar_addr cfg p = Some cfg' \<and> pc_pending cfg' = pc_pending cfg
    \<and> bars_inv (cfg'\<lparr> pc_pending := ps \<rparr>) loc"
proof -
  from inv have lay: "layout_ok cfg" and mv: "move_ok cfg loc p"
    and mvs: "moves_ok cfg (loc(the (rp_bar_idx p) := rp_new_base p)) ps"
    and base: "\<And>i. bar_live cfg i \<Longrightarrow> replay (loc(the (rp_bar_idx p) := rp_new_base p)) ps i = bar_base cfg i"
    and fits: "\<And>i. bar_live cfg i \<Longrightarrow> base_fits cfg i (loc i)"
    and fitp: "\<forall>q \<in> set ps. base_fits cfg (the (rp_bar_idx q)) (rp_new_base q)"
    by (auto simp: bars_inv_def)
  from mv obtain i where i: "rp_bar_idx p = Some i" "bar_live cfg i" "rp_old_base p = loc i"
    "rp_region_type p = bar_region cfg i" by (auto simp: move_ok_def)
  have idx: "\<forall>q \<in> set ps. \<exists>j. rp_bar_idx q = Some j \<and> bar_live cfg j"
    using moves_ok_idx [OF mvs] by blast
  have ne: "\<forall>q \<in> set ps. the (rp_bar_idx q) \<noteq> i" using once idx i by fastforce
  have "rp_new_base p = bar_base cfg i"
    using base [OF i(2)] replay_other [OF ne] i by simp
  then obtain cfg' where r: "restore_bar_addr cfg p = Some cfg'" and d: "restored cfg p i cfg'"
    using restore_bar_addr_ok [OF lay i(2,1,4)] fits [OF i(2)] i(3) by auto
  have sl: "same_layout cfg cfg'" and pend: "pc_pending cfg' = pc_pending cfg" using d by (auto simp: restored_def)
  have wf: "pc_wf cfg" using lay by (simp add: layout_ok_def)
  have "moves_ok cfg loc ps" using moves_ok_other [of ps i] mvs once i by simp
  moreover have "replay loc ps j = bar_base cfg' j" if "bar_live cfg j" for j
    using base [OF that] that d i replay_elsewhere [OF ne, of loc "rp_new_base p"] replay_other [OF ne, of loc]
    by (cases "j = i") (auto simp: restored_def)
  ultimately have "bars_inv (cfg'\<lparr> pc_pending := ps \<rparr>) loc"
    using same_layout_ok [OF sl lay] fits fitp idx
    by (auto simp: bars_inv_def moves_ok_cong [OF sl lay] same_layout_live [OF sl wf]
        base_fits_cong [OF sl wf]) (metis base_fits_cong [OF sl wf] option.sel)
  with r pend show ?thesis by blast
qed

text \<open>
  The roll-back does nothing when the BAR has been moved again in the meantime, as it has for the
  first of two moves that were held back together.
\<close>

lemma restore_skipped:
  assumes lay: "layout_ok cfg" and live: "bar_live cfg i" and p: "rp_bar_idx p = Some i"
    and moved: "rp_new_base p \<noteq> bar_base cfg i"
  shows "restore_bar_addr cfg p = Some cfg"
proof (cases "i = ROM_BAR_IDX")
  case True
  then show ?thesis using p moved by (auto simp: restore_bar_addr_def bar_base_def Let_def pci_consts)
next
  case False
  have wf: "pc_wf cfg" using lay by (simp add: layout_ok_def)
  obtain t where i: "i < NUM_BAR_REGS" "bar_type (pc_bars cfg ! i) = Some t" using live False by (auto simp: bar_live_def)
  show ?thesis
  proof (cases "t = Memory64BitRegion")
    case True
    have k: "Suc i < NUM_BAR_REGS" "bar_writable cfg (Suc i) = 0xffffffff"
      using layout_bar [OF lay i(1)] layout_bar [OF lay, of "Suc i"] i True by (auto simp: bar_ok_def Let_def)
    have "bar_base cfg i = push_bit 32 (ucast (bar_addr (pc_bars cfg ! Suc i)))
        OR ucast (bar_addr (pc_bars cfg ! i) AND bar_writable cfg i)"
      using bar_base_simps(2) [OF wf i(1)] i k True by (simp add: or.commute)
    then show ?thesis
      using p moved i k True by (auto simp: restore_bar_addr_def Let_def split: pci_bar_region_type.split)
  next
    case False
    then show ?thesis
      using p moved i bar_base_simps(1) [OF wf i False]
      by (auto simp: restore_bar_addr_def Let_def split: pci_bar_region_type.split)
  qed
qed

section \<open>The layout is fixed\<close>

lemma restore_bar_addr_layout:
  "restore_bar_addr cfg p = Some cfg' \<Longrightarrow> same_layout cfg cfg'"
  by (auto simp: restore_bar_addr_def Let_def split: option.splits if_splits pci_bar_region_type.splits)

lemma detect_layout:
  "detect_bar_reprogramming B cfg r data = Some (po, cfg') \<Longrightarrow> same_layout cfg cfg'"
  by (auto simp: detect_bar_reprogramming_def detect_low_def detect_high_def detect_rom_def Let_def
      split: option.splits if_splits)

lemma write_config_layout:
  assumes "write_config_register B I cfg reg_idx offset data g = Some (ms, cfg', g')"
  shows "same_layout cfg cfg'"
proof (cases "4 < (unat offset + length data) mod 2 ^ 64")
  case True
  then show ?thesis using assms by (simp add: write_config_register_def)
next
  case False
  then obtain c1 c2 c3 po where c1: "write_msix_ctl B I cfg reg_idx offset data g = Some (c1, g')"
    and c2: "write_data B c1 reg_idx offset data = Some c2"
    and c3: "detect_bar_reprogramming B c2 reg_idx data = Some (po, c3)"
    and t: "take_pending_moves (push_pending po c3) = (ms, cfg')"
    using assms by (auto simp: write_config_register_def split: option.splits prod.splits)
  have "same_layout cfg c1" using write_msix_ctl_frame [OF c1] by auto
  moreover have "same_layout c1 c2" using write_data_frame [OF c2] by (auto simp: same_layout_def)
  moreover have "same_layout c3 cfg'"
    using t by (auto simp: take_pending_moves_def push_pending_def split: if_splits option.splits)
  ultimately show ?thesis using detect_layout [OF c3] same_layout_trans by blast
qed

text \<open>
  A write of four bytes to a register that is used by no BAR, while the register below is being
  probed, is reported as a move of a 64-bit BAR.  The guest has written the size mask of the BAR
  below, and the unused register has no size.
\<close>

lemma probe_above_moves:
  assumes "length data = 4" and "Suc i < NUM_BAR_REGS" and "length (pc_writable_bits cfg) = NUM_CONFIGURATION_REGISTERS"
    and free: "pc_bars cfg ! Suc i = default_bar" "bar_writable cfg (Suc i) = 0"
    and probing: "pc_registers cfg ! (BAR0_REG + i) AND bar_writable cfg i
      \<noteq> bar_addr (pc_bars cfg ! i) AND bar_writable cfg i"
    and sz: "bar_size (pc_bars cfg ! i) \<noteq> 0" and v: "read_u32 B data \<noteq> 0xffffffff"
  shows "\<exists>cfg'. detect_bar_reprogramming B cfg (BAR0_REG + Suc i) data =
    Some (Some \<lparr> rp_bar_idx = Some i, rp_old_base = ucast (bar_addr (pc_bars cfg ! i) AND bar_writable cfg i),
      rp_new_base = ucast (pc_registers cfg ! (BAR0_REG + i) AND bar_writable cfg i),
      rp_len = NOT (ucast (bar_size (pc_bars cfg ! i))) + 1, rp_region_type = Memory64BitRegion \<rparr>, cfg')"
proof -
  have "decode_64_bits_bar_size 0 (bar_size (pc_bars cfg ! i)) = Some (NOT (ucast (bar_size (pc_bars cfg ! i))) + 1)"
    using decode_64_Some [of 0 "bar_size (pc_bars cfg ! i)"] sz by simp
  then show ?thesis
    using assms by (simp add: detect_bar_reprogramming_def detect_high_def is_bar_size_probe_def is_bar_reg_def
        default_bar_def BAR_SIZE_PROBE_ALL_ONES_def Let_def NUM_BAR_REGS_def NUM_CONFIGURATION_REGISTERS_def BAR0_REG_def)
qed

end
