(* ===== verification/PciSnapshot.thy ===== *)
theory PciSnapshot
  imports PciBars
begin

text \<open>
  Construction, snapshot and restore of a PCI configuration: \<open>PciConfiguration::new\<close>, \<open>state\<close>, the
  sparse encoding of the registers and \<open>fixup_pending_bar_reprogram\<close>, which recovers the BAR indices
  that older snapshots do not carry.  The class, subclass and programming interface of a function
  are given by their register values.
\<close>

section \<open>Model\<close>

datatype pci_header_type = DeviceHeader | BridgeHeader

datatype pci_register_state = Sparse "(u16 \<times> u32) list" | Linear "u32 list"

definition sparse_registers :: "u32 list \<Rightarrow> pci_register_state" where
  "sparse_registers regs =
    Sparse (map (\<lambda>(index, value). (of_nat index, value)) (filter (\<lambda>(_, value). value \<noteq> 0) (enumerate 0 regs)))"

fun fill_registers :: "(u16 \<times> u32) list \<Rightarrow> u32 list \<Rightarrow> u32 list option" where
  "fill_registers [] vec = Some vec"
| "fill_registers ((idx, val) # es) vec =
    (if unat idx < NUM_CONFIGURATION_REGISTERS then fill_registers es (vec[unat idx := val]) else None)"

fun expand_registers :: "pci_register_state \<Rightarrow> u32 list option" where
  "expand_registers (Sparse es) = fill_registers es (replicate NUM_CONFIGURATION_REGISTERS 0)"
| "expand_registers (Linear vec) = Some vec"

record pci_configuration_state =
  ps_registers :: pci_register_state
  ps_writable_bits :: pci_register_state
  ps_bars :: "pci_bar list"
  ps_rom_bar_addr :: u32
  ps_rom_bar_size :: u32
  ps_rom_bar_used :: bool
  ps_last_capability :: "(nat \<times> nat) option"
  ps_msix_cap_reg_idx :: "nat option"
  ps_pending :: "bar_reprogramming_params list"

definition pci_state :: "pci_configuration \<Rightarrow> pci_configuration_state" where
  "pci_state cfg =
    \<lparr> ps_registers = sparse_registers (pc_registers cfg),
      ps_writable_bits = sparse_registers (pc_writable_bits cfg),
      ps_bars = pc_bars cfg, ps_rom_bar_addr = pc_rom_bar_addr cfg,
      ps_rom_bar_size = pc_rom_bar_size cfg, ps_rom_bar_used = pc_rom_bar_used cfg,
      ps_last_capability = pc_last_capability cfg,
      ps_msix_cap_reg_idx = pc_msix_cap_reg_idx cfg, ps_pending = pc_pending cfg \<rparr>"

text \<open>The first BAR that is in use at an address with a type; looking at a BAR can panic.\<close>

fun find_bar :: "pci_configuration \<Rightarrow> u64 \<Rightarrow> pci_bar_region_type \<Rightarrow> nat list \<Rightarrow> nat option option" where
  "find_bar cfg base_addr t [] = Some None"
| "find_bar cfg base_addr t (i # is) =
    (if \<not> bar_used (pc_bars cfg ! i) then find_bar cfg base_addr t is
     else
       (case get_bar_addr cfg i of
          None \<Rightarrow> None
        | Some a \<Rightarrow>
            if a = base_addr \<and> bar_type (pc_bars cfg ! i) = Some t then Some (Some i)
            else find_bar cfg base_addr t is))"

definition find_bar_idx_by_addr :: "pci_configuration \<Rightarrow> u64 \<Rightarrow> pci_bar_region_type \<Rightarrow> nat option option" where
  "find_bar_idx_by_addr cfg base_addr t =
    (case find_bar cfg base_addr t [0..<NUM_BAR_REGS] of
       None \<Rightarrow> None
     | Some (Some i) \<Rightarrow> Some (Some i)
     | Some None \<Rightarrow>
         Some (if pc_rom_bar_used cfg
                  \<and> ucast (pc_rom_bar_addr cfg AND pc_writable_bits cfg ! ROM_BAR_REG) = base_addr
                  \<and> t = Memory32BitRegion
               then Some ROM_BAR_IDX else None))"

fun fixup_moves ::
  "pci_configuration \<Rightarrow> bar_reprogramming_params list \<Rightarrow> bar_reprogramming_params list option" where
  "fixup_moves cfg [] = Some []"
| "fixup_moves cfg (p # ps) =
    (case fixup_moves cfg ps of
       None \<Rightarrow> None
     | Some ps \<Rightarrow>
         if rp_bar_idx p \<noteq> None then Some (p # ps)
         else
           (case Option.bind (find (\<lambda>q. rp_old_base q = rp_new_base p \<and> rp_len q = rp_len p
                       \<and> rp_region_type q = rp_region_type p) ps) rp_bar_idx of
              Some i \<Rightarrow> Some (p\<lparr> rp_bar_idx := Some i \<rparr> # ps)
            | None \<Rightarrow>
                (case find_bar_idx_by_addr cfg (rp_new_base p) (rp_region_type p) of
                   None \<Rightarrow> None
                 | Some oi \<Rightarrow> Some (p\<lparr> rp_bar_idx := oi \<rparr> # ps))))"

definition fixup_pending_bar_reprogram :: "pci_configuration \<Rightarrow> pci_configuration option" where
  "fixup_pending_bar_reprogram cfg =
    map_option (\<lambda>ps. cfg\<lparr> pc_pending := filter (\<lambda>p. rp_bar_idx p \<noteq> None) ps \<rparr>)
      (fixup_moves cfg (pc_pending cfg))"

record pci_function_ids =
  fn_vendor_id :: u16
  fn_device_id :: u16
  fn_revision_id :: u8
  fn_class_code :: u8
  fn_subclass :: u8
  fn_programming_interface :: "u8 option"
  fn_header_type :: pci_header_type
  fn_subsystem_vendor_id :: u16
  fn_subsystem_id :: u16

definition fresh_registers :: "pci_function_ids \<Rightarrow> u32 list" where
  "fresh_registers f =
    (replicate NUM_CONFIGURATION_REGISTERS 0)
      [0 := push_bit 16 (ucast (fn_device_id f)) OR ucast (fn_vendor_id f),
       2 := push_bit 24 (ucast (fn_class_code f)) OR push_bit 16 (ucast (fn_subclass f))
            OR push_bit 8 (ucast (case fn_programming_interface f of None \<Rightarrow> 0 | Some pi \<Rightarrow> pi))
            OR ucast (fn_revision_id f),
       3 := (case fn_header_type f of DeviceHeader \<Rightarrow> 0x00000000 | BridgeHeader \<Rightarrow> 0x00010000),
       11 := push_bit 16 (ucast (fn_subsystem_id f)) OR ucast (fn_subsystem_vendor_id f)]"

definition fresh_writable_bits :: "pci_function_ids \<Rightarrow> u32 list" where
  "fresh_writable_bits f =
    (let bits = (replicate NUM_CONFIGURATION_REGISTERS 0)[1 := 0x0000ffff, 3 := 0x000000ff] in
     case fn_header_type f of
       DeviceHeader \<Rightarrow> bits[15 := 0x000000ff]
     | BridgeHeader \<Rightarrow> bits[9 := 0xfff0fff0, 15 := 0xffff00ff])"

definition pci_configuration_new ::
  "pci_function_ids \<Rightarrow> msix_config option \<Rightarrow> pci_configuration_state option \<Rightarrow> pci_configuration option" where
  "pci_configuration_new f mx state =
    (case state of
       None \<Rightarrow>
         fixup_pending_bar_reprogram
           \<lparr> pc_registers = fresh_registers f, pc_writable_bits = fresh_writable_bits f,
             pc_bars = replicate NUM_BAR_REGS default_bar, pc_rom_bar_addr = 0, pc_rom_bar_size = 0,
             pc_rom_bar_used = False, pc_last_capability = None, pc_msix_cap_reg_idx = None,
             pc_msix_config = mx, pc_pending = [] \<rparr>
     | Some st \<Rightarrow>
         (case (expand_registers (ps_registers st), expand_registers (ps_writable_bits st)) of
            (Some regs, Some bits) \<Rightarrow>
              if length regs \<noteq> NUM_CONFIGURATION_REGISTERS \<or> length bits \<noteq> NUM_CONFIGURATION_REGISTERS
                 \<or> length (ps_bars st) \<noteq> NUM_BAR_REGS
              then None
              else
                fixup_pending_bar_reprogram
                  \<lparr> pc_registers = regs, pc_writable_bits = bits,
                    pc_bars = ps_bars st, pc_rom_bar_addr = ps_rom_bar_addr st,
                    pc_rom_bar_size = ps_rom_bar_size st, pc_rom_bar_used = ps_rom_bar_used st,
                    pc_last_capability = ps_last_capability st,
                    pc_msix_cap_reg_idx = ps_msix_cap_reg_idx st,
                    pc_msix_config = mx, pc_pending = ps_pending st \<rparr>
          | _ \<Rightarrow> None))"

text \<open>The host bridge.\<close>

definition pci_root_new :: "pci_configuration option \<Rightarrow> pci_configuration option" where
  "pci_root_new config =
    (case config of
       Some cfg \<Rightarrow> Some cfg
     | None \<Rightarrow>
         pci_configuration_new
           \<lparr> fn_vendor_id = 0x8086, fn_device_id = 0x0d57, fn_revision_id = 0, fn_class_code = 0x06,
             fn_subclass = 0x00, fn_programming_interface = None, fn_header_type = DeviceHeader,
             fn_subsystem_vendor_id = 0, fn_subsystem_id = 0 \<rparr> None None)"

section \<open>A snapshot restores the configuration\<close>

text \<open>Filling in entries with distinct indices; the registers from \<open>n\<close> on are those of \<open>regs\<close>.\<close>

lemma fill_enumerate:
  assumes "n + length regs \<le> NUM_CONFIGURATION_REGISTERS" and "length vec = NUM_CONFIGURATION_REGISTERS"
    and "\<forall>k < length regs. vec ! (n + k) = 0"
  shows "fill_registers (map (\<lambda>(index, value). (of_nat index, value)) (filter (\<lambda>(_, value). value \<noteq> 0) (enumerate n regs))) vec
    = Some (splice vec n regs)"
  using assms
proof (induction regs arbitrary: n vec)
  case Nil
  then show ?case by simp
next
  case (Cons r regs)
  have n: "n < NUM_CONFIGURATION_REGISTERS" "n < length vec" using Cons.prems by auto
  then have idx: "unat (of_nat n :: u16) = n" by (simp add: pci_consts unat_of_nat)
  have vn: "vec ! n = 0" using Cons.prems(3) by (metis add.right_neutral length_Cons zero_less_Suc)
  have later: "\<forall>k < length regs. vec ! (Suc n + k) = 0"
  proof (intro allI impI)
    fix k assume "k < length regs"
    then have "Suc k < length (r # regs)" by simp
    then have "vec ! (n + Suc k) = 0" using Cons.prems(3) by blast
    then show "vec ! (Suc n + k) = 0" by simp
  qed
  have len: "Suc n + length regs \<le> NUM_CONFIGURATION_REGISTERS" using Cons.prems(1) by simp
  have step: "splice (vec[n := r]) (Suc n) regs = splice vec n (r # regs)"
    using n by (simp add: splice_def take_Suc_conv_app_nth drop_update_cancel)
  show ?case
  proof (cases "r = 0")
    case True
    then have "vec[n := r] = vec" using vn by (metis list_update_id)
    then show ?thesis using True Cons.IH [OF len Cons.prems(2) later] step by simp
  next
    case False
    have "length (vec[n := r]) = NUM_CONFIGURATION_REGISTERS" using Cons.prems(2) by simp
    moreover have "\<forall>k < length regs. vec[n := r] ! (Suc n + k) = 0" using later by simp
    ultimately show ?thesis using False idx n step Cons.IH [OF len] by simp
  qed
qed

lemma sparse_roundtrip:
  assumes "length regs = NUM_CONFIGURATION_REGISTERS"
  shows "expand_registers (sparse_registers regs) = Some regs"
  using fill_enumerate [of 0 regs "replicate NUM_CONFIGURATION_REGISTERS 0"] assms
  by (simp add: sparse_registers_def splice_def)

lemma fixup_moves_id:
  "\<forall>p \<in> set ps. rp_bar_idx p \<noteq> None \<Longrightarrow> fixup_moves cfg ps = Some ps"
  by (induction ps) auto

lemma fixup_id:
  assumes "\<forall>p \<in> set (pc_pending cfg). rp_bar_idx p \<noteq> None"
  shows "fixup_pending_bar_reprogram cfg = Some cfg"
  using assms by (simp add: fixup_pending_bar_reprogram_def fixup_moves_id filter_id_conv)

lemma restore_state:
  assumes inv: "bars_inv cfg loc"
  shows "pci_configuration_new f mx (Some (pci_state cfg)) = Some (cfg\<lparr> pc_msix_config := mx \<rparr>)"
proof -
  have wf: "pc_wf cfg" using inv by (simp add: bars_inv_def layout_ok_def)
  have "\<forall>p \<in> set (pc_pending cfg). rp_bar_idx p \<noteq> None"
    using inv moves_ok_idx [of cfg loc "pc_pending cfg"] by (fastforce simp: bars_inv_def)
  then have "fixup_pending_bar_reprogram (cfg\<lparr> pc_msix_config := mx \<rparr>) = Some (cfg\<lparr> pc_msix_config := mx \<rparr>)"
    by (intro fixup_id) simp
  moreover have "\<lparr> pc_registers = pc_registers cfg, pc_writable_bits = pc_writable_bits cfg,
      pc_bars = pc_bars cfg, pc_rom_bar_addr = pc_rom_bar_addr cfg, pc_rom_bar_size = pc_rom_bar_size cfg,
      pc_rom_bar_used = pc_rom_bar_used cfg, pc_last_capability = pc_last_capability cfg,
      pc_msix_cap_reg_idx = pc_msix_cap_reg_idx cfg, pc_msix_config = mx, pc_pending = pc_pending cfg \<rparr>
      = cfg\<lparr> pc_msix_config := mx \<rparr>" (is "?l = _") by simp
  moreover have "pci_configuration_new f mx (Some (pci_state cfg)) = fixup_pending_bar_reprogram ?l"
    using wf by (simp add: pci_configuration_new_def pci_state_def sparse_roundtrip pc_wf_def)
  ultimately show ?thesis by (simp only:)
qed

text \<open>
  C0: restoring the snapshot of a configuration gives the same configuration, held-back BAR moves
  included; only the MSI-X state comes from its own snapshot.
\<close>
theorem pci_snapshot_roundtrip:
  assumes "bars_inv cfg loc"
  shows "pci_configuration_new f mx (Some (pci_state cfg)) = Some (cfg\<lparr> pc_msix_config := mx \<rparr>)"
  by (rule restore_state [OF assms])

lemma pci_new_layout:
  assumes new: "pci_configuration_new f mx None = Some cfg" and hdr: "fn_header_type f = DeviceHeader"
  shows "layout_ok cfg" and "pc_pending cfg = []" and "\<not> bar_live cfg i"
proof -
  have cfg: "cfg = \<lparr> pc_registers = fresh_registers f, pc_writable_bits = fresh_writable_bits f,
             pc_bars = replicate NUM_BAR_REGS default_bar, pc_rom_bar_addr = 0, pc_rom_bar_size = 0,
             pc_rom_bar_used = False, pc_last_capability = None, pc_msix_cap_reg_idx = None,
             pc_msix_config = mx, pc_pending = [] \<rparr>"
    using new by (simp add: pci_configuration_new_def fixup_pending_bar_reprogram_def)
  have wb: "fresh_writable_bits f ! r = 0" if "4 \<le> r" "r < 15" for r
    using that hdr by (auto simp: fresh_writable_bits_def pci_consts nth_list_update Let_def)
  show "layout_ok cfg" "pc_pending cfg = []" "\<not> bar_live cfg i"
    by (auto simp: cfg layout_ok_def pc_wf_def bar_ok_def rom_ok_def bar_live_def default_bar_def wb
        fresh_registers_def fresh_writable_bits_def hdr pci_consts Let_def)
qed

text \<open>A function with the identifiers of the panic device; its configuration when it is new.\<close>

definition demo_function :: pci_function_ids where
  "demo_function =
    \<lparr> fn_vendor_id = 0x1b36, fn_device_id = 0x0011, fn_revision_id = 1, fn_class_code = 0x08,
      fn_subclass = 0x80, fn_programming_interface = None, fn_header_type = DeviceHeader,
      fn_subsystem_vendor_id = 0x1af4, fn_subsystem_id = 0x1100 \<rparr>"

definition demo_config :: pci_configuration where
  "demo_config = the (pci_configuration_new demo_function None None)"

lemma demo_config_new: "pci_configuration_new demo_function None None = Some demo_config"
  by (simp add: demo_config_def pci_configuration_new_def fixup_pending_bar_reprogram_def)

lemma bars_inv_new:
  assumes "pci_configuration_new f mx None = Some cfg" and "fn_header_type f = DeviceHeader"
  shows "bars_inv cfg loc"
  using pci_new_layout [OF assms] by (simp add: bars_inv_def)

theorem pci_snapshot_roundtrip_witness:
  "bars_inv demo_config (\<lambda>_. 0)
    \<and> pci_configuration_new demo_function None (Some (pci_state demo_config)) = Some (demo_config\<lparr> pc_msix_config := None \<rparr>)"
proof -
  have "fn_header_type demo_function = DeviceHeader" by (simp add: demo_function_def)
  from bars_inv_new [OF demo_config_new this] show ?thesis by (metis pci_snapshot_roundtrip)
qed

end
