(* ===== verification/PciCaps.thy ===== *)
theory PciCaps
  imports PciSnapshot
begin

text \<open>
  The capability list of a PCI configuration: \<open>add_capability\<close> and \<open>next_dword\<close> of
  \<^verbatim>\<open>pci/src/configuration.rs\<close>.  The guest walks the list byte by byte from offset 0x34; the main
  result is that the walk visits the capabilities in the order in which they were added and finds
  the bytes of each of them.
\<close>

section \<open>Model\<close>

datatype pci_capability_id =
    ListId | PowerManagement | AcceleratedGraphicsPort | VitalProductData | SlotIdentification
  | MessageSignalledInterrupts | CompactPciHotSwap | PciX | HyperTransport | VendorSpecific
  | Debugport | CompactPciCentralResourceControl | PciStandardHotPlugController
  | BridgeSubsystemVendorDeviceId | AgpTargetPciPcibridge | SecureDevice | PciExpress | MsiX
  | SataDataIndexConf | PciAdvancedFeatures | PciEnhancedAllocation

primrec capability_id_value :: "pci_capability_id \<Rightarrow> u8" where
  "capability_id_value ListId = 0"
| "capability_id_value PowerManagement = 0x01"
| "capability_id_value AcceleratedGraphicsPort = 0x02"
| "capability_id_value VitalProductData = 0x03"
| "capability_id_value SlotIdentification = 0x04"
| "capability_id_value MessageSignalledInterrupts = 0x05"
| "capability_id_value CompactPciHotSwap = 0x06"
| "capability_id_value PciX = 0x07"
| "capability_id_value HyperTransport = 0x08"
| "capability_id_value VendorSpecific = 0x09"
| "capability_id_value Debugport = 0x0A"
| "capability_id_value CompactPciCentralResourceControl = 0x0B"
| "capability_id_value PciStandardHotPlugController = 0x0C"
| "capability_id_value BridgeSubsystemVendorDeviceId = 0x0D"
| "capability_id_value AgpTargetPciPcibridge = 0x0E"
| "capability_id_value SecureDevice = 0x0F"
| "capability_id_value PciExpress = 0x10"
| "capability_id_value MsiX = 0x11"
| "capability_id_value SataDataIndexConf = 0x12"
| "capability_id_value PciAdvancedFeatures = 0x13"
| "capability_id_value PciEnhancedAllocation = 0x14"

definition capability_id_of :: "u8 \<Rightarrow> pci_capability_id" where
  "capability_id_of c =
    (if c = 0x00 then ListId
     else if c = 0x01 then PowerManagement
     else if c = 0x02 then AcceleratedGraphicsPort
     else if c = 0x03 then VitalProductData
     else if c = 0x04 then SlotIdentification
     else if c = 0x05 then MessageSignalledInterrupts
     else if c = 0x06 then CompactPciHotSwap
     else if c = 0x07 then PciX
     else if c = 0x08 then HyperTransport
     else if c = 0x09 then VendorSpecific
     else if c = 0x0a then Debugport
     else if c = 0x0b then CompactPciCentralResourceControl
     else if c = 0x0c then PciStandardHotPlugController
     else if c = 0x0d then BridgeSubsystemVendorDeviceId
     else if c = 0x0e then AgpTargetPciPcibridge
     else if c = 0x0f then SecureDevice
     else if c = 0x10 then PciExpress
     else if c = 0x11 then MsiX
     else if c = 0x12 then SataDataIndexConf
     else if c = 0x13 then PciAdvancedFeatures
     else if c = 0x14 then PciEnhancedAllocation
     else ListId)"

definition next_dword :: "nat \<Rightarrow> nat \<Rightarrow> nat" where
  "next_dword offset len = (offset + len + 3) div 4 * 4"

fun write_cap_bytes :: "pci_configuration \<Rightarrow> nat \<Rightarrow> u8 list \<Rightarrow> pci_configuration" where
  "write_cap_bytes cfg pos [] = cfg"
| "write_cap_bytes cfg pos (b # bs) = write_cap_bytes (write_byte_internal cfg pos b False) (Suc pos) bs"

text \<open>The writable bits of the first register of a capability.\<close>

definition cap_writable :: "pci_capability_id \<Rightarrow> nat \<Rightarrow> pci_configuration \<Rightarrow> pci_configuration" where
  "cap_writable ident cap_offset cfg =
    (case ident of
       MessageSignalledInterrupts \<Rightarrow> set_writable (cap_offset div 4) MSI_CAPABILITY_REGISTER_MASK cfg
     | MsiX \<Rightarrow> (set_writable (cap_offset div 4) MSIX_CAPABILITY_REGISTER_MASK cfg)
                  \<lparr> pc_msix_cap_reg_idx := Some (cap_offset div 4) \<rparr>
     | _ \<Rightarrow> cfg)"

definition add_capability ::
  "pci_configuration \<Rightarrow> pci_capability_id \<Rightarrow> u8 list \<Rightarrow> (pci_config_error + nat) \<times> pci_configuration" where
  "add_capability cfg ident bytes =
    (let total_len = length bytes in
     if bytes = [] then (Inl CapabilityEmpty, cfg)
     else
       let (cap_offset, tail_offset) =
             (case pc_last_capability cfg of
                Some (offset, len) \<Rightarrow> (next_dword offset len, offset + 1)
              | None \<Rightarrow> (FIRST_CAPABILITY_OFFSET, CAPABILITY_LIST_HEAD_OFFSET))
       in if CAPABILITY_MAX_OFFSET < cap_offset + total_len then (Inl (CapabilitySpaceFull total_len), cfg)
          else
            let cfg = set_register STATUS_REG
                        (pc_registers cfg ! STATUS_REG OR STATUS_REG_CAPABILITIES_USED_MASK) cfg;
                cfg = write_byte_internal cfg tail_offset (of_nat cap_offset) False;
                cfg = write_byte_internal cfg cap_offset (capability_id_value ident) False;
                cfg = write_byte_internal cfg (cap_offset + 1) 0 False;
                cfg = write_cap_bytes cfg (cap_offset + 2) bytes;
                cfg = cfg\<lparr> pc_last_capability := Some (cap_offset, total_len) \<rparr>
            in (Inr cap_offset, cap_writable ident cap_offset cfg))"

fun add_capabilities ::
  "pci_configuration \<Rightarrow> (pci_capability_id \<times> u8 list) list \<Rightarrow> (nat list \<times> pci_configuration) option" where
  "add_capabilities cfg [] = Some ([], cfg)"
| "add_capabilities cfg ((ident, bytes) # cs) =
    (case add_capability cfg ident bytes of
       (Inl _, _) \<Rightarrow> None
     | (Inr off, cfg) \<Rightarrow> map_option (\<lambda>(offs, cfg). (off # offs, cfg)) (add_capabilities cfg cs))"

subsection \<open>The process address space capability\<close>

definition PASID_CAP_EXEC_PERM :: u32 where "PASID_CAP_EXEC_PERM = 0x00000002"
definition PASID_CAP_PRIV_MODE :: u32 where "PASID_CAP_PRIV_MODE = 0x00000004"
definition PASID_CAP_MAX_WIDTH_SHIFT :: nat where "PASID_CAP_MAX_WIDTH_SHIFT = 8"
definition PASID_CAP_MAX_WIDTH_MASK :: u32 where "PASID_CAP_MAX_WIDTH_MASK = 0x00001f00"
definition PASID_CAP_MAX_WIDTH :: u8 where "PASID_CAP_MAX_WIDTH = 20"

definition pasid_new :: "u8 \<Rightarrow> bool \<Rightarrow> bool \<Rightarrow> u32 list" where
  "pasid_new max_width exec_perm priv_mode =
    (let max_width = min max_width PASID_CAP_MAX_WIDTH;
         value = push_bit PASID_CAP_MAX_WIDTH_SHIFT (ucast max_width) AND PASID_CAP_MAX_WIDTH_MASK;
         value = (if exec_perm then value OR PASID_CAP_EXEC_PERM else value);
         value = (if priv_mode then value OR PASID_CAP_PRIV_MODE else value)
     in [value])"

section \<open>What the guest reads\<close>

definition config_byte :: "pci_configuration \<Rightarrow> nat \<Rightarrow> u8" where
  "config_byte cfg pos = ucast (drop_bit (pos mod 4 * 8) (read_reg cfg (pos div 4)))"

text \<open>The walk of a guest: the offset, the identifier and the first \<open>n\<close> bytes of each capability.\<close>

fun cap_walk :: "nat \<Rightarrow> pci_configuration \<Rightarrow> nat \<Rightarrow> (nat \<times> u8) list" where
  "cap_walk 0 cfg pos = []"
| "cap_walk (Suc fuel) cfg pos =
    (let p = unat (config_byte cfg pos) in
     if p = 0 then [] else (p, config_byte cfg p) # cap_walk fuel cfg (p + 1))"

section \<open>Byte writes\<close>

lemma byte_of_merge:
  assumes "s < 4" and "t < 4"
  shows "(ucast (drop_bit (t * 8) (merge_register r 0xffffffff (push_bit (s * 8) 0xff) (push_bit (s * 8) (ucast (v :: u8))))) :: u8)
    = (if t = s then v else ucast (drop_bit (t * 8) r))"
proof -
  have m: "(0xff :: u32) = mask 8" by (simp add: mask_eq_exp_minus_1)
  show ?thesis
    using assms unfolding merge_register_def m
    by (intro bit_word_eqI) (auto simp: bit_simps dest: bit_imp_le_length)
qed

lemma config_byte_write:
  assumes "length (pc_registers cfg) = NUM_CONFIGURATION_REGISTERS" and "p < 4096"
  shows "config_byte (write_byte_internal cfg p v False) q = (if q = p then v else config_byte cfg q)"
proof (cases "q div 4 = p div 4")
  case True
  have p: "p div 4 < NUM_CONFIGURATION_REGISTERS" using assms(2) by (simp add: pci_consts)
  have eq: "q mod 4 = p mod 4 \<longleftrightarrow> q = p" using True by (metis mod_div_decomp)
  show ?thesis
    using byte_of_merge [of "p mod 4" "q mod 4" "pc_registers cfg ! (p div 4)" v] p assms(1) eq True
    by (simp add: config_byte_def write_byte_internal_def read_reg_def set_register_def Let_def)
next
  case False
  then show ?thesis
    by (auto simp: config_byte_def write_byte_internal_def read_reg_def set_register_def Let_def)
qed

lemma write_byte_internal_frame [simp]:
  "length (pc_registers (write_byte_internal cfg p v m)) = length (pc_registers cfg)"
  "pc_last_capability (write_byte_internal cfg p v m) = pc_last_capability cfg"
  "pc_bars (write_byte_internal cfg p v m) = pc_bars cfg"
  "pc_writable_bits (write_byte_internal cfg p v m) = pc_writable_bits cfg"
  by (simp_all add: write_byte_internal_def set_register_def Let_def)

lemma write_cap_bytes_frame [simp]:
  "length (pc_registers (write_cap_bytes cfg p bs)) = length (pc_registers cfg)"
  by (induction bs arbitrary: cfg p) simp_all

lemma config_byte_write_bytes:
  assumes "length (pc_registers cfg) = NUM_CONFIGURATION_REGISTERS" and "p + length bs \<le> 4096"
  shows "config_byte (write_cap_bytes cfg p bs) q =
    (if p \<le> q \<and> q < p + length bs then bs ! (q - p) else config_byte cfg q)"
  using assms
proof (induction bs arbitrary: cfg p)
  case Nil
  then show ?case by auto
next
  case (Cons b bs)
  then show ?case
    by (auto simp: config_byte_write nth_Cons')
qed

section \<open>The list\<close>

text \<open>The capabilities that hang off a pointer, and the space they take.\<close>

type_synonym cap_entry = "nat \<times> u8 \<times> u8 list"

fun caps_at :: "pci_configuration \<Rightarrow> nat \<Rightarrow> cap_entry list \<Rightarrow> bool" where
  "caps_at cfg p [] \<longleftrightarrow> config_byte cfg p = 0"
| "caps_at cfg p ((off, i, bs) # es) \<longleftrightarrow>
     unat (config_byte cfg p) = off \<and> config_byte cfg off = i
     \<and> (\<forall>k < length bs. config_byte cfg (off + 2 + k) = bs ! k) \<and> caps_at cfg (off + 1) es"

fun spaced :: "nat \<Rightarrow> cap_entry list \<Rightarrow> nat \<Rightarrow> bool" where
  "spaced lo [] hi \<longleftrightarrow> lo \<le> hi"
| "spaced lo ((off, i, bs) # es) hi \<longleftrightarrow> lo \<le> off \<and> spaced (off + 2 + length bs) es hi"

definition tail_pos :: "nat \<Rightarrow> cap_entry list \<Rightarrow> nat" where
  "tail_pos p es = (if es = [] then p else fst (last es) + 1)"

lemma spaced_le: "spaced lo es hi \<Longrightarrow> lo \<le> hi"
  by (induction lo es hi rule: spaced.induct) auto

lemma spaced_tail: "spaced lo es hi \<Longrightarrow> es \<noteq> [] \<Longrightarrow> lo < tail_pos p es \<and> tail_pos p es < hi"
proof (induction lo es hi arbitrary: p rule: spaced.induct)
  case (2 lo off i bs es hi)
  show ?case
  proof (cases "es = []")
    case True
    then show ?thesis using 2 by (simp add: tail_pos_def)
  next
    case False
    then have "tail_pos p ((off, i, bs) # es) = tail_pos p es" by (simp add: tail_pos_def)
    moreover have "off + 2 + length bs < tail_pos p es \<and> tail_pos p es < hi"
      using 2 False by simp
    ultimately show ?thesis using "2.prems"(1) by simp
  qed
qed simp

lemma spaced_snoc:
  "spaced lo (es @ [(off, i, bs)]) hi \<longleftrightarrow> spaced lo es off \<and> off + 2 + length bs \<le> hi"
  by (induction lo es off rule: spaced.induct) auto

lemma caps_at_snoc:
  assumes "caps_at cfg p es" and "spaced lo es off" and "p < lo"
    and keep: "\<And>q. 8 \<le> q \<Longrightarrow> q < off \<Longrightarrow> q \<noteq> tail_pos p es \<Longrightarrow> config_byte cfg' q = config_byte cfg q"
    and link: "unat (config_byte cfg' (tail_pos p es)) = off"
    and new: "config_byte cfg' off = i" "config_byte cfg' (off + 1) = 0"
      "\<And>k. k < length bs \<Longrightarrow> config_byte cfg' (off + 2 + k) = bs ! k"
    and p: "8 \<le> p"
  shows "caps_at cfg' p (es @ [(off, i, bs)])"
  using assms
proof (induction es arbitrary: p lo)
  case Nil
  then show ?case by (simp add: tail_pos_def)
next
  case (Cons e es)
  obtain a j ds where e: "e = (a, j, ds)" by (cases e)
  have sp: "lo \<le> a" "spaced (a + 2 + length ds) es off" using Cons.prems(2) by (auto simp: e)
  have tail: "tail_pos p (e # es) = tail_pos (a + 1) es" by (simp add: tail_pos_def e)
  have lt: "a + 2 + length ds \<le> off" by (rule spaced_le [OF sp(2)])
  have far: "tail_pos (a + 1) es \<noteq> q" if "q < a + 2 + length ds" "q \<noteq> a + 1" for q
    using spaced_tail [OF sp(2), of "a + 1"] that by (cases "es = []") (auto simp: tail_pos_def)
  have same: "config_byte cfg' q = config_byte cfg q" if "8 \<le> q" "q < a + 2 + length ds" "q \<noteq> a + 1" for q
    using Cons.prems(4) [of q] far [OF that(2,3)] that lt by (simp add: tail)
  have c: "caps_at cfg (a + 1) es" and pt: "unat (config_byte cfg p) = a" "config_byte cfg a = j"
    and ds: "\<forall>k < length ds. config_byte cfg (a + 2 + k) = ds ! k"
    using Cons.prems(1) by (simp_all add: e)
  have p8: "8 \<le> a" using Cons.prems(3,9) sp by simp
  have "caps_at cfg' (a + 1) (es @ [(off, i, bs)])"
    by (rule Cons.IH [OF c sp(2)]) (use Cons.prems(4-8) p8 in \<open>simp_all add: tail\<close>)
  moreover have "unat (config_byte cfg' p) = a" "config_byte cfg' a = j"
    using same [of p] same [of a] Cons.prems(3,9) sp pt p8 by simp_all
  moreover have "config_byte cfg' (a + 2 + k) = ds ! k" if "k < length ds" for k
    using same [of "a + 2 + k"] ds p8 that by simp
  ultimately show ?case by (simp add: e)
qed

text \<open>
  The state of a configuration whose capabilities are \<open>es\<close>; the capabilities are as long as those of
  the code base, whose length leaves a remainder of one or two, so that the header fits.
\<close>

definition fits_header :: "u8 list \<Rightarrow> bool" where
  "fits_header bs \<longleftrightarrow> length bs mod 4 = 1 \<or> length bs mod 4 = 2"

definition caps_inv :: "pci_configuration \<Rightarrow> cap_entry list \<Rightarrow> bool" where
  "caps_inv cfg es \<longleftrightarrow>
    length (pc_registers cfg) = NUM_CONFIGURATION_REGISTERS
    \<and> caps_at cfg CAPABILITY_LIST_HEAD_OFFSET es
    \<and> (if es = [] then pc_last_capability cfg = None
       else case last es of (off, i, bs) \<Rightarrow>
         pc_last_capability cfg = Some (off, length bs)
         \<and> spaced FIRST_CAPABILITY_OFFSET es (next_dword off (length bs)) \<and> off mod 4 = 0)"

lemma next_dword_bound: "off mod 4 = 0 \<Longrightarrow> fits_header bs \<Longrightarrow> off + 2 + length bs \<le> next_dword off (length bs)"
  by (simp add: next_dword_def fits_header_def) presburger

lemma next_dword_mod: "next_dword off len mod 4 = 0"
  by (simp add: next_dword_def)

lemma cap_writable_frame [simp]:
  "pc_registers (cap_writable i off cfg) = pc_registers cfg"
  "pc_last_capability (cap_writable i off cfg) = pc_last_capability cfg"
  "config_byte (cap_writable i off cfg) = config_byte cfg"
  by (cases i; simp add: cap_writable_def set_writable_def config_byte_def read_reg_def fun_eq_iff)+

lemma add_capability_bytes:
  assumes len: "length (pc_registers cfg) = NUM_CONFIGURATION_REGISTERS" and small: "off + length bytes \<le> CAPABILITY_MAX_OFFSET"
    and tp: "tp < off" and q: "8 \<le> q"
  shows "config_byte (write_cap_bytes (write_byte_internal (write_byte_internal (write_byte_internal
      (set_register STATUS_REG s cfg) tp (of_nat off) False) off v False) (off + 1) 0 False) (off + 2) bytes) q =
    (if q = tp then of_nat off else if q = off then v else if q = off + 1 then 0
     else if off + 2 \<le> q \<and> q < off + 2 + length bytes then bytes ! (q - (off + 2)) else config_byte cfg q)"
proof -
  have "config_byte (set_register STATUS_REG s cfg) q = config_byte cfg q"
    using q by (simp add: config_byte_def read_reg_def set_register_def pci_consts)
  then show ?thesis
    using assms(1-3)
    by (simp add: config_byte_write_bytes config_byte_write pci_consts set_register_def)
qed

lemma add_capability_inv:
  assumes inv: "caps_inv cfg es" and fit: "fits_header bytes"
    and add: "add_capability cfg ident bytes = (Inr off, cfg')"
  shows "caps_inv cfg' (es @ [(off, capability_id_value ident, bytes)])"
proof -
  define tp where "tp = tail_pos CAPABILITY_LIST_HEAD_OFFSET es"
  have len: "length (pc_registers cfg) = NUM_CONFIGURATION_REGISTERS" and at: "caps_at cfg CAPABILITY_LIST_HEAD_OFFSET es"
    using inv by (auto simp: caps_inv_def)
  obtain a b where ab: "(case pc_last_capability cfg of
                Some (offset, len) \<Rightarrow> (next_dword offset len, offset + 1)
              | None \<Rightarrow> (FIRST_CAPABILITY_OFFSET, CAPABILITY_LIST_HEAD_OFFSET)) = (a, b)"
    by (rule prod.exhaust)
  have ab': "b = tp \<and> spaced FIRST_CAPABILITY_OFFSET es a \<and> a mod 4 = 0"
    using inv ab by (cases "es = []") (auto simp: caps_inv_def tp_def tail_pos_def pci_consts next_dword_mod)
  have add': "off = a" "off + length bytes \<le> CAPABILITY_MAX_OFFSET"
    "cfg' = cap_writable ident off (write_cap_bytes (write_byte_internal (write_byte_internal (write_byte_internal
      (set_register STATUS_REG (pc_registers cfg ! STATUS_REG OR STATUS_REG_CAPABILITIES_USED_MASK) cfg) tp (of_nat off) False)
      off (capability_id_value ident) False) (off + 1) 0 False) (off + 2) bytes\<lparr> pc_last_capability := Some (off, length bytes) \<rparr>)"
    using add ab ab' by (auto simp: add_capability_def Let_def split: if_splits)
  have sp: "spaced FIRST_CAPABILITY_OFFSET es off" and m4: "off mod 4 = 0" using ab' add' by auto
  have tp: "tp < off" using sp spaced_tail [OF sp, of CAPABILITY_LIST_HEAD_OFFSET]
    by (cases "es = []") (auto simp: tp_def tail_pos_def pci_consts)
  have upd: "config_byte (c\<lparr> pc_last_capability := l \<rparr>) = config_byte c" for c l
    by (simp add: config_byte_def read_reg_def fun_eq_iff)
  note bytes = add_capability_bytes [OF len add'(2) tp]
  have cb: "config_byte cfg' q =
    (if q = tp then of_nat off else if q = off then capability_id_value ident else if q = off + 1 then 0
     else if off + 2 \<le> q \<and> q < off + 2 + length bytes then bytes ! (q - (off + 2)) else config_byte cfg q)" if "8 \<le> q" for q
    using bytes [OF that] by (simp add: add'(3) upd)
  have lo: "FIRST_CAPABILITY_OFFSET \<le> off" by (rule spaced_le [OF sp])
  have tp8: "8 \<le> tp"
    using spaced_tail [OF sp, of CAPABILITY_LIST_HEAD_OFFSET] by (cases "es = []") (auto simp: tp_def tail_pos_def pci_consts)
  have "caps_at cfg' CAPABILITY_LIST_HEAD_OFFSET (es @ [(off, capability_id_value ident, bytes)])"
  proof (rule caps_at_snoc [OF at sp], goal_cases)
    case 1
    then show ?case by (simp add: pci_consts)
  next
    case (2 q)
    then show ?case using cb [of q] by (simp add: tp_def)
  next
    case 3
    then show ?case
      using cb [OF tp8] add'(2) by (simp add: tp_def [symmetric] unat_of_nat CAPABILITY_MAX_OFFSET_def)
  qed (use cb lo tp in \<open>simp_all add: pci_consts\<close>)
  moreover have "length (pc_registers cfg') = NUM_CONFIGURATION_REGISTERS"
    using len by (simp add: add'(3) set_register_def)
  moreover have "pc_last_capability cfg' = Some (off, length bytes)" by (simp add: add'(3))
  ultimately show ?thesis
    using sp m4 next_dword_bound [OF m4 fit] by (simp add: caps_inv_def spaced_snoc)
qed

lemma add_capabilities_inv:
  assumes "caps_inv cfg es" and "\<forall>c \<in> set caps. fits_header (snd c)"
    and "add_capabilities cfg caps = Some (offs, cfg')"
  shows "length offs = length caps
    \<and> caps_inv cfg' (es @ map2 (\<lambda>off (ident, bytes). (off, capability_id_value ident, bytes)) offs caps)"
  using assms
proof (induction caps arbitrary: cfg es offs)
  case Nil
  then show ?case by simp
next
  case (Cons c caps)
  obtain ident bytes where c: "c = (ident, bytes)" by (cases c)
  from Cons.prems(3) obtain off cfg1 offs1 where a: "add_capability cfg ident bytes = (Inr off, cfg1)"
    and rest: "add_capabilities cfg1 caps = Some (offs1, cfg')" and offs: "offs = off # offs1"
    by (auto simp: c split: prod.splits sum.splits)
  have "caps_inv cfg1 (es @ [(off, capability_id_value ident, bytes)])"
    using add_capability_inv [OF Cons.prems(1) _ a] Cons.prems(2) by (simp add: c)
  from Cons.IH [OF this _ rest] Cons.prems(2) show ?case by (simp add: offs c)
qed

lemma cap_walk_at:
  assumes "caps_at cfg p es" and "spaced lo es hi" and "0 < lo" and "length es < fuel"
  shows "cap_walk fuel cfg p = map (\<lambda>(off, i, bs). (off, i)) es"
  using assms
proof (induction es arbitrary: p lo fuel)
  case Nil
  then show ?case by (cases fuel) simp_all
next
  case (Cons e es)
  obtain off i bs where e: "e = (off, i, bs)" by (cases e)
  obtain n where fuel: "fuel = Suc n" using Cons.prems(4) by (cases fuel) auto
  have "cap_walk n cfg (off + 1) = map (\<lambda>(off, i, bs). (off, i)) es"
    using Cons.prems by (intro Cons.IH [of "off + 1" "off + 2 + length bs"]) (simp_all add: e fuel)
  then show ?case using Cons.prems by (simp add: e fuel Let_def)
qed

lemma caps_at_bytes:
  "caps_at cfg p es \<Longrightarrow> (off, i, bs) \<in> set es \<Longrightarrow> k < length bs \<Longrightarrow> config_byte cfg (off + 2 + k) = bs ! k"
  by (induction cfg p es rule: caps_at.induct) auto

lemma caps_inv_new:
  assumes "pci_configuration_new f mx None = Some cfg"
  shows "caps_inv cfg []"
proof -
  have "pc_registers cfg = fresh_registers f" "pc_last_capability cfg = None"
    using assms by (auto simp: pci_configuration_new_def fixup_pending_bar_reprogram_def)
  then show ?thesis
    by (simp add: caps_inv_def config_byte_def read_reg_def fresh_registers_def pci_consts)
qed

lemma walk_of_inv:
  assumes "caps_inv cfg es"
  shows "cap_walk (Suc (length es)) cfg CAPABILITY_LIST_HEAD_OFFSET = map (\<lambda>(off, i, bs). (off, i)) es"
proof -
  have "\<exists>hi. spaced FIRST_CAPABILITY_OFFSET es hi"
    using assms by (cases "es = []") (auto simp: caps_inv_def split: prod.splits)
  then obtain hi where sp: "spaced FIRST_CAPABILITY_OFFSET es hi" by blast
  have "caps_at cfg CAPABILITY_LIST_HEAD_OFFSET es" using assms by (simp add: caps_inv_def)
  from cap_walk_at [OF this sp, of "Suc (length es)"] show ?thesis by (simp add: FIRST_CAPABILITY_OFFSET_def)
qed

text \<open>
  C0: a guest that walks the capability list of a new function finds the capabilities in the order
  in which they were added, each with its identifier and with all its bytes after the header.
\<close>
theorem capability_list:
  assumes new: "pci_configuration_new f mx None = Some cfg"
    and fit: "\<forall>c \<in> set caps. fits_header (snd c)"
    and add: "add_capabilities cfg caps = Some (offs, cfg')"
  shows "length offs = length caps
    \<and> cap_walk (Suc (length caps)) cfg' CAPABILITY_LIST_HEAD_OFFSET
        = zip offs (map (\<lambda>c. capability_id_value (fst c)) caps)
    \<and> (\<forall>k < length caps. \<forall>j < length (snd (caps ! k)).
        config_byte cfg' (offs ! k + 2 + j) = snd (caps ! k) ! j)"
proof -
  let ?es = "map2 (\<lambda>off (ident, bytes). (off, capability_id_value ident, bytes)) offs caps"
  have inv: "length offs = length caps" "caps_inv cfg' ?es"
    using add_capabilities_inv [OF caps_inv_new [OF new] fit add] by auto
  have "map (\<lambda>(off, i, bs). (off, i)) ?es = zip offs (map (\<lambda>c. capability_id_value (fst c)) caps)"
    using inv(1) by (intro nth_equalityI) (auto simp: case_prod_unfold)
  with walk_of_inv [OF inv(2)] inv(1)
  have "cap_walk (Suc (length caps)) cfg' CAPABILITY_LIST_HEAD_OFFSET
      = zip offs (map (\<lambda>c. capability_id_value (fst c)) caps)" by simp
  moreover have "config_byte cfg' (offs ! k + 2 + j) = snd (caps ! k) ! j"
    if "k < length caps" "j < length (snd (caps ! k))" for k j
  proof -
    have "?es ! k \<in> set ?es" using that inv(1) by (intro nth_mem) simp
    then have "(offs ! k, capability_id_value (fst (caps ! k)), snd (caps ! k)) \<in> set ?es"
      using that inv(1) by (simp add: case_prod_unfold)
    moreover have "caps_at cfg' CAPABILITY_LIST_HEAD_OFFSET ?es" using inv(2) by (simp add: caps_inv_def)
    ultimately show ?thesis using caps_at_bytes that(2) by blast
  qed
  ultimately show ?thesis using inv(1) by blast
qed

text \<open>A virtio-like function with an MSI-X capability of ten bytes and a vendor capability of one.\<close>

definition demo_caps :: "(pci_capability_id \<times> u8 list) list" where
  "demo_caps = [(MsiX, [1, 128, 0, 0, 2, 0, 0, 0, 2, 8]), (VendorSpecific, [7])]"

theorem capability_list_witness:
  "\<exists>cfg'. add_capabilities demo_config demo_caps = Some ([64, 76], cfg')
    \<and> cap_walk 3 cfg' 0x34 = [(64, 0x11), (76, 0x09)] \<and> config_byte cfg' 74 = 2 \<and> config_byte cfg' 75 = 8"
proof -
  have last: "pc_last_capability demo_config = None"
    using caps_inv_new [OF demo_config_new] by (simp add: caps_inv_def)
  obtain cfg' where add: "add_capabilities demo_config demo_caps = Some ([64, 76], cfg')"
    by (simp add: demo_caps_def add_capability_def last pci_consts next_dword_def Let_def set_register_def)
  have "\<forall>c \<in> set demo_caps. fits_header (snd c)" by (simp add: demo_caps_def fits_header_def)
  note th = capability_list [OF demo_config_new this add]
  have "config_byte cfg' (64 + 2 + 8) = 2" "config_byte cfg' (64 + 2 + 9) = 8"
    using th [THEN conjunct2, THEN conjunct2, rule_format, of 0 8] th [THEN conjunct2, THEN conjunct2, rule_format, of 0 9]
    by (simp_all add: demo_caps_def)
  moreover have "cap_walk 3 cfg' 0x34 = [(64, 0x11), (76, 0x09)]"
    using th by (simp add: demo_caps_def pci_consts eval_nat_numeral)
  ultimately show ?thesis using add by simp
qed

text \<open>
  A capability of any other length runs into the next one: the offset of the next capability is
  computed without the two bytes of the header.
\<close>

lemma capability_overlap:
  assumes "pc_last_capability cfg = Some (off, len)" and "off mod 4 = 0" and "len mod 4 = 3 \<or> len mod 4 = 0"
    and "add_capability cfg ident bytes = (Inr off', cfg')"
  shows "off' < off + 2 + len"
proof -
  have "off' = next_dword off len"
    using assms(1,4) by (auto simp: add_capability_def Let_def split: if_splits)
  then show ?thesis using assms(2,3) by (simp add: next_dword_def) presburger
qed

text \<open>The identifiers read back, and a width that does not fit is capped.\<close>

lemma capability_id_roundtrip: "capability_id_of (capability_id_value i) = i"
  by (cases i) (simp_all add: capability_id_of_def)

lemma pasid_width: "unat (drop_bit 8 (pasid_new w e p ! 0) AND 0x1f) = min (unat w) 20"
proof -
  let ?v = "ucast (min w 20) :: u32"
  have v: "unat ?v = min (unat w) 20" by (auto simp: min_def word_le_nat_alt unsigned_ucast_eq take_bit_nat_eq_self)
  have m: "(0x1f :: u32) = mask 5" "(0x1f00 :: u32) = push_bit 8 (mask 5)" by (simp_all add: mask_eq_exp_minus_1)
  have small: "take_bit 5 ?v = ?v"
    by (rule word_unat_eq_iff [THEN iffD2]) (simp add: v unsigned_take_bit_eq take_bit_nat_eq_self)
  have low: "drop_bit 8 (2 :: u32) = 0" "drop_bit 8 (4 :: u32) = 0" by code_simp+
  have "drop_bit 8 (pasid_new w e p ! 0) AND 0x1f = take_bit 5 ?v"
    unfolding pasid_new_def PASID_CAP_EXEC_PERM_def PASID_CAP_PRIV_MODE_def PASID_CAP_MAX_WIDTH_SHIFT_def
      PASID_CAP_MAX_WIDTH_MASK_def PASID_CAP_MAX_WIDTH_def m
    by (simp add: Let_def drop_bit_or low) (rule bit_word_eqI, auto simp: bit_simps)
  with small v show ?thesis by simp
qed

end
