(* ===== verification/PciBus.thy ===== *)
theory PciBus
  imports PciBars
begin

text \<open>
  \<^verbatim>\<open>pci/src/bus.rs\<close>: the PCI bus, the two mechanisms by which the guest reaches the configuration
  space (the port pair 0xcf8/0xcfc and the memory-mapped window) and the bookkeeping of device
  slots.  The devices are shared objects: the bus holds handles, and the operations take and return
  the heap \<open>'h \<Rightarrow> 'd\<close> of the devices behind them.  A device is what the trait \<open>PciDevice\<close> of
  \<^verbatim>\<open>pci/src/device.rs\<close> offers (\<open>pci_device_ops\<close>), and \<open>DeviceRelocation\<close> is a function on the
  device and the state \<open>'s\<close> of its owner.  \<open>None\<close> is a panic.
\<close>

section \<open>Model\<close>

subsection \<open>The traits\<close>

record ('d, 'b) pci_device_ops =
  dev_write_config :: "nat \<Rightarrow> u64 \<Rightarrow> u8 list \<Rightarrow> 'd \<Rightarrow> (bar_reprogramming_params list \<times> 'b option \<times> 'd) option"
  dev_read_config :: "nat \<Rightarrow> 'd \<Rightarrow> u32 \<times> 'd"
  dev_restore_bar :: "bar_reprogramming_params \<Rightarrow> 'd \<Rightarrow> 'd option"

text \<open>\<open>DeviceRelocation::move_bar\<close>: BAR index, old base, new base, length, region type, device.\<close>

type_synonym ('d, 's, 'e) relocation =
  "nat \<Rightarrow> u64 \<Rightarrow> u64 \<Rightarrow> u64 \<Rightarrow> pci_bar_region_type \<Rightarrow> 'd \<Rightarrow> 's \<Rightarrow> (('e + unit) \<times> 'd \<times> 's) option"

subsection \<open>Device slots\<close>

definition NUM_DEVICE_IDS :: nat where "NUM_DEVICE_IDS = 32"
definition PCI_ROOT_DEVICE_ID :: u8 where "PCI_ROOT_DEVICE_ID = 0"

datatype device_id_state = FreeId | ReservedId | AllocatedId

datatype pci_root_error =
  NoPciDeviceSlotAvailable | InvalidPciDeviceSlot nat | AlreadyInUsePciDeviceSlot nat

record 'h pci_bus =
  pbus_devices :: "u8 \<rightharpoonup> 'h"
  pbus_device_ids :: "device_id_state list"

definition pci_bus_new :: "'h option \<Rightarrow> 'h pci_bus" where
  "pci_bus_new pci_root =
    (let ids = replicate NUM_DEVICE_IDS FreeId in
     case pci_root of
       None \<Rightarrow> \<lparr> pbus_devices = Map.empty, pbus_device_ids = ids \<rparr>
     | Some h \<Rightarrow> \<lparr> pbus_devices = [PCI_ROOT_DEVICE_ID \<mapsto> h],
                   pbus_device_ids = ids[unat PCI_ROOT_DEVICE_ID := AllocatedId] \<rparr>)"

definition pci_add_device :: "'h pci_bus \<Rightarrow> u8 \<Rightarrow> 'h \<Rightarrow> 'h pci_bus" where
  "pci_add_device b device_id h = b\<lparr> pbus_devices := (pbus_devices b)(device_id \<mapsto> h) \<rparr>"

definition pci_remove_by_device :: "'h pci_bus \<Rightarrow> 'h \<Rightarrow> 'h pci_bus" where
  "pci_remove_by_device b h =
    b\<lparr> pbus_devices := (\<lambda>i. if pbus_devices b i = Some h then None else pbus_devices b i) \<rparr>"

definition reserve_device_id :: "'h pci_bus \<Rightarrow> u8 \<Rightarrow> (pci_root_error + u8) \<times> 'h pci_bus" where
  "reserve_device_id b i =
    (let idx = unat i in
     if idx < NUM_DEVICE_IDS
     then if pbus_device_ids b ! idx = FreeId
          then (Inr i, b\<lparr> pbus_device_ids := (pbus_device_ids b)[idx := ReservedId] \<rparr>)
          else (Inl (AlreadyInUsePciDeviceSlot idx), b)
     else (Inl (InvalidPciDeviceSlot idx), b))"

definition allocate_device_id :: "'h pci_bus \<Rightarrow> u8 option \<Rightarrow> (pci_root_error + u8) \<times> 'h pci_bus" where
  "allocate_device_id b wanted =
    (case wanted of
       Some i \<Rightarrow>
         let idx = unat i in
         if idx < NUM_DEVICE_IDS
         then if pbus_device_ids b ! idx = AllocatedId
              then (Inl (AlreadyInUsePciDeviceSlot idx), b)
              else (Inr (of_nat idx), b\<lparr> pbus_device_ids := (pbus_device_ids b)[idx := AllocatedId] \<rparr>)
         else (Inl (InvalidPciDeviceSlot idx), b)
     | None \<Rightarrow>
         (case position (\<lambda>s. s = FreeId) (pbus_device_ids b) of
            Some idx \<Rightarrow> (Inr (of_nat idx), b\<lparr> pbus_device_ids := (pbus_device_ids b)[idx := AllocatedId] \<rparr>)
          | None \<Rightarrow> (Inl NoPciDeviceSlotAvailable, b)))"

definition free_device_id :: "'h pci_bus \<Rightarrow> u8 \<Rightarrow> (pci_root_error + unit) \<times> 'h pci_bus" where
  "free_device_id b i =
    (if unat i < NUM_DEVICE_IDS
     then (Inr (), b\<lparr> pbus_device_ids := (pbus_device_ids b)[unat i := FreeId] \<rparr>)
     else (Inl (InvalidPciDeviceSlot (unat i)), b))"

subsection \<open>BAR moves\<close>

fun apply_bar_reprogramming ::
  "('d, 's, 'e) relocation \<Rightarrow> ('d, 'b) pci_device_ops \<Rightarrow> bar_reprogramming_params list \<Rightarrow> 'd \<Rightarrow> 's
     \<Rightarrow> ('d \<times> 's) option" where
  "apply_bar_reprogramming R P [] d s = Some (d, s)"
| "apply_bar_reprogramming R P (p # ps) d s =
    (case rp_bar_idx p of
       None \<Rightarrow> None
     | Some i \<Rightarrow>
         (case R i (rp_old_base p) (rp_new_base p) (rp_len p) (rp_region_type p) d s of
            None \<Rightarrow> None
          | Some (Inr _, d, s) \<Rightarrow> apply_bar_reprogramming R P ps d s
          | Some (Inl _, d, s) \<Rightarrow>
              (case dev_restore_bar P p d of
                 None \<Rightarrow> None
               | Some d \<Rightarrow> apply_bar_reprogramming R P ps d s)))"

text \<open>The write of a register of a device, with the moves it causes.\<close>

definition device_config_write ::
  "('d, 's, 'e) relocation \<Rightarrow> ('d, 'b) pci_device_ops \<Rightarrow> nat \<Rightarrow> u64 \<Rightarrow> u8 list \<Rightarrow> 'd \<Rightarrow> 's
     \<Rightarrow> ('b option \<times> 'd \<times> 's) option" where
  "device_config_write R P reg offset data d s =
    (case dev_write_config P reg offset data d of
       None \<Rightarrow> None
     | Some (ms, ret, d) \<Rightarrow> map_option (\<lambda>(d, s). (ret, d, s)) (apply_bar_reprogramming R P ms d s))"

subsection \<open>Addresses\<close>

definition shift_and_mask :: "u32 \<Rightarrow> nat \<Rightarrow> u32 \<Rightarrow> nat" where
  "shift_and_mask value offset m = unat (drop_bit offset value AND m)"

definition parse_mmio_config_address :: "u32 \<Rightarrow> nat \<times> nat \<times> nat \<times> nat" where
  "parse_mmio_config_address a =
    (shift_and_mask a 20 0x00ff, shift_and_mask a 15 0x1f, shift_and_mask a 12 0x07, shift_and_mask a 2 0x3ff)"

definition parse_io_config_address :: "u32 \<Rightarrow> nat \<times> nat \<times> nat \<times> nat" where
  "parse_io_config_address a =
    (shift_and_mask a 16 0x00ff, shift_and_mask a 11 0x1f, shift_and_mask a 8 0x07, shift_and_mask a 2 0x3f)"

subsection \<open>Access through ports\<close>

definition bus_config_read ::
  "('d, 'b) pci_device_ops \<Rightarrow> 'h pci_bus \<Rightarrow> nat \<Rightarrow> nat \<Rightarrow> ('h \<Rightarrow> 'd) \<Rightarrow> u32 \<times> ('h \<Rightarrow> 'd)" where
  "bus_config_read P b device register heap =
    (case pbus_devices b (of_nat device) of
       None \<Rightarrow> (0xffffffff, heap)
     | Some h \<Rightarrow> (case dev_read_config P register (heap h) of (v, d) \<Rightarrow> (v, heap(h := d))))"

definition bus_config_write ::
  "('d, 's, 'e) relocation \<Rightarrow> ('d, 'b) pci_device_ops \<Rightarrow> 'h pci_bus \<Rightarrow> nat \<Rightarrow> nat \<Rightarrow> u64 \<Rightarrow> u8 list
     \<Rightarrow> ('h \<Rightarrow> 'd) \<Rightarrow> 's \<Rightarrow> ('b option \<times> ('h \<Rightarrow> 'd) \<times> 's) option" where
  "bus_config_write R P b device register offset data heap s =
    (case pbus_devices b (of_nat device) of
       None \<Rightarrow> Some (None, heap, s)
     | Some h \<Rightarrow>
         map_option (\<lambda>(ret, d, s). (ret, heap(h := d), s))
           (device_config_write R P register offset data (heap h) s))"

definition io_config_space_read ::
  "('d, 'b) pci_device_ops \<Rightarrow> 'h pci_bus \<Rightarrow> u32 \<Rightarrow> ('h \<Rightarrow> 'd) \<Rightarrow> u32 \<times> ('h \<Rightarrow> 'd)" where
  "io_config_space_read P b config_address heap =
    (if config_address AND 0x80000000 = 0 then (0xffffffff, heap)
     else
       (case parse_io_config_address (config_address AND NOT 0x80000000) of
          (bus, device, function, register) \<Rightarrow>
            if bus \<noteq> 0 then (0xffffffff, heap)
            else if 0 < function then (0xffffffff, heap)
            else bus_config_read P b device register heap))"

definition io_config_space_write ::
  "('d, 's, 'e) relocation \<Rightarrow> ('d, 'b) pci_device_ops \<Rightarrow> 'h pci_bus \<Rightarrow> u32 \<Rightarrow> u64 \<Rightarrow> u8 list
     \<Rightarrow> ('h \<Rightarrow> 'd) \<Rightarrow> 's \<Rightarrow> ('b option \<times> ('h \<Rightarrow> 'd) \<times> 's) option" where
  "io_config_space_write R P b config_address offset data heap s =
    (if 4 < (unat offset + length data) mod 2 ^ 64 then Some (None, heap, s)
     else if config_address AND 0x80000000 = 0 then Some (None, heap, s)
     else
       (case parse_io_config_address (config_address AND NOT 0x80000000) of
          (bus, device, function, register) \<Rightarrow>
            if bus \<noteq> 0 then Some (None, heap, s)
            else bus_config_write R P b device register offset data heap s))"

definition set_config_address :: "byteorder_ops \<Rightarrow> u32 \<Rightarrow> u64 \<Rightarrow> u8 list \<Rightarrow> u32" where
  "set_config_address B config_address offset data =
    (if 4 < (unat offset + length data) mod 2 ^ 64 then config_address
     else
       let shift = unat (offset * 8) mod 32 in
       if length data = 1
       then (config_address AND NOT (push_bit shift 0x000000ff)) OR push_bit shift (ucast (data ! 0))
       else if length data = 2
       then (config_address AND NOT (push_bit shift 0x0000ffff))
            OR push_bit shift (push_bit 8 (ucast (data ! 1)) OR ucast (data ! 0))
       else if length data = 4 then (config_address AND NOT 0xffffffff) OR read_u32 B data
       else config_address)"

text \<open>The bytes of a register that an access of \<open>n\<close> bytes at an offset returns.\<close>

definition register_bytes :: "u32 \<Rightarrow> nat \<Rightarrow> nat \<Rightarrow> u8 list" where
  "register_bytes value start n = map (\<lambda>i. ucast (drop_bit (i * 8) value)) [start..<start + n]"

definition config_io_read ::
  "('d, 'b) pci_device_ops \<Rightarrow> 'h pci_bus \<Rightarrow> u32 \<Rightarrow> u64 \<Rightarrow> u8 list \<Rightarrow> ('h \<Rightarrow> 'd) \<Rightarrow> u8 list \<times> ('h \<Rightarrow> 'd)" where
  "config_io_read P b config_address offset data heap =
    (case (if offset \<le> 3 then (config_address, heap)
           else if offset \<le> 7 then io_config_space_read P b config_address heap
           else (0xffffffff, heap)) of
       (value, heap) \<Rightarrow>
         let start = unat offset mod 4 in
         (if start + length data \<le> 4 then register_bytes value start (length data)
          else replicate (length data) 0xff, heap))"

definition config_io_write ::
  "byteorder_ops \<Rightarrow> ('d, 's, 'e) relocation \<Rightarrow> ('d, 'b) pci_device_ops \<Rightarrow> 'h pci_bus \<Rightarrow> u32 \<Rightarrow> u64
     \<Rightarrow> u8 list \<Rightarrow> ('h \<Rightarrow> 'd) \<Rightarrow> 's \<Rightarrow> (u32 \<times> 'b option \<times> ('h \<Rightarrow> 'd) \<times> 's) option" where
  "config_io_write B R P b config_address offset data heap s =
    (if offset \<le> 3 then Some (set_config_address B config_address offset data, None, heap, s)
     else if offset \<le> 7
     then map_option (\<lambda>(ret, heap, s). (config_address, ret, heap, s))
            (io_config_space_write R P b config_address (offset - 4) data heap s)
     else Some (config_address, None, heap, s))"

subsection \<open>Access through memory\<close>

definition mmio_config_space_read ::
  "('d, 'b) pci_device_ops \<Rightarrow> 'h pci_bus \<Rightarrow> u32 \<Rightarrow> ('h \<Rightarrow> 'd) \<Rightarrow> u32 \<times> ('h \<Rightarrow> 'd)" where
  "mmio_config_space_read P b config_address heap =
    (case parse_mmio_config_address config_address of
       (bus, device, function, register) \<Rightarrow>
         if bus \<noteq> 0 then (0xffffffff, heap) else bus_config_read P b device register heap)"

definition mmio_config_space_write ::
  "('d, 's, 'e) relocation \<Rightarrow> ('d, 'b) pci_device_ops \<Rightarrow> 'h pci_bus \<Rightarrow> u32 \<Rightarrow> u64 \<Rightarrow> u8 list
     \<Rightarrow> ('h \<Rightarrow> 'd) \<Rightarrow> 's \<Rightarrow> (('h \<Rightarrow> 'd) \<times> 's) option" where
  "mmio_config_space_write R P b config_address offset data heap s =
    (if 4 < (unat offset + length data) mod 2 ^ 64 then Some (heap, s)
     else
       (case parse_mmio_config_address config_address of
          (bus, device, function, register) \<Rightarrow>
            if bus \<noteq> 0 then Some (heap, s)
            else map_option snd (bus_config_write R P b device register offset data heap s)))"

definition config_mmio_read ::
  "('d, 'b) pci_device_ops \<Rightarrow> 'h pci_bus \<Rightarrow> u64 \<Rightarrow> u8 list \<Rightarrow> ('h \<Rightarrow> 'd) \<Rightarrow> u8 list \<times> ('h \<Rightarrow> 'd)" where
  "config_mmio_read P b offset data heap =
    (let start = unat offset mod 4 in
     if 4 < start + length data \<or> 0xffffffff < offset then (replicate (length data) 0xff, heap)
     else
       (case mmio_config_space_read P b (ucast offset) heap of
          (value, heap) \<Rightarrow> (register_bytes value start (length data), heap)))"

definition config_mmio_write ::
  "('d, 's, 'e) relocation \<Rightarrow> ('d, 'b) pci_device_ops \<Rightarrow> 'h pci_bus \<Rightarrow> u64 \<Rightarrow> u8 list
     \<Rightarrow> ('h \<Rightarrow> 'd) \<Rightarrow> 's \<Rightarrow> (('h \<Rightarrow> 'd) \<times> 's) option" where
  "config_mmio_write R P b offset data heap s =
    (if 0xffffffff < offset then Some (heap, s)
     else mmio_config_space_write R P b (ucast offset) (offset mod 4) data heap s)"

section \<open>Moving the BARs of a device\<close>

text \<open>A guest that writes configuration registers of one device, and the conditions on its writes.\<close>

type_synonym config_write = "nat \<times> u64 \<times> u8 list"

fun config_run ::
  "('d, 's, 'e) relocation \<Rightarrow> ('d, 'b) pci_device_ops \<Rightarrow> config_write list \<Rightarrow> 'd \<Rightarrow> 's \<Rightarrow> ('d \<times> 's) option" where
  "config_run R P [] d s = Some (d, s)"
| "config_run R P ((reg, offset, data) # ws) d s =
    (case device_config_write R P reg offset data d s of
       None \<Rightarrow> None
     | Some (_, d, s) \<Rightarrow> config_run R P ws d s)"

text \<open>
  No write falls on an unused register above a BAR whose size is being probed, and a BAR is moved
  at most once while memory decoding is off.
\<close>

definition write_ok :: "('d, 'b) pci_device_ops \<Rightarrow> ('d \<Rightarrow> pci_configuration) \<Rightarrow> config_write \<Rightarrow> 'd \<Rightarrow> bool" where
  "write_ok P cfg_of w d \<longleftrightarrow>
    (case w of (reg, offset, data) \<Rightarrow>
       (length data = 4 \<longrightarrow> bar_write_safe (cfg_of d) reg)
       \<and> (case dev_write_config P reg offset data d of
            None \<Rightarrow> True
          | Some (ms, _, d') \<Rightarrow> distinct (map rp_bar_idx (ms @ pc_pending (cfg_of d')))))"

fun run_ok ::
  "('d, 's, 'e) relocation \<Rightarrow> ('d, 'b) pci_device_ops \<Rightarrow> ('d \<Rightarrow> pci_configuration) \<Rightarrow> config_write list
     \<Rightarrow> 'd \<Rightarrow> 's \<Rightarrow> bool" where
  "run_ok R P cfg_of [] d s \<longleftrightarrow> True"
| "run_ok R P cfg_of (w # ws) d s \<longleftrightarrow>
     write_ok P cfg_of w d
     \<and> (case config_run R P [w] d s of None \<Rightarrow> True | Some (d, s) \<Rightarrow> run_ok R P cfg_of ws d s)"

text \<open>
  What the bus relies on: the device keeps its BARs in a PCI configuration, and the relocation
  either maps the BAR at the new base or leaves its mapping alone.
\<close>

locale relocated_device =
  fixes P :: "('d, 'b) pci_device_ops" and R :: "('d, 's, 'e) relocation"
    and cfg_of :: "'d \<Rightarrow> pci_configuration" and mapped :: "'d \<Rightarrow> 's \<Rightarrow> nat \<Rightarrow> u64"
    and sys_inv :: "'d \<Rightarrow> 's \<Rightarrow> bool"
  assumes write_bars: "dev_write_config P reg offset data d = Some (ms, ret, d') \<Longrightarrow> bars_inv (cfg_of d) loc \<Longrightarrow>
      (length data = 4 \<Longrightarrow> bar_write_safe (cfg_of d) reg) \<Longrightarrow>
      bars_inv ((cfg_of d')\<lparr> pc_pending := ms @ pc_pending (cfg_of d') \<rparr>) loc"
    and write_sys: "dev_write_config P reg offset data d = Some (ms, ret, d') \<Longrightarrow> sys_inv d s \<Longrightarrow> layout_ok (cfg_of d) \<Longrightarrow>
      sys_inv d' s \<and> mapped d' s = mapped d s"
    and restore_cfg: "restore_bar_addr (cfg_of d) p = Some c \<Longrightarrow>
      \<exists>d'. dev_restore_bar P p d = Some d' \<and> cfg_of d' = c"
    and restore_sys: "dev_restore_bar P p d = Some d' \<Longrightarrow> sys_inv d s \<Longrightarrow> layout_ok (cfg_of d) \<Longrightarrow>
      sys_inv d' s \<and> mapped d' s = mapped d s"
    and reloc_total: "sys_inv d s \<Longrightarrow> bar_live (cfg_of d) i \<Longrightarrow>
      R i (mapped d s i) n (bar_len (cfg_of d) i) (bar_region (cfg_of d) i) d s \<noteq> None"
    and reloc_sys: "sys_inv d s \<Longrightarrow> bar_live (cfg_of d) i \<Longrightarrow>
      R i (mapped d s i) n (bar_len (cfg_of d) i) (bar_region (cfg_of d) i) d s = Some (r, d', s') \<Longrightarrow>
      sys_inv d' s' \<and> cfg_of d' = cfg_of d
        \<and> mapped d' s' = (case r of Inr _ \<Rightarrow> (mapped d s)(i := n) | Inl _ \<Rightarrow> mapped d s)"
begin

lemma apply_consistent:
  assumes "sys_inv d s" and "bars_inv ((cfg_of d)\<lparr> pc_pending := ms @ pc_pending (cfg_of d) \<rparr>) (mapped d s)"
    and "distinct (map rp_bar_idx (ms @ pc_pending (cfg_of d)))"
  shows "\<exists>d' s'. apply_bar_reprogramming R P ms d s = Some (d', s') \<and> sys_inv d' s'
    \<and> bars_inv (cfg_of d') (mapped d' s')"
  using assms
proof (induction ms arbitrary: d s)
  case Nil
  then show ?case by simp
next
  case (Cons p ms)
  let ?ps = "ms @ pc_pending (cfg_of d)"
  have inv: "bars_inv ((cfg_of d)\<lparr> pc_pending := p # ?ps \<rparr>) (mapped d s)" using Cons.prems(2) by simp
  then have lay: "layout_ok (cfg_of d)" and "move_ok (cfg_of d) (mapped d s) p" by (auto simp: bars_inv_def)
  then obtain i where i: "rp_bar_idx p = Some i" "bar_live (cfg_of d) i" "rp_old_base p = mapped d s i"
    "rp_len p = bar_len (cfg_of d) i" "rp_region_type p = bar_region (cfg_of d) i"
    by (auto simp: move_ok_def)
  from reloc_total [OF Cons.prems(1) i(2)] obtain r d1 s1 where
    r: "R i (rp_old_base p) (rp_new_base p) (rp_len p) (rp_region_type p) d s = Some (r, d1, s1)"
    using i by (metis not_Some_eq prod_cases3)
  have s1: "sys_inv d1 s1" "cfg_of d1 = cfg_of d"
    "mapped d1 s1 = (case r of Inr _ \<Rightarrow> (mapped d s)(i := rp_new_base p) | Inl _ \<Rightarrow> mapped d s)"
    using reloc_sys [OF Cons.prems(1) i(2), of "rp_new_base p" r d1 s1] r i by simp_all
  show ?case
  proof (cases r)
    case (Inr u)
    have "bars_inv ((cfg_of d1)\<lparr> pc_pending := ms @ pc_pending (cfg_of d1) \<rparr>) (mapped d1 s1)"
      using bars_inv_moved [OF inv] s1 i Inr by simp
    from Cons.IH [OF s1(1) this] show ?thesis using Cons.prems(3) i r Inr s1 by simp
  next
    case (Inl e)
    have "rp_bar_idx p \<notin> rp_bar_idx ` set ?ps" using Cons.prems(3) by (simp add: image_Un)
    then have "\<forall>q \<in> set ?ps. rp_bar_idx q \<noteq> rp_bar_idx p" by (metis image_eqI)
    from bars_inv_restored [OF inv this] obtain c where c: "restore_bar_addr (cfg_of d) p = Some c"
      "pc_pending c = pc_pending (cfg_of d)" "bars_inv (c\<lparr> pc_pending := ?ps \<rparr>) (mapped d s)" by blast
    from restore_cfg [of d1 p c] c s1 obtain d2 where d2: "dev_restore_bar P p d1 = Some d2" "cfg_of d2 = c" by auto
    from restore_sys [OF d2(1) s1(1)] lay s1 Inl have s2: "sys_inv d2 s1" "mapped d2 s1 = mapped d s" by simp_all
    have "bars_inv ((cfg_of d2)\<lparr> pc_pending := ms @ pc_pending (cfg_of d2) \<rparr>) (mapped d2 s1)"
      using c d2 s2 by simp
    from Cons.IH [OF s2(1) this] show ?thesis using Cons.prems(3) i r Inl d2 c by simp
  qed
qed

lemma device_write_consistent:
  assumes inv: "sys_inv d s" "bars_inv (cfg_of d) (mapped d s)" and ok: "write_ok P cfg_of (reg, offset, data) d"
    and w: "dev_write_config P reg offset data d \<noteq> None"
  shows "\<exists>ret d' s'. device_config_write R P reg offset data d s = Some (ret, d', s') \<and> sys_inv d' s'
    \<and> bars_inv (cfg_of d') (mapped d' s')"
proof -
  from w obtain ms ret d1 where d1: "dev_write_config P reg offset data d = Some (ms, ret, d1)" by auto
  have lay: "layout_ok (cfg_of d)" using inv(2) by (simp add: bars_inv_def)
  from write_sys [OF d1 inv(1) lay] have s1: "sys_inv d1 s" "mapped d1 s = mapped d s" by auto
  have "bars_inv ((cfg_of d1)\<lparr> pc_pending := ms @ pc_pending (cfg_of d1) \<rparr>) (mapped d1 s)"
    using write_bars [OF d1 inv(2)] ok s1 by (simp add: write_ok_def)
  moreover have "distinct (map rp_bar_idx (ms @ pc_pending (cfg_of d1)))"
    using ok d1 by (simp add: write_ok_def)
  ultimately obtain d' s' where "apply_bar_reprogramming R P ms d1 s = Some (d', s')" "sys_inv d' s'"
    "bars_inv (cfg_of d') (mapped d' s')"
    using apply_consistent [OF s1(1)] by blast
  then show ?thesis using d1 by (simp add: device_config_write_def)
qed

lemma run_consistent:
  assumes "sys_inv d s" "bars_inv (cfg_of d) (mapped d s)" and "run_ok R P cfg_of ws d s"
    and "config_run R P ws d s = Some (d', s')"
  shows "sys_inv d' s' \<and> bars_inv (cfg_of d') (mapped d' s')"
  using assms
proof (induction ws arbitrary: d s)
  case Nil
  then show ?case by simp
next
  case (Cons w ws)
  obtain reg offset data where w: "w = (reg, offset, data)" by (cases w)
  obtain ret d1 s1 where d1: "device_config_write R P reg offset data d s = Some (ret, d1, s1)"
    "config_run R P ws d1 s1 = Some (d', s')"
    using Cons.prems(4) by (auto simp: w split: option.splits)
  then have "dev_write_config P reg offset data d \<noteq> None"
    by (auto simp: device_config_write_def split: option.splits)
  from device_write_consistent [OF Cons.prems(1,2) _ this] Cons.prems(3)
  have "sys_inv d1 s1" "bars_inv (cfg_of d1) (mapped d1 s1)" using d1 by (simp_all add: w)
  moreover have "run_ok R P cfg_of ws d1 s1" using Cons.prems(3) d1 by (simp add: w)
  ultimately show ?case using Cons.IH d1(2) by blast
qed

end

end
