(* ===== verification/PciAccess.thy ===== *)
theory PciAccess
  imports PciBus
begin

text \<open>
  Results on the PCI bus: the port pair and the memory-mapped window give the guest the same view of
  the configuration space, and the slots of the bus are given out exclusively.
\<close>

section \<open>The two access mechanisms\<close>

text \<open>The addresses of a register of function 0 of a device on bus 0.\<close>

definition io_address :: "nat \<Rightarrow> nat \<Rightarrow> u32" where
  "io_address dev reg = 0x80000000 OR push_bit 11 (of_nat dev) OR push_bit 2 (of_nat reg)"

definition mmio_address :: "nat \<Rightarrow> nat \<Rightarrow> u32" where
  "mmio_address dev reg = push_bit 15 (of_nat dev) OR push_bit 2 (of_nat reg)"

lemma small_bits: "n < 2 ^ k \<Longrightarrow> bit (n :: nat) i \<Longrightarrow> i < k"
proof (rule ccontr)
  assume n: "n < 2 ^ k" and b: "bit n i" and "\<not> i < k"
  then have "(2 :: nat) ^ k \<le> 2 ^ i" by (simp add: not_less)
  with n have "n div 2 ^ i = 0" by (intro div_less) (rule less_le_trans)
  then show False using b by (simp add: bit_iff_odd)
qed

lemma bit_of_nat_small: "n < 2 ^ k \<Longrightarrow> bit (of_nat n :: u32) i \<Longrightarrow> i < k"
  unfolding bit_of_nat_iff using small_bits [of n k i] by blast

lemma shift_and_mask_field:
  assumes "n < 2 ^ k" and "k \<le> 32" and "\<And>i. i < k \<Longrightarrow> bit w (off + i) = bit n i" and "m = mask k"
  shows "shift_and_mask w off m = n"
proof -
  have "bit (drop_bit off w AND m) i = bit (of_nat n :: u32) i" if "i < 32" for i
    using assms bit_of_nat_small [OF assms(1), of i] that by (auto simp: bit_simps bit_of_nat_iff)
  then have "drop_bit off w AND m = (of_nat n :: u32)" by (intro bit_word_eqI) simp
  moreover have "n < 2 ^ 32" using assms(1,2) by (meson less_le_trans one_le_numeral power_increasing)
  ultimately show ?thesis by (simp add: shift_and_mask_def unat_of_nat)
qed

lemma bit_top: "bit (0x80000000 :: u32) i \<longleftrightarrow> i = 31"
proof -
  have "(0x80000000 :: u32) = 2 ^ 31" by simp
  then have "bit (0x80000000 :: u32) i = bit (2 ^ 31 :: u32) i" by (simp only:)
  also have "\<dots> \<longleftrightarrow> i = 31" unfolding bit_exp_iff possible_bit_word by auto
  finally show ?thesis .
qed

lemma bit_clear_top: "i < 32 \<Longrightarrow> bit (w AND NOT 0x80000000 :: u32) i \<longleftrightarrow> bit w i \<and> i \<noteq> 31"
  by (simp only: bit_and_iff bit_not_iff bit_top) (simp add: possible_bit_word)

text \<open>The bits of the addresses.\<close>

lemma io_address_bits:
  assumes "dev < 32" and "reg < 64" and i: "i < 32"
  shows "bit (io_address dev reg AND NOT 0x80000000) i \<longleftrightarrow>
    (2 \<le> i \<and> i < 8 \<and> bit reg (i - 2)) \<or> (11 \<le> i \<and> i < 16 \<and> bit dev (i - 11))"
proof -
  have "bit reg (i - 2) \<Longrightarrow> i < 8" "bit dev (i - 11) \<Longrightarrow> i < 16"
    using small_bits [of reg 6 "i - 2"] small_bits [of dev 5 "i - 11"] assms by auto
  then show ?thesis
    unfolding bit_clear_top [OF i] io_address_def bit_or_iff bit_top
    using i by (auto simp: bit_simps bit_of_nat_iff)
qed

lemma mmio_address_bits:
  assumes "dev < 32" and "reg < 64" and "k < 4" and i: "i < 32"
  shows "bit (mmio_address dev reg OR of_nat k) i \<longleftrightarrow>
    (i < 2 \<and> bit k i) \<or> (2 \<le> i \<and> i < 8 \<and> bit reg (i - 2)) \<or> (15 \<le> i \<and> i < 20 \<and> bit dev (i - 15))"
proof -
  have "bit reg (i - 2) \<Longrightarrow> i < 8" "bit dev (i - 15) \<Longrightarrow> i < 20" "bit k i \<Longrightarrow> i < 2"
    using small_bits [of reg 6 "i - 2"] small_bits [of dev 5 "i - 15"] small_bits [of k 2 i] assms by auto
  then show ?thesis
    unfolding mmio_address_def using i by (auto simp: bit_simps bit_of_nat_iff)
qed

lemma address_masks:
  "(0x00ff :: u32) = mask 8" "(0x1f :: u32) = mask 5" "(0x07 :: u32) = mask 3" "(0x3f :: u32) = mask 6" "(0x3ff :: u32) = mask 10"
  "(3 :: u32) = mask 2"
  by (simp_all add: mask_eq_exp_minus_1)

lemma parse_io_address:
  assumes dev: "dev < 32" and reg: "reg < 64"
  shows "parse_io_config_address (io_address dev reg AND NOT 0x80000000) = (0, dev, 0, reg)"
    and "io_address dev reg AND 0x80000000 \<noteq> 0"
proof -
  define a where "a = io_address dev reg AND NOT 0x80000000"
  have b: "bit a i \<longleftrightarrow> (2 \<le> i \<and> i < 8 \<and> bit reg (i - 2)) \<or> (11 \<le> i \<and> i < 16 \<and> bit dev (i - 11))" if "i < 32" for i
    unfolding a_def by (rule io_address_bits [OF assms that])
  have "shift_and_mask a 16 0xff = 0"
    by (rule shift_and_mask_field [OF _ _ _ address_masks(1)]) (simp_all add: b)
  moreover have "shift_and_mask a 11 0x1f = dev"
    by (rule shift_and_mask_field [OF _ _ _ address_masks(2)]) (use dev in \<open>simp_all add: b\<close>)
  moreover have "shift_and_mask a 8 0x07 = 0"
    by (rule shift_and_mask_field [OF _ _ _ address_masks(3)]) (simp_all add: b)
  moreover have "shift_and_mask a 2 0x3f = reg"
    by (rule shift_and_mask_field [OF _ _ _ address_masks(4)]) (use reg in \<open>simp_all add: b\<close>)
  ultimately show "parse_io_config_address (io_address dev reg AND NOT 0x80000000) = (0, dev, 0, reg)"
    unfolding a_def [symmetric] by (simp add: parse_io_config_address_def)
  have "bit (io_address dev reg AND 0x80000000) 31" by (simp add: io_address_def bit_and_iff bit_or_iff bit_top)
  then show "io_address dev reg AND 0x80000000 \<noteq> 0" by auto
qed

lemma parse_mmio_address:
  assumes dev: "dev < 32" and reg: "reg < 64" and k: "k < 4"
  shows "parse_mmio_config_address (mmio_address dev reg OR of_nat k) = (0, dev, 0, reg)"
    and "unat (mmio_address dev reg OR of_nat k) mod 4 = k"
proof -
  let ?a = "mmio_address dev reg OR of_nat k"
  note b = mmio_address_bits [OF assms]
  have "shift_and_mask ?a 20 0xff = 0"
    by (rule shift_and_mask_field [OF _ _ _ address_masks(1)]) (simp_all add: b)
  moreover have "shift_and_mask ?a 15 0x1f = dev"
    by (rule shift_and_mask_field [OF _ _ _ address_masks(2)]) (use dev in \<open>simp_all add: b\<close>)
  moreover have "shift_and_mask ?a 12 0x07 = 0"
    by (rule shift_and_mask_field [OF _ _ _ address_masks(3)]) (simp_all add: b)
  moreover have "shift_and_mask ?a 2 0x3ff = reg"
    by (rule shift_and_mask_field [OF _ _ _ address_masks(5)]) (use reg small_bits [of reg 6] in \<open>auto simp: b\<close>)
  ultimately show "parse_mmio_config_address ?a = (0, dev, 0, reg)" by (simp add: parse_mmio_config_address_def)
  have "shift_and_mask ?a 0 3 = k"
    by (rule shift_and_mask_field [OF _ _ _ address_masks(6)]) (use k in \<open>simp_all add: b\<close>)
  then show "unat ?a mod 4 = k"
    by (simp add: shift_and_mask_def address_masks(6) take_bit_eq_mask [symmetric] take_bit_eq_mod unat_mod)
qed

lemma port_offset:
  assumes "k < 4"
  shows "\<not> 4 + (of_nat k :: u64) \<le> 3" "4 + (of_nat k :: u64) \<le> 7" "unat (4 + (of_nat k :: u64)) mod 4 = k"
    "4 + (of_nat k :: u64) - 4 = of_nat k" "unat (of_nat k :: u64) = k"
proof -
  from assms consider "k = 0" | "k = 1" | "k = 2" | "k = 3" by linarith
  then show "\<not> 4 + (of_nat k :: u64) \<le> 3" "4 + (of_nat k :: u64) \<le> 7" "unat (4 + (of_nat k :: u64)) mod 4 = k"
    "4 + (of_nat k :: u64) - 4 = of_nat k" "unat (of_nat k :: u64) = k"
    by (cases; simp)+
qed

lemma mmio_offset:
  fixes a :: u32
  assumes "unat a mod 4 = k"
  shows "(ucast (ucast a :: u64) :: u32) = a" "\<not> 0xffffffff < (ucast a :: u64)" "unat (ucast a :: u64) mod 4 = k"
    "(ucast a :: u64) mod 4 = of_nat k"
proof -
  have u: "unat (ucast a :: u64) = unat a" 
    using unsigned_less [of a, where 'a = nat] by (simp add: unsigned_ucast_eq take_bit_nat_eq_self)
  show "(ucast (ucast a :: u64) :: u32) = a" by (rule bit_word_eqI) (simp add: bit_simps)
  show "\<not> 0xffffffff < (ucast a :: u64)"
    using unsigned_less [of a, where 'a = nat] by (simp add: word_less_nat_alt u)
  show "unat (ucast a :: u64) mod 4 = k" using assms by (simp add: u)
  show "(ucast a :: u64) mod 4 = of_nat k"
    using assms by (intro word_unat_eq_iff [THEN iffD2]) (auto simp: unat_mod u unat_of_nat)
qed

text \<open>
  C0: the two ways to the configuration space agree.  A guest that stores the address of a register
  in port 0xcf8 and then reads or writes inside port 0xcfc sees and changes the same state as one
  that accesses the register in the memory-mapped window.
\<close>
theorem config_mechanisms_agree:
  assumes B: "byteorder_ok B" and dev: "dev < 32" and reg: "reg < 64" and k: "k < 4" and len: "k + length data \<le> 4"
    and io: "ca = io_address dev reg" and mmio: "ma = ucast (mmio_address dev reg OR of_nat k)"
  shows "config_io_write B R P b old 0 (write_u32 B ca) heap s = Some (ca, None, heap, s)
    \<and> config_io_read P b ca (4 + of_nat k) data heap = config_mmio_read P b ma data heap
    \<and> map_option (\<lambda>(ca', ret, heap, s). (ca', heap, s)) (config_io_write B R P b ca (4 + of_nat k) data heap s)
        = map_option (\<lambda>(heap, s). (ca, heap, s)) (config_mmio_write R P b ma data heap s)"
proof (intro conjI)
  note o = port_offset [OF k] and m = mmio_offset [OF parse_mmio_address(2) [OF dev reg k], folded mmio]
  note p = parse_io_address [OF dev reg, folded io] parse_mmio_address(1) [OF dev reg k]
  have n: "\<not> 4 < (k + length data) mod 2 ^ 64" using len by simp
  have zero: "(- 4294967296 :: u32) = 0" by simp
  show "config_io_write B R P b old 0 (write_u32 B ca) heap s = Some (ca, None, heap, s)"
    using B by (simp add: config_io_write_def set_config_address_def byteorder_write_read32 zero Let_def)
  show "config_io_read P b ca (4 + of_nat k) data heap = config_mmio_read P b ma data heap"
    using o m p len by (simp add: config_io_read_def config_mmio_read_def io_config_space_read_def mmio_config_space_read_def mmio
        Let_def split: prod.split)
  show "map_option (\<lambda>(ca', ret, heap, s). (ca', heap, s)) (config_io_write B R P b ca (4 + of_nat k) data heap s)
        = map_option (\<lambda>(heap, s). (ca, heap, s)) (config_mmio_write R P b ma data heap s)"
    using o m p n by (simp add: config_io_write_def config_mmio_write_def io_config_space_write_def mmio_config_space_write_def mmio
        option.map_comp comp_def case_prod_unfold)
qed

theorem config_mechanisms_agree_witness:
  "\<forall>P R. config_io_read (P :: (nat, unit) pci_device_ops) (pci_bus_new (Some ())) 0x80000804 6 [0, 0] (\<lambda>_. 5)
      = config_mmio_read P (pci_bus_new (Some ())) 0x8006 [0, 0] (\<lambda>_. 5)
    \<and> config_io_write std_le (R :: (nat, unit, unit) relocation) P (pci_bus_new (Some ())) 0 0 (write_u32 std_le 0x80000804) (\<lambda>_. 5) ()
      = Some (0x80000804, None, \<lambda>_. 5, ())"
proof (intro allI)
  fix P :: "(nat, unit) pci_device_ops" and R :: "(nat, unit, unit) relocation"
  have a: "0x80000804 = io_address 1 1" "0x8006 = (ucast (mmio_address 1 1 OR of_nat 2) :: u64)" by code_simp+
  from config_mechanisms_agree [OF std_le_ok _ _ _ _ a, of "[0, 0]" R P "pci_bus_new (Some ())" 0 "\<lambda>_. 5" "()"]
  show "config_io_read P (pci_bus_new (Some ())) 0x80000804 6 [0, 0] (\<lambda>_. 5)
      = config_mmio_read P (pci_bus_new (Some ())) 0x8006 [0, 0] (\<lambda>_. 5)
    \<and> config_io_write std_le R P (pci_bus_new (Some ())) 0 0 (write_u32 std_le 0x80000804) (\<lambda>_. 5) ()
      = Some (0x80000804, None, \<lambda>_. 5, ())" by simp
qed

text \<open>
  The function number is checked on a read through the ports only: a write to any function of a
  device changes the registers of the device, which the guest then reads as absent.
\<close>

lemma io_write_any_function:
  assumes "parse_io_config_address (a AND NOT 0x80000000) = (bus, device, function, register)"
    and "parse_io_config_address (c AND NOT 0x80000000) = (bus, device, 0, register)"
    and "a AND 0x80000000 \<noteq> 0" "c AND 0x80000000 \<noteq> 0" "0 < function"
  shows "io_config_space_write R P b a offset data heap s = io_config_space_write R P b c offset data heap s"
    and "io_config_space_read P b a heap = (0xffffffff, heap)"
  using assms by (simp_all add: io_config_space_write_def io_config_space_read_def del: word_not_simps)

section \<open>Device slots\<close>

text \<open>The slots that are in use: allocated and not freed since.\<close>

inductive slots_reachable :: "'h pci_bus \<Rightarrow> u8 set \<Rightarrow> bool" where
  start: "slots_reachable (pci_bus_new root) (if root = None then {} else {PCI_ROOT_DEVICE_ID})"
| reserve: "slots_reachable b H \<Longrightarrow> reserve_device_id b i = (r, b') \<Longrightarrow> slots_reachable b' H"
| allocate: "slots_reachable b H \<Longrightarrow> allocate_device_id b w = (Inr i, b') \<Longrightarrow> slots_reachable b' (insert i H)"
| refuse: "slots_reachable b H \<Longrightarrow> allocate_device_id b w = (Inl e, b') \<Longrightarrow> slots_reachable b' H"
| free: "slots_reachable b H \<Longrightarrow> free_device_id b i = (r, b') \<Longrightarrow> slots_reachable b' (if r = Inr () then H - {i} else H)"
| add: "slots_reachable b H \<Longrightarrow> slots_reachable (pci_add_device b i h) H"
| remove: "slots_reachable b H \<Longrightarrow> slots_reachable (pci_remove_by_device b h) H"

definition slots_inv :: "'h pci_bus \<Rightarrow> u8 set \<Rightarrow> bool" where
  "slots_inv b H \<longleftrightarrow> length (pbus_device_ids b) = NUM_DEVICE_IDS
    \<and> (\<forall>i. i \<in> H \<longleftrightarrow> unat i < NUM_DEVICE_IDS \<and> pbus_device_ids b ! unat i = AllocatedId)"

lemma slot_of_nat: "k < NUM_DEVICE_IDS \<Longrightarrow> unat (of_nat k :: u8) = k"
  by (simp add: NUM_DEVICE_IDS_def unat_of_nat)

lemma slots_inv_set:
  assumes inv: "slots_inv b H" and i: "unat i < NUM_DEVICE_IDS"
  shows "slots_inv (b\<lparr> pbus_device_ids := (pbus_device_ids b)[unat i := s] \<rparr>) (if s = AllocatedId then insert i H else H - {i})"
proof -
  have len: "length (pbus_device_ids b) = NUM_DEVICE_IDS" using inv by (simp add: slots_inv_def)
  have "j \<in> (if s = AllocatedId then insert i H else H - {i}) \<longleftrightarrow>
      unat j < NUM_DEVICE_IDS \<and> (pbus_device_ids b)[unat i := s] ! unat j = AllocatedId" for j
  proof (cases "j = i")
    case True
    then show ?thesis using i len by simp
  next
    case False
    then have "unat i \<noteq> unat j" by (simp add: word_unat_eq_iff)
    then show ?thesis using False inv by (simp add: slots_inv_def)
  qed
  with len show ?thesis by (simp add: slots_inv_def)
qed

lemma allocate_device_id_spec:
  assumes inv: "slots_inv b H"
  shows "case allocate_device_id b w of
      (Inl e, b') \<Rightarrow> b' = b \<and> (case w of
          Some j \<Rightarrow> NUM_DEVICE_IDS \<le> unat j \<or> j \<in> H
        | None \<Rightarrow> FreeId \<notin> set (pbus_device_ids b))
    | (Inr i, b') \<Rightarrow> unat i < NUM_DEVICE_IDS \<and> i \<notin> H \<and> slots_inv b' (insert i H)
        \<and> (case w of Some j \<Rightarrow> i = j | None \<Rightarrow> pbus_device_ids b ! unat i = FreeId)"
proof -
  have put: "slots_inv (b\<lparr> pbus_device_ids := (pbus_device_ids b)[unat i := AllocatedId] \<rparr>) (insert i H)"
    if "unat i < NUM_DEVICE_IDS" for i
    using slots_inv_set [OF inv that, of AllocatedId] by simp
  show ?thesis
  proof (cases w)
    case (Some j)
    then show ?thesis
      using inv put [of j] by (auto simp: allocate_device_id_def slots_inv_def Let_def)
  next
    case None
    show ?thesis
    proof (cases "position (\<lambda>s. s = FreeId) (pbus_device_ids b)")
      case None
      then have "FreeId \<notin> set (pbus_device_ids b)" by (auto simp: position_None_iff)
      then show ?thesis using \<open>w = None\<close> None by (simp add: allocate_device_id_def)
    next
      case (Some k)
      then have k: "k < NUM_DEVICE_IDS" "pbus_device_ids b ! k = FreeId"
        using inv by (auto simp: position_Some_iff slots_inv_def)
      note u = slot_of_nat [OF k(1)]
      have "of_nat k \<notin> H" using inv k u by (auto simp: slots_inv_def)
      then show ?thesis using \<open>w = None\<close> Some k u put [of "of_nat k"] by (simp add: allocate_device_id_def)
    qed
  qed
qed

lemma slots_reachable_inv: "slots_reachable b H \<Longrightarrow> slots_inv b H"
proof (induction rule: slots_reachable.induct)
  case (start root)
  have "unat i < NUM_DEVICE_IDS \<and> (replicate NUM_DEVICE_IDS FreeId)[0 := AllocatedId] ! unat i = AllocatedId \<longleftrightarrow> i = 0" for i :: u8
    by (cases "unat i = 0") (auto simp: NUM_DEVICE_IDS_def unat_eq_0)
  then show ?case
    by (cases root) (auto simp: slots_inv_def pci_bus_new_def PCI_ROOT_DEVICE_ID_def Let_def)
next
  case (reserve b H i r b')
  show ?case
  proof (cases "unat i < NUM_DEVICE_IDS \<and> pbus_device_ids b ! unat i = FreeId")
    case True
    then have "i \<notin> H" using reserve.IH by (auto simp: slots_inv_def)
    then show ?thesis
      using reserve.hyps(2) True slots_inv_set [OF reserve.IH, of i ReservedId] by (auto simp: reserve_device_id_def Let_def)
  next
    case False
    then show ?thesis using reserve by (auto simp: reserve_device_id_def Let_def split: if_splits)
  qed
next
  case (allocate b H w i b')
  then show ?case using allocate_device_id_spec [of b H w] by simp
next
  case (refuse b H w e b')
  then show ?case using allocate_device_id_spec [of b H w] by simp
next
  case (free b H i r b')
  then show ?case
    using slots_inv_set [OF free.IH, of i FreeId] by (auto simp: free_device_id_def split: if_splits)
qed (simp_all add: slots_inv_def pci_add_device_def pci_remove_by_device_def)

text \<open>
  C0: a PCI slot is never given out twice.  Whatever sequence of reservations, allocations and
  releases went before, a slot that is allocated is not in use, is the one that was asked for, and
  without a wish is neither in use nor reserved; an allocation is refused only if the slot is in use
  or does not exist, or if no slot is left.
\<close>
theorem device_slot_exclusive:
  assumes "slots_reachable b H"
  shows "case allocate_device_id b w of
      (Inl e, b') \<Rightarrow> b' = b \<and> (case w of
          Some j \<Rightarrow> NUM_DEVICE_IDS \<le> unat j \<or> j \<in> H
        | None \<Rightarrow> FreeId \<notin> set (pbus_device_ids b))
    | (Inr i, b') \<Rightarrow> unat i < NUM_DEVICE_IDS \<and> i \<notin> H
        \<and> (case w of Some j \<Rightarrow> i = j | None \<Rightarrow> pbus_device_ids b ! unat i = FreeId)"
proof -
  obtain r b' where r: "allocate_device_id b w = (r, b')" by (rule prod.exhaust)
  then show ?thesis
    using allocate_device_id_spec [OF slots_reachable_inv [OF assms], of w] by (cases r) simp_all
qed

theorem device_slot_exclusive_witness:
  "slots_reachable (pci_bus_new (Some ())) {0}
    \<and> (case allocate_device_id (pci_bus_new (Some ())) None of (Inr i, b') \<Rightarrow> i \<noteq> 0 | (Inl e, b') \<Rightarrow> False)"
proof -
  have r: "slots_reachable (pci_bus_new (Some ())) {0}"
    using slots_reachable.start [of "Some ()"] by (simp add: PCI_ROOT_DEVICE_ID_def)
  have "FreeId \<in> set (pbus_device_ids (pci_bus_new (Some ())))"
    by (simp add: pci_bus_new_def NUM_DEVICE_IDS_def PCI_ROOT_DEVICE_ID_def numeral_eq_Suc)
  moreover obtain q b' where q: "allocate_device_id (pci_bus_new (Some ())) None = (q, b')" by (rule prod.exhaust)
  ultimately show ?thesis using r device_slot_exclusive [OF r, of None] by (cases q) simp_all
qed

end
