(* ===== verification/PciBdf.thy ===== *)
theory PciBdf
  imports Prelude
begin

text \<open>
  \<open>PciBdf\<close> of \<^verbatim>\<open>pci/src/lib.rs\<close>: the packed segment, bus, device and function of a PCI function, its
  text form and the parser of the text form.  The parser panics (\<open>None\<close>) on a text without the
  separators, and returns the error of the integer parser of the standard library otherwise.
\<close>

section \<open>Model\<close>

definition bdf_segment :: "u32 \<Rightarrow> u16" where
  "bdf_segment b = ucast (drop_bit 16 b AND 0xffff)"

definition bdf_bus :: "u32 \<Rightarrow> u8" where
  "bdf_bus b = ucast (drop_bit 8 b AND 0xff)"

definition bdf_device :: "u32 \<Rightarrow> u8" where
  "bdf_device b = ucast (drop_bit 3 b AND 0x1f)"

definition bdf_function :: "u32 \<Rightarrow> u8" where
  "bdf_function b = ucast (b AND 0x7)"

definition bdf_new :: "u16 \<Rightarrow> u8 \<Rightarrow> u8 \<Rightarrow> u8 \<Rightarrow> u32" where
  "bdf_new segment bus device function =
    push_bit 16 (ucast segment) OR push_bit 8 (ucast bus)
    OR push_bit 3 (ucast (device AND 0x1f)) OR ucast (function AND 0x7)"

definition bdf_to_u16 :: "u32 \<Rightarrow> u16" where
  "bdf_to_u16 b = ucast (b AND 0xffff)"

subsection \<open>Integers in base 16\<close>

definition hex_digit :: "nat \<Rightarrow> char" where
  "hex_digit n = ''0123456789abcdef'' ! n"

fun hex_digits :: "nat \<Rightarrow> string" where
  "hex_digits n = (if n < 16 then [hex_digit n] else hex_digits (n div 16) @ [hex_digit (n mod 16)])"

declare hex_digits.simps [simp del]

text \<open>The format \<^verbatim>\<open>{:0wx}\<close>.\<close>

definition hex_padded :: "nat \<Rightarrow> nat \<Rightarrow> string" where
  "hex_padded w n = (let s = hex_digits n in replicate (w - length s) (CHR ''0'') @ s)"

datatype parse_int_error = EmptyInput | InvalidDigit | PosOverflow

definition to_digit16 :: "char \<Rightarrow> nat option" where
  "to_digit16 c =
    (let n = of_char c in
     if 48 \<le> n \<and> n \<le> 57 then Some (n - 48)
     else if 97 \<le> n \<and> n \<le> 102 then Some (n - 87)
     else if 65 \<le> n \<and> n \<le> 70 then Some (n - 55)
     else None)"

fun parse_digits16 :: "nat \<Rightarrow> nat \<Rightarrow> string \<Rightarrow> parse_int_error + nat" where
  "parse_digits16 lim acc [] = Inr acc"
| "parse_digits16 lim acc (c # cs) =
    (case to_digit16 c of
       None \<Rightarrow> Inl InvalidDigit
     | Some x \<Rightarrow> if lim \<le> acc * 16 + x then Inl PosOverflow else parse_digits16 lim (acc * 16 + x) cs)"

text \<open>\<open>from_str_radix(s, 16)\<close> for an unsigned type with values below \<open>lim\<close>.\<close>

definition from_str_radix16 :: "nat \<Rightarrow> string \<Rightarrow> parse_int_error + nat" where
  "from_str_radix16 lim s =
    (case s of
       [] \<Rightarrow> Inl EmptyInput
     | [c] \<Rightarrow> if c = CHR ''+'' \<or> c = CHR ''-'' then Inl InvalidDigit else parse_digits16 lim 0 s
     | c # cs \<Rightarrow> if c = CHR ''+'' then parse_digits16 lim 0 cs else parse_digits16 lim 0 s)"

fun split_on :: "char \<Rightarrow> string \<Rightarrow> string list" where
  "split_on c [] = [[]]"
| "split_on c (x # xs) =
    (if x = c then [] # split_on c xs
     else case split_on c xs of [] \<Rightarrow> [[x]] | p # ps \<Rightarrow> (x # p) # ps)"

subsection \<open>The text form\<close>

definition bdf_display :: "u32 \<Rightarrow> string" where
  "bdf_display b =
    hex_padded 4 (unat (bdf_segment b)) @ '':'' @ hex_padded 2 (unat (bdf_bus b)) @ '':''
    @ hex_padded 2 (unat (bdf_device b)) @ ''.'' @ hex_padded 1 (unat (bdf_function b))"

definition bdf_from_str :: "string \<Rightarrow> (parse_int_error + u32) option" where
  "bdf_from_str s =
    (case split_on (CHR ''.'') s of
       [front, fn] \<Rightarrow>
         (case from_str_radix16 256 fn of
            Inl e \<Rightarrow> Some (Inl e)
          | Inr function \<Rightarrow>
              (case split_on (CHR '':'') front of
                 [seg, bus, dev] \<Rightarrow>
                   (case from_str_radix16 65536 seg of
                      Inl e \<Rightarrow> Some (Inl e)
                    | Inr segment \<Rightarrow>
                        (case from_str_radix16 256 bus of
                           Inl e \<Rightarrow> Some (Inl e)
                         | Inr bus \<Rightarrow>
                             (case from_str_radix16 256 dev of
                                Inl e \<Rightarrow> Some (Inl e)
                              | Inr device \<Rightarrow>
                                  Some (Inr (bdf_new (of_nat segment) (of_nat bus) (of_nat device) (of_nat function))))))
               | _ \<Rightarrow> None))
     | _ \<Rightarrow> None)"

section \<open>Packing\<close>

lemma bdf_masks: "(0xffff :: u32) = mask 16" "(0xff :: u32) = mask 8" "(0x1f :: u32) = mask 5" "(0x7 :: u32) = mask 3"
  "(0x1f :: u8) = mask 5" "(0x7 :: u8) = mask 3"
  by (simp_all add: mask_eq_exp_minus_1)

lemma bdf_new_fields:
  "bdf_segment (bdf_new s b d f) = s" "bdf_bus (bdf_new s b d f) = b"
  "bdf_device (bdf_new s b d f) = d AND 0x1f" "bdf_function (bdf_new s b d f) = f AND 0x7"
  unfolding bdf_segment_def bdf_bus_def bdf_device_def bdf_function_def bdf_new_def bdf_masks
  by (rule bit_word_eqI, auto simp: bit_simps dest: bit_imp_le_length)+

lemma bdf_new_of_fields: "bdf_new (bdf_segment b) (bdf_bus b) (bdf_device b) (bdf_function b) = b"
proof (rule bit_word_eqI)
  fix n assume n: "n < LENGTH(32)"
  consider "n < 3" | "3 \<le> n" "n < 8" | "8 \<le> n" "n < 16" | "16 \<le> n" by linarith
  then show "bit (bdf_new (bdf_segment b) (bdf_bus b) (bdf_device b) (bdf_function b)) n = bit b n"
    using n unfolding bdf_segment_def bdf_bus_def bdf_device_def bdf_function_def bdf_new_def bdf_masks
    by cases (auto simp: bit_simps)
qed

section \<open>Text\<close>

lemma split_on_append: "c \<notin> set xs \<Longrightarrow> split_on c (xs @ c # ys) = xs # split_on c ys"
  by (induction xs) auto

lemma split_on_none: "c \<notin> set xs \<Longrightarrow> split_on c xs = [xs]"
  by (induction xs) auto

definition hex_chars :: "char set" where
  "hex_chars = set ''0123456789abcdef''"

lemma hex_chars_digit:
  assumes "c \<in> hex_chars"
  shows "to_digit16 c \<noteq> None \<and> c \<noteq> CHR ''+'' \<and> c \<noteq> CHR ''-'' \<and> c \<noteq> CHR ''.'' \<and> c \<noteq> CHR '':''"
proof -
  have "list_all (\<lambda>c. to_digit16 c \<noteq> None \<and> c \<noteq> CHR ''+'' \<and> c \<noteq> CHR ''-'' \<and> c \<noteq> CHR ''.'' \<and> c \<noteq> CHR '':'')
    ''0123456789abcdef''" by code_simp
  then show ?thesis using assms unfolding hex_chars_def list_all_iff by blast
qed

lemma hex_digit_cases: "n < 16 \<Longrightarrow> hex_digit n \<in> hex_chars \<and> to_digit16 (hex_digit n) = Some n"
proof -
  assume n: "n < 16"
  have "list_all (\<lambda>n. hex_digit n \<in> hex_chars \<and> to_digit16 (hex_digit n) = Some n) [0..<16]"
    unfolding hex_chars_def by code_simp
  then show ?thesis using n by (simp add: list_all_iff)
qed

lemma hex_digits_chars: "set (hex_digits n) \<subseteq> hex_chars"
proof (induction n rule: hex_digits.induct)
  case (1 n)
  then show ?case using hex_digit_cases [of n] hex_digit_cases [of "n mod 16"]
    by (subst hex_digits.simps) auto
qed

lemma hex_padded_chars: "set (hex_padded w n) \<subseteq> hex_chars"
proof -
  have "CHR ''0'' \<in> hex_chars" by (simp add: hex_chars_def)
  then show ?thesis using hex_digits_chars [of n] by (simp add: hex_padded_def Let_def set_replicate_conv_if)
qed

definition hex_value :: "nat \<Rightarrow> string \<Rightarrow> nat" where
  "hex_value = foldl (\<lambda>a c. a * 16 + the (to_digit16 c))"

lemma hex_value_mono: "a \<le> hex_value a s"
proof (induction s arbitrary: a)
  case (Cons c s)
  from Cons [of "a * 16 + the (to_digit16 c)"] show ?case by (simp add: hex_value_def)
qed (simp add: hex_value_def)

lemma parse_digits16_value:
  "\<forall>c \<in> set s. to_digit16 c \<noteq> None \<Longrightarrow> hex_value a s < lim \<Longrightarrow> parse_digits16 lim a s = Inr (hex_value a s)"
proof (induction s arbitrary: a)
  case (Cons c s)
  then obtain x where x: "to_digit16 c = Some x" by auto
  have "a * 16 + x < lim"
    using Cons.prems(2) hex_value_mono [of "a * 16 + x" s] by (simp add: hex_value_def x)
  then show ?case using Cons x by (simp add: hex_value_def)
qed (simp add: hex_value_def)

lemma hex_value_digits: "hex_value 0 (hex_digits n) = n"
proof (induction n rule: hex_digits.induct)
  case (1 n)
  then show ?case using hex_digit_cases [of n] hex_digit_cases [of "n mod 16"]
    by (subst hex_digits.simps) (auto simp: hex_value_def)
qed

lemma hex_value_padded: "hex_value 0 (hex_padded w n) = n"
proof -
  have "foldl (\<lambda>a c. a * 16 + the (to_digit16 c)) 0 (replicate k (CHR ''0'')) = 0" for k
    by (induction k) (simp_all add: to_digit16_def)
  then show ?thesis using hex_value_digits [of n] by (simp add: hex_padded_def hex_value_def Let_def)
qed

lemma hex_digits_nonempty: "hex_digits n \<noteq> []"
  by (subst hex_digits.simps) simp

lemma from_str_radix16_padded:
  assumes "n < lim"
  shows "from_str_radix16 lim (hex_padded w n) = Inr n"
proof -
  let ?s = "hex_padded w n"
  have ok: "\<forall>c \<in> set ?s. to_digit16 c \<noteq> None \<and> c \<noteq> CHR ''+'' \<and> c \<noteq> CHR ''-''"
  proof
    fix c assume "c \<in> set ?s"
    then have "c \<in> hex_chars" using hex_padded_chars by blast
    then show "to_digit16 c \<noteq> None \<and> c \<noteq> CHR ''+'' \<and> c \<noteq> CHR ''-''"
      using hex_chars_digit by blast
  qed
  then have "parse_digits16 lim 0 ?s = Inr n"
    using parse_digits16_value [of ?s 0 lim] assms by (simp add: hex_value_padded)
  moreover have "?s \<noteq> []" using hex_digits_nonempty by (simp add: hex_padded_def Let_def)
  then obtain c cs where "?s = c # cs" by (meson neq_Nil_conv)
  ultimately show ?thesis using ok by (simp add: from_str_radix16_def split: list.split)
qed

text \<open>
  C0: the text form of a PCI function parses back to it, so that a device keeps its place on the bus
  through a snapshot.
\<close>
theorem bdf_display_roundtrip: "bdf_from_str (bdf_display b) = Some (Inr b)"
proof -
  have no: "c \<notin> set (hex_padded w n)" if "c = CHR ''.'' \<or> c = CHR '':''" for c w n
    using hex_padded_chars [of w n] that hex_chars_digit by blast
  let ?front = "hex_padded 4 (unat (bdf_segment b)) @ CHR '':'' # hex_padded 2 (unat (bdf_bus b)) @ CHR '':''
    # hex_padded 2 (unat (bdf_device b))"
  have "CHR ''.'' \<notin> set ?front" using no by simp
  from split_on_append [OF this] have "split_on (CHR ''.'') (bdf_display b) = [?front, hex_padded 1 (unat (bdf_function b))]"
    by (simp add: bdf_display_def split_on_none no)
  moreover have "split_on (CHR '':'') ?front = [hex_padded 4 (unat (bdf_segment b)), hex_padded 2 (unat (bdf_bus b)),
      hex_padded 2 (unat (bdf_device b))]"
    by (simp add: split_on_append split_on_none no)
  ultimately show ?thesis
    using unsigned_less [where 'a = nat, of "bdf_segment b"] unsigned_less [where 'a = nat, of "bdf_bus b"] unsigned_less [where 'a = nat, of "bdf_device b"] unsigned_less [where 'a = nat, of "bdf_function b"]
    by (simp add: bdf_from_str_def from_str_radix16_padded bdf_new_of_fields)
qed

end
