(* ===== verification/BarRelocation.thy ===== *)
theory BarRelocation
  imports PciBus PciBdf SystemAlloc DeviceBus
begin

text \<open>
  \<open>AddressManager::move_bar\<close> of \<^verbatim>\<open>vmm/src/device_manager.rs\<close>: how the VMM follows a guest that moves
  a BAR.  It moves the range in the address allocator, reroutes it on the bus, updates the resources
  of the device tree, moves the doorbells and the shared memory of a virtio device in the hypervisor
  and finally tells the device.  The hypervisor is a parameter (\<open>bar_vm_ops\<close>), as is the view of a
  device (\<open>bar_device_ops\<close>); the shared-memory mapping of a device is an opaque value.
\<close>

section \<open>Model\<close>

datatype pci_bar_type = Io | Mmio32 | Mmio64

datatype resource =
    MmioAddressRange u64 u64
  | PciBarResource nat u64 u64 pci_bar_type bool

record device_node =
  dn_id :: string
  dn_resources :: "resource list"
  dn_parent :: "string option"
  dn_children :: "string list"
  dn_pci_bdf :: "u32 option"

record ('h, 'v) address_manager =
  am_allocator :: system_allocator
  am_io_bus :: "'h bus"
  am_mmio_bus :: "'h bus"
  am_vm :: 'v
  am_device_tree :: "string \<rightharpoonup> device_node"
  am_mmio32 :: "address_allocator list"
  am_mmio64 :: "address_allocator list"

datatype move_error =
    CannotMoveIo | CannotMoveMmio | BusError bus_error | NoResource | NoDevice
  | IoEventError | UserMemoryError | ShmRegionsError | DeviceMoveError

record ('v, 'ev, 'm) bar_vm_ops =
  vm_unregister_ioevent :: "'ev \<Rightarrow> u64 \<Rightarrow> 'v \<Rightarrow> bool \<times> 'v"
  vm_register_ioevent :: "'ev \<Rightarrow> u64 \<Rightarrow> 'v \<Rightarrow> bool \<times> 'v"
  vm_remove_user_memory_region :: "u32 \<Rightarrow> u64 \<Rightarrow> 'm \<Rightarrow> 'v \<Rightarrow> bool \<times> 'v"
  vm_create_user_memory_region :: "u32 \<Rightarrow> u64 \<Rightarrow> 'm \<Rightarrow> 'v \<Rightarrow> bool \<times> 'v"

record 'm shm_list =
  shm_mem_slot :: u32
  shm_addr :: u64
  shm_mapping :: 'm

text \<open>What the address manager sees of a device; \<open>bd_queue_evts\<close> is \<open>None\<close> for one that is not virtio.\<close>

record ('d, 'ev, 'm) bar_device_ops =
  bd_id :: "'d \<Rightarrow> string option"
  bd_bdf :: "'d \<Rightarrow> u32"
  bd_queue_evts :: "'d \<Rightarrow> 'ev list option"
  bd_get_shm :: "'d \<Rightarrow> 'm shm_list option"
  bd_set_shm :: "'m shm_list \<Rightarrow> 'd \<Rightarrow> (bool \<times> 'd) option"
  bd_move_bar :: "nat \<Rightarrow> u64 \<Rightarrow> 'd \<Rightarrow> bool \<times> 'd"

definition next_bar_addr :: "u64 \<Rightarrow> u64 \<Rightarrow> u64" where
  "next_bar_addr offset sz = (offset + sz + (0x2000 - 1)) div 0x2000 * 0x2000"

definition COMMON_CONFIG_BAR_OFFSET :: u64 where "COMMON_CONFIG_BAR_OFFSET = 0x0000"
definition COMMON_CONFIG_SIZE :: u64 where "COMMON_CONFIG_SIZE = 56"
definition ISR_CONFIG_BAR_OFFSET :: u64 where
  "ISR_CONFIG_BAR_OFFSET = next_bar_addr COMMON_CONFIG_BAR_OFFSET COMMON_CONFIG_SIZE"
definition ISR_CONFIG_SIZE :: u64 where "ISR_CONFIG_SIZE = 1"
definition DEVICE_CONFIG_BAR_OFFSET :: u64 where
  "DEVICE_CONFIG_BAR_OFFSET = next_bar_addr ISR_CONFIG_BAR_OFFSET ISR_CONFIG_SIZE"
definition DEVICE_CONFIG_SIZE :: u64 where "DEVICE_CONFIG_SIZE = 0x1000"
definition NOTIFICATION_BAR_OFFSET :: u64 where
  "NOTIFICATION_BAR_OFFSET = next_bar_addr DEVICE_CONFIG_BAR_OFFSET DEVICE_CONFIG_SIZE"
definition NOTIFY_OFF_MULTIPLIER :: u32 where "NOTIFY_OFF_MULTIPLIER = 4"
definition VIRTIO_CONFIG_BAR_INDEX :: nat where "VIRTIO_CONFIG_BAR_INDEX = 0"
definition VIRTIO_SHM_BAR_INDEX :: nat where "VIRTIO_SHM_BAR_INDEX = 2"

definition ioeventfds :: "'ev list \<Rightarrow> u64 \<Rightarrow> ('ev \<times> u64) list" where
  "ioeventfds evts base_addr =
    (let notify_base = base_addr + NOTIFICATION_BAR_OFFSET in
     map (\<lambda>(i, ev). (ev, notify_base + of_nat i * ucast NOTIFY_OFF_MULTIPLIER)) (enumerate 0 evts))"

subsection \<open>The address ranges\<close>

definition move_io_range ::
  "guest_address_ops \<Rightarrow> ('h \<Rightarrow> bool) \<Rightarrow> u64 \<Rightarrow> u64 \<Rightarrow> u64 \<Rightarrow> ('h, 'v) address_manager
     \<Rightarrow> (move_error + unit) \<times> ('h, 'v) address_manager" where
  "move_io_range A alive old_base new_base len am =
    (case move_io_addresses A (am_allocator am) old_base new_base len None of
       (None, al) \<Rightarrow> (Inl CannotMoveIo, am\<lparr> am_allocator := al \<rparr>)
     | (Some _, al) \<Rightarrow>
         (case update_range alive (am_io_bus am) old_base len new_base len of
            (Inl e, bus) \<Rightarrow> (Inl (BusError e), am\<lparr> am_allocator := al, am_io_bus := bus \<rparr>)
          | (Inr _, bus) \<Rightarrow> (Inr (), am\<lparr> am_allocator := al, am_io_bus := bus \<rparr>)))"

definition move_mmio_range ::
  "guest_address_ops \<Rightarrow> ('h \<Rightarrow> bool) \<Rightarrow> pci_bar_region_type \<Rightarrow> nat \<Rightarrow> u64 \<Rightarrow> u64 \<Rightarrow> u64
     \<Rightarrow> ('h, 'v) address_manager \<Rightarrow> (move_error + unit) \<times> ('h, 'v) address_manager" where
  "move_mmio_range A alive region_type seg old_base new_base len am =
    (let allocators = (if region_type = Memory32BitRegion then am_mmio32 am else am_mmio64 am);
         (r, al) = aa_move_range A (allocators ! seg) old_base new_base len (Some len);
         am = (if region_type = Memory32BitRegion then am\<lparr> am_mmio32 := allocators[seg := al] \<rparr>
               else am\<lparr> am_mmio64 := allocators[seg := al] \<rparr>)
     in case r of
          None \<Rightarrow> (Inl CannotMoveMmio, am)
        | Some _ \<Rightarrow>
            (case update_range alive (am_mmio_bus am) old_base len new_base len of
               (Inl e, bus) \<Rightarrow> (Inl (BusError e), am\<lparr> am_mmio_bus := bus \<rparr>)
             | (Inr _, bus) \<Rightarrow> (Inr (), am\<lparr> am_mmio_bus := bus \<rparr>)))"

subsection \<open>The device tree\<close>

fun update_resource :: "nat \<Rightarrow> u64 \<Rightarrow> resource list \<Rightarrow> resource list option" where
  "update_resource i new_base [] = None"
| "update_resource i new_base (PciBarResource k b sz t pf # rs) =
    (if k = i then Some (PciBarResource k new_base sz t pf # rs)
     else map_option ((#) (PciBarResource k b sz t pf)) (update_resource i new_base rs))"
| "update_resource i new_base (r # rs) = map_option ((#) r) (update_resource i new_base rs)"

definition update_device_tree ::
  "string option \<Rightarrow> nat \<Rightarrow> u64 \<Rightarrow> (string \<rightharpoonup> device_node) \<Rightarrow> (move_error + unit) \<times> (string \<rightharpoonup> device_node)" where
  "update_device_tree ident i new_base tree =
    (case ident of
       None \<Rightarrow> (Inr (), tree)
     | Some k \<Rightarrow>
         (case tree k of
            None \<Rightarrow> (Inl NoDevice, tree)
          | Some node \<Rightarrow>
              (case update_resource i new_base (dn_resources node) of
                 None \<Rightarrow> (Inl NoResource, tree)
               | Some rs \<Rightarrow> (Inr (), tree(k \<mapsto> node\<lparr> dn_resources := rs \<rparr>)))))"

subsection \<open>Virtio devices\<close>

fun each_ioevent :: "('ev \<Rightarrow> u64 \<Rightarrow> 'v \<Rightarrow> bool \<times> 'v) \<Rightarrow> ('ev \<times> u64) list \<Rightarrow> 'v \<Rightarrow> bool \<times> 'v" where
  "each_ioevent f [] v = (True, v)"
| "each_ioevent f ((ev, a) # es) v = (case f ev a v of (ok, v) \<Rightarrow> if ok then each_ioevent f es v else (False, v))"

definition move_ioevents ::
  "('v, 'ev, 'm) bar_vm_ops \<Rightarrow> 'ev list \<Rightarrow> u64 \<Rightarrow> u64 \<Rightarrow> 'v \<Rightarrow> (move_error + unit) \<times> 'v" where
  "move_ioevents V evts old_base new_base v =
    (case each_ioevent (vm_unregister_ioevent V) (ioeventfds evts old_base) v of
       (False, v) \<Rightarrow> (Inl IoEventError, v)
     | (True, v) \<Rightarrow>
         (case each_ioevent (vm_register_ioevent V) (ioeventfds evts new_base) v of
            (ok, v) \<Rightarrow> (if ok then Inr () else Inl IoEventError, v)))"

definition move_shm ::
  "('v, 'ev, 'm) bar_vm_ops \<Rightarrow> ('d, 'ev, 'm) bar_device_ops \<Rightarrow> u64 \<Rightarrow> u64 \<Rightarrow> 'd \<Rightarrow> 'v
     \<Rightarrow> ((move_error + unit) \<times> 'd \<times> 'v) option" where
  "move_shm V D old_base new_base d v =
    (case bd_get_shm D d of
       None \<Rightarrow> Some (Inr (), d, v)
     | Some shm \<Rightarrow>
         (case vm_remove_user_memory_region V (shm_mem_slot shm) old_base (shm_mapping shm) v of
            (False, v) \<Rightarrow> Some (Inl UserMemoryError, d, v)
          | (True, v) \<Rightarrow>
              (case vm_create_user_memory_region V (shm_mem_slot shm) new_base (shm_mapping shm) v of
                 (False, v) \<Rightarrow> Some (Inl UserMemoryError, d, v)
               | (True, v) \<Rightarrow>
                   map_option (\<lambda>(ok, d). (if ok then Inr () else Inl ShmRegionsError, d, v))
                     (bd_set_shm D (shm\<lparr> shm_addr := new_base \<rparr>) d))))"

definition move_virtio ::
  "('v, 'ev, 'm) bar_vm_ops \<Rightarrow> ('d, 'ev, 'm) bar_device_ops \<Rightarrow> nat \<Rightarrow> u64 \<Rightarrow> u64 \<Rightarrow> 'd \<Rightarrow> 'v
     \<Rightarrow> ((move_error + unit) \<times> 'd \<times> 'v) option" where
  "move_virtio V D i old_base new_base d v =
    (case bd_queue_evts D d of
       None \<Rightarrow> Some (Inr (), d, v)
     | Some evts \<Rightarrow>
         if i = VIRTIO_CONFIG_BAR_INDEX
         then (case move_ioevents V evts old_base new_base v of (r, v) \<Rightarrow> Some (r, d, v))
         else if i = VIRTIO_SHM_BAR_INDEX then move_shm V D old_base new_base d v
         else Some (Inr (), d, v))"

text \<open>The range is moved first; what follows is skipped when an earlier part fails, and not undone.\<close>

definition move_ranges ::
  "guest_address_ops \<Rightarrow> ('h \<Rightarrow> bool) \<Rightarrow> nat \<Rightarrow> u64 \<Rightarrow> u64 \<Rightarrow> u64 \<Rightarrow> pci_bar_region_type
     \<Rightarrow> ('h, 'v) address_manager \<Rightarrow> ((move_error + unit) \<times> ('h, 'v) address_manager) option" where
  "move_ranges A alive seg old_base new_base len region_type am =
    (case region_type of
       IoRegion \<Rightarrow> Some (move_io_range A alive old_base new_base len am)
     | t \<Rightarrow>
         if length (if t = Memory32BitRegion then am_mmio32 am else am_mmio64 am) \<le> seg then None
         else Some (move_mmio_range A alive t seg old_base new_base len am))"

definition am_move_bar ::
  "guest_address_ops \<Rightarrow> ('h \<Rightarrow> bool) \<Rightarrow> ('v, 'ev, 'm) bar_vm_ops \<Rightarrow> ('d, 'ev, 'm) bar_device_ops
     \<Rightarrow> ('d, ('h, 'v) address_manager, move_error) relocation" where
  "am_move_bar A alive V D i old_base new_base len region_type d am =
    (case move_ranges A alive (unat (bdf_segment (bd_bdf D d))) old_base new_base len region_type am of
       None \<Rightarrow> None
     | Some (Inl e, am) \<Rightarrow> Some (Inl e, d, am)
     | Some (Inr _, am) \<Rightarrow>
         (case update_device_tree (bd_id D d) i new_base (am_device_tree am) of
            (Inl e, tree) \<Rightarrow> Some (Inl e, d, am\<lparr> am_device_tree := tree \<rparr>)
          | (Inr _, tree) \<Rightarrow>
              (case move_virtio V D i old_base new_base d (am_vm am) of
                 None \<Rightarrow> None
               | Some (Inl e, d, v) \<Rightarrow> Some (Inl e, d, am\<lparr> am_device_tree := tree, am_vm := v \<rparr>)
               | Some (Inr _, d, v) \<Rightarrow>
                   (case bd_move_bar D i new_base d of
                      (ok, d) \<Rightarrow> Some (if ok then Inr () else Inl DeviceMoveError, d,
                                   am\<lparr> am_device_tree := tree, am_vm := v \<rparr>)))))"

section \<open>A BAR in the address space\<close>

text \<open>
  A range that is allocated, routed to the device \<open>h\<close>, and managed by an allocator that knows of
  everything routed inside its window.
\<close>

definition window_known :: "'h bus \<Rightarrow> address_allocator \<Rightarrow> bool" where
  "window_known bus al \<longleftrightarrow>
    (\<forall>(b, l, e) \<in> set bus. \<forall>x. unat b \<le> x \<and> x < unat b + unat l \<and> unat (aa_base al) \<le> x \<and> x \<le> unat (aa_end al)
        \<longrightarrow> x \<in> aa_covered al)"

definition range_mapped :: "'h \<Rightarrow> u64 \<Rightarrow> u64 \<Rightarrow> address_allocator \<Rightarrow> 'h bus \<Rightarrow> bool" where
  "range_mapped h base len al bus \<longleftrightarrow>
    aa_wf al \<and> bus_wf bus \<and> len \<noteq> 0 \<and> bt_get (aa_ranges al) base = Some len
    \<and> (base, len, h) \<in> set bus \<and> window_known bus al"

lemma covered_remove:
  assumes "aa_wf a" and "bt_get (aa_ranges a) old = Some n"
  shows "aa_covered a = aa_covered (a\<lparr> aa_ranges := bt_remove old (aa_ranges a) \<rparr>) \<union> {unat old..<unat old + unat n}"
proof -
  have wf: "bt_wf (aa_ranges a)" using assms(1) by (simp add: aa_wf_def)
  have "set (aa_ranges a) = insert (old, n) (set (bt_remove old (aa_ranges a)))"
    using assms(2) wf by (auto simp: bt_remove_set bt_get_iff [symmetric])
  then show ?thesis by (auto simp: aa_covered_def)
qed

lemma bus_remove_disjoint:
  assumes wf: "bus_wf bus" and e: "(old, n, h) \<in> set bus" and f: "(b, l, d) \<in> set (bt_remove old bus)"
    and x: "unat b \<le> x" "x < unat b + unat l"
  shows "\<not> (unat old \<le> x \<and> x < unat old + unat n)"
proof
  assume o: "unat old \<le> x \<and> x < unat old + unat n"
  from f wf have f': "(b, l, d) \<in> set bus" "b \<noteq> old" by (auto simp: bus_wf_def bt_remove_set)
  have pair: "unat p + unat q \<le> unat p'"
    if "(p, q, r) \<in> set bus" "(p', q', r') \<in> set bus" "p < p'" for p q r p' q' r'
    using wf that by (fastforce simp: bus_wf_def)
  from f'(2) consider "b < old" | "old < b" by fastforce
  then show False
    using pair [OF f'(1) e] pair [OF e f'(1)] x o by cases linarith+
qed

lemma bus_vacant_after_remove:
  assumes m: "range_mapped h old n al bus"
    and free: "is_free_range (al\<lparr> aa_ranges := bt_remove old (aa_ranges al) \<rparr>) (unat new) (unat n)"
  shows "bus_vacant (bt_remove old bus) new n"
proof -
  let ?a = "al\<lparr> aa_ranges := bt_remove old (aa_ranges al) \<rparr>"
  from m have wf: "aa_wf al" "bus_wf bus" "n \<noteq> 0" "bt_get (aa_ranges al) old = Some n" "(old, n, h) \<in> set bus"
    and win: "window_known bus al" by (auto simp: range_mapped_def)
  have wf': "aa_wf ?a" by (rule aa_remove_wf [OF wf(1,4,3)])
  have in_win: "unat (aa_base al) \<le> unat new" "unat new + unat n \<le> unat (aa_end al) + 1"
    using free by (auto simp: is_free_range_def)
  have disj: "aa_covered ?a \<inter> {unat new..<unat new + unat n} = {}"
    by (rule aa_insert_covered(2) [OF wf' free wf(3)])
  have "unat b + unat l \<le> unat new \<or> unat new + unat n \<le> unat b"
    if e: "(b, l, d) \<in> set (bt_remove old bus)" for b l d
  proof (rule ccontr)
    assume "\<not> ?thesis"
    define x where "x = max (unat b) (unat new)"
    have bl: "(b, l, d) \<in> set bus" using e wf(2) by (auto simp: bus_wf_def bt_remove_set)
    then have "l \<noteq> 0" using wf(2) by (auto simp: bus_wf_def)
    then have pos: "0 < unat l" "0 < unat n" using wf(3) by (auto simp: unat_gt_0)
    from \<open>\<not> ?thesis\<close> pos have x: "unat b \<le> x" "x < unat b + unat l" "unat new \<le> x" "x < unat new + unat n"
      by (auto simp: x_def)
    then have "x \<in> aa_covered al" using win bl in_win by (fastforce simp: window_known_def)
    then have "x \<in> aa_covered ?a"
      using covered_remove [OF wf(1,4)] bus_remove_disjoint [OF wf(2,5) e x(1,2)] by auto
    with disj x show False by auto
  qed
  then have "bus_free_range (bt_remove old bus) new n" by (auto simp: bus_free_range_def)
  moreover have "unat new + unat n < 2 ^ 64" using in_win wf(1) by (auto simp: aa_wf_def)
  ultimately show ?thesis using wf(3) by (simp add: bus_vacant_def)
qed

lemma range_mapped_moved:
  assumes m: "range_mapped h old n al bus"
    and free: "is_free_range (al\<lparr> aa_ranges := bt_remove old (aa_ranges al) \<rparr>) (unat new) (unat n)"
  shows "range_mapped h new n (al\<lparr> aa_ranges := bt_insert new n (bt_remove old (aa_ranges al)) \<rparr>)
    (bt_insert new (n, h) (bt_remove old bus))"
proof -
  let ?a = "al\<lparr> aa_ranges := bt_remove old (aa_ranges al) \<rparr>"
  let ?b = "bt_remove old bus"
  from m have wf: "aa_wf al" "bus_wf bus" "n \<noteq> 0" "bt_get (aa_ranges al) old = Some n" "(old, n, h) \<in> set bus"
    and win: "window_known bus al" by (auto simp: range_mapped_def)
  have wfa: "aa_wf ?a" by (rule aa_remove_wf [OF wf(1,4,3)])
  have wfb: "bus_wf ?b" by (rule bus_remove_wf [OF wf(2)])
  have vac: "bus_vacant ?b new n" by (rule bus_vacant_after_remove [OF m free])
  note bs = bus_insert_set [OF wfb _ wf(3), of new h]
  have cov: "aa_covered (?a\<lparr> aa_ranges := bt_insert new n (aa_ranges ?a) \<rparr>) = {unat new..<unat new + unat n} \<union> aa_covered ?a"
    by (rule aa_insert_covered(1) [OF wfa free wf(3)])
  have "window_known (bt_insert new (n, h) ?b) (al\<lparr> aa_ranges := bt_insert new n (bt_remove old (aa_ranges al)) \<rparr>)"
    unfolding window_known_def
  proof (intro ballI, clarify)
    fix b l e x
    assume e: "(b, l, e) \<in> set (bt_insert new (n, h) ?b)" and x: "unat b \<le> x" "x < unat b + unat l"
      and w: "unat (aa_base (al\<lparr> aa_ranges := bt_insert new n (bt_remove old (aa_ranges al)) \<rparr>)) \<le> x"
        "x \<le> unat (aa_end (al\<lparr> aa_ranges := bt_insert new n (bt_remove old (aa_ranges al)) \<rparr>))"
    have "x \<in> {unat new..<unat new + unat n} \<union> aa_covered ?a"
    proof (cases "(b, l, e) = (new, n, h)")
      case True
      then show ?thesis using x by simp
    next
      case False
      then have e': "(b, l, e) \<in> set ?b" using e bs vac by (auto simp: bus_vacant_def)
      then have "(b, l, e) \<in> set bus" using wf(2) by (auto simp: bus_wf_def bt_remove_set)
      then have "x \<in> aa_covered al" using win x w by (fastforce simp: window_known_def)
      then show ?thesis
        using covered_remove [OF wf(1,4)] bus_remove_disjoint [OF wf(2,5) e' x] by auto
    qed
    then show "x \<in> aa_covered (al\<lparr> aa_ranges := bt_insert new n (bt_remove old (aa_ranges al)) \<rparr>)"
      using cov by simp
  qed
  moreover have "aa_wf (al\<lparr> aa_ranges := bt_insert new n (bt_remove old (aa_ranges al)) \<rparr>)"
    using aa_insert_wf [OF wfa free wf(3)] by simp
  moreover have "bus_wf (bt_insert new (n, h) ?b)"
    using vac by (intro bus_insert_wf [OF wfb _ wf(3)]) (auto simp: bus_vacant_def)
  ultimately show ?thesis
    using wf(3) bs vac by (auto simp: range_mapped_def bt_simps bus_vacant_def)
qed

lemma move_range_cases:
  assumes A: "guest_address_ok A" and m: "range_mapped h old n al bus" and h: "alive h"
  shows "aa_move_range A al old new n (Some n) = (None, al)
    \<or> (\<exists>al' bus'. aa_move_range A al old new n (Some n) = (Some new, al')
        \<and> update_range alive bus old n new n = (Inr (), bus') \<and> range_mapped h new n al' bus'
        \<and> bus' = bt_insert new (n, h) (bt_remove old bus))"
proof -
  let ?a = "al\<lparr> aa_ranges := bt_remove old (aa_ranges al) \<rparr>"
  let ?b = "bt_remove old bus"
  from m have wf: "aa_wf al" "bus_wf bus" "n \<noteq> 0" "bt_get (aa_ranges al) old = Some n" "(old, n, h) \<in> set bus"
    by (auto simp: range_mapped_def)
  have wfa: "aa_wf ?a" by (rule aa_remove_wf [OF wf(1,4,3)])
  have undo: "al\<lparr> aa_ranges := bt_insert old n (bt_remove old (aa_ranges al)) \<rparr> = al"
    using wf by (simp add: bt_insert_remove aa_wf_def)
  have own: "owner bus old old h"
    using wf(3,5) unat_gt_0 [of n] by (auto simp: owner_def in_range_def)
  have get: "bt_get bus old = Some (n, h)" using wf(2,5) by (simp add: bt_get_iff bus_wf_def)
  show ?thesis
  proof (cases "is_free_range ?a (unat new) (unat n) \<and> is_power_of_two n \<and> unat n dvd unat new \<and> new < aa_end al")
    case True
    then have vac: "bus_vacant ?b new n" using bus_vacant_after_remove [OF m] by blast
    have "update_range alive bus old n new n = (Inr (), bt_insert new (n, h) ?b)"
      using vac get h wf(3)
      by (simp add: update_range_def resolve_owner [OF wf(2) own] bus_remove_def bus_vacant_def
          bus_insert_eq [OF bus_remove_wf [OF wf(2)]])
    moreover have "aa_move_range A al old new n (Some n) =
        (Some new, al\<lparr> aa_ranges := bt_insert new n (bt_remove old (aa_ranges al)) \<rparr>)"
      using True wf by (simp add: aa_move_range_def aa_allocate_at_eq [OF A wfa])
    ultimately show ?thesis using range_mapped_moved [OF m] True by blast
  next
    case False
    then have "aa_move_range A al old new n (Some n) = (None, al)"
      using wf undo by (auto simp: aa_move_range_def aa_allocate_at_eq [OF A wfa])
    then show ?thesis by simp
  qed
qed

end
