(* ===== verification/PciBarSetup.thy ===== *)
theory PciBarSetup
  imports PciSnapshot
begin

text \<open>
  \<open>add_pci_bar\<close>: the configuration it builds has the layout that the BAR invariant relies on, and
  the BAR it adds has the requested size, type and address.  From there the guest's procedure for
  sizing a BAR is followed register by register.
\<close>

section \<open>Size encodings\<close>

lemma encode_32: "encode_32_bits_bar_size sz = Some e \<longleftrightarrow> sz \<noteq> 0 \<and> e = - sz"
  by (auto simp: encode_32_bits_bar_size_def word_gt_0 not_eq_complement)

lemma neg_halves:
  "push_bit 32 (ucast (ucast (drop_bit 32 w) :: u32)) OR ucast (ucast (w AND 0xffffffff) :: u32) = (w :: u64)"
proof -
  have m: "(0xffffffff :: u64) = mask 32" by (simp add: mask_eq_exp_minus_1)
  show ?thesis
  proof (rule bit_word_eqI)
    fix n assume n: "n < LENGTH(64)"
    show "bit (push_bit 32 (ucast (ucast (drop_bit 32 w) :: u32)) OR ucast (ucast (w AND 0xffffffff) :: u32) :: u64) n = bit w n"
      using n unfolding m by (cases "n < 32") (auto simp: bit_simps)
  qed
qed

lemma encode_64:
  assumes "encode_64_bits_bar_size sz = Some (hi, lo)"
  shows "sz \<noteq> 0" and "push_bit 32 (ucast hi) OR ucast lo = - sz"
proof -
  show "sz \<noteq> 0" using assms by (auto simp: encode_64_bits_bar_size_def split: if_splits)
  have "hi = ucast (drop_bit 32 (- sz))" "lo = ucast (- sz AND 0xffffffff)"
    using assms by (auto simp: encode_64_bits_bar_size_def not_eq_complement Let_def split: if_splits)
  then show "push_bit 32 (ucast hi) OR ucast lo = - sz" using neg_halves [of "- sz"] by simp
qed

section \<open>Adding a BAR\<close>

definition new_lower :: "pci_bar_configuration \<Rightarrow> u32" where
  "new_lower bc = (ucast (bc_addr bc) AND fst (bar_masks bc)) OR snd (bar_masks bc)"

lemma fst_bar_masks: "fst (bar_masks bc) = addr_bits (bc_region_type bc)"
  by (cases "bc_region_type bc") (simp_all add: bar_masks_def addr_bits_def)

lemma new_lower_addr: "new_lower bc AND addr_bits (bc_region_type bc) = ucast (bc_addr bc) AND addr_bits (bc_region_type bc)"
proof -
  have "snd (bar_masks bc) AND addr_bits (bc_region_type bc) = 0"
    by (cases "bc_region_type bc"; cases "bc_prefetchable bc")
      (simp_all add: bar_masks_def addr_bits_def pci_masks)
  moreover have "(x AND m OR y) AND m = (x AND m) OR (y AND m)" for x y m :: u32
    by (rule bit_word_eqI) (auto simp: bit_simps)
  ultimately show ?thesis by (simp add: new_lower_def fst_bar_masks)
qed

lemma bar_all_fields:
  "b\<lparr> bar_size := s, bar_addr := a, bar_used := u, bar_type := t \<rparr>
    = \<lparr> bar_addr = a, bar_size = s, bar_used = u, bar_type = t \<rparr>" for b :: pci_bar
  by (cases b) simp

lemma add_pci_bar_checks:
  assumes "layout_ok cfg" and "add_pci_bar cfg bc = Some (Inr (), cfg')"
  shows "bc_idx bc < NUM_BAR_REGS" "\<not> bar_used (pc_bars cfg ! bc_idx bc)" "is_power_of_two (bc_size bc)"
    "\<exists>e. checked_add (bc_addr bc) (bc_size bc - 1) = Some e \<and> (\<exists>c. bar_set_size cfg bc e = Inr c)"
  using assms
  by (auto simp: add_pci_bar_def layout_ok_def pc_wf_def Let_def split: if_splits option.splits sum.splits)

lemma add_pci_bar_narrow:
  assumes lay: "layout_ok cfg" and add: "add_pci_bar cfg bc = Some (Inr (), cfg')"
    and t: "bc_region_type bc \<noteq> Memory64BitRegion"
  defines "i \<equiv> bc_idx bc"
  shows "unat (bc_size bc) < 2 ^ 32" and "(ucast (bc_size bc) :: u32) \<noteq> 0"
    and "cfg' = cfg\<lparr> pc_registers := (pc_registers cfg)[BAR0_REG + i := new_lower bc],
        pc_writable_bits := (pc_writable_bits cfg)[BAR0_REG + i := addr_bits (bc_region_type bc)],
        pc_bars := (pc_bars cfg)[i := \<lparr> bar_addr = new_lower bc, bar_size = - ucast (bc_size bc),
          bar_used = True, bar_type = Some (bc_region_type bc) \<rparr>] \<rparr>"
proof -
  from add_pci_bar_checks [OF lay add] obtain e c where i: "i < NUM_BAR_REGS" "\<not> bar_used (pc_bars cfg ! i)"
    and p2: "is_power_of_two (bc_size bc)"
    and e: "checked_add (bc_addr bc) (bc_size bc - 1) = Some e" and c: "bar_set_size cfg bc e = Inr c"
    by (auto simp: i_def)
  have c': "e \<le> 0xffffffff" "(ucast (bc_size bc) :: u32) \<noteq> 0"
      "c = set_bar i (\<lambda>b. b\<lparr> bar_size := - ucast (bc_size bc) \<rparr>) cfg"
    using c t by (auto simp: bar_set_size_def encode_32 i_def Let_def not_less
        split: pci_bar_region_type.splits if_splits option.splits)
  show "(ucast (bc_size bc) :: u32) \<noteq> 0" by (rule c'(2))
  have "unat (bc_size bc - 1) \<le> 0xffffffff"
    using e c'(1) by (auto simp: word_le_nat_alt unat_word_ariths)
  moreover have "bc_size bc \<noteq> 0" using c'(2) by auto
  ultimately have "unat (bc_size bc) \<le> 2 ^ 32" by (simp add: unat_sub word_le_nat_alt unat_gt_0 Suc_leI)
  moreover have "unat (bc_size bc) \<noteq> 2 ^ 32"
  proof
    assume "unat (bc_size bc) = 2 ^ 32"
    then have "unat (ucast (bc_size bc) :: u32) = 0" by (simp add: unsigned_ucast_eq)
    with c'(2) show False by (simp add: unat_eq_0)
  qed
  ultimately show "unat (bc_size bc) < 2 ^ 32" by simp
  have len: "i < length (pc_bars cfg)" using lay i by (simp add: layout_ok_def pc_wf_def)
  show "cfg' = cfg\<lparr> pc_registers := (pc_registers cfg)[BAR0_REG + i := new_lower bc],
        pc_writable_bits := (pc_writable_bits cfg)[BAR0_REG + i := addr_bits (bc_region_type bc)],
        pc_bars := (pc_bars cfg)[i := \<lparr> bar_addr = new_lower bc, bar_size = - ucast (bc_size bc),
          bar_used = True, bar_type = Some (bc_region_type bc) \<rparr>] \<rparr>"
    using add i p2 e c c'(3) len
    by (simp add: add_pci_bar_def Let_def i_def [symmetric] case_prod_unfold fst_bar_masks
        set_bar_def set_writable_def set_register_def new_lower_def bar_all_fields del: checked_add_Some_iff)
qed

lemma add_pci_bar_wide:
  assumes lay: "layout_ok cfg" and add: "add_pci_bar cfg bc = Some (Inr (), cfg')"
    and t: "bc_region_type bc = Memory64BitRegion"
  defines "i \<equiv> bc_idx bc"
  shows "\<exists>hi lo. Suc i < NUM_BAR_REGS \<and> \<not> bar_used (pc_bars cfg ! Suc i) \<and> bc_size bc \<noteq> 0
    \<and> push_bit 32 (ucast hi) OR ucast lo = - bc_size bc
    \<and> cfg' = cfg\<lparr> pc_registers := (pc_registers cfg)[BAR0_REG + Suc i := ucast (drop_bit 32 (bc_addr bc)), BAR0_REG + i := new_lower bc],
        pc_writable_bits := (pc_writable_bits cfg)[BAR0_REG + Suc i := 0xffffffff, BAR0_REG + i := BAR_MEM_ADDR_MASK],
        pc_bars := (pc_bars cfg)[i := \<lparr> bar_addr = new_lower bc, bar_size = lo, bar_used = True, bar_type = Some Memory64BitRegion \<rparr>,
          Suc i := \<lparr> bar_addr = ucast (drop_bit 32 (bc_addr bc)), bar_size = hi, bar_used = True, bar_type = None \<rparr>] \<rparr>"
proof -
  from add_pci_bar_checks [OF lay add] obtain e c where i: "i < NUM_BAR_REGS" "\<not> bar_used (pc_bars cfg ! i)"
    and p2: "is_power_of_two (bc_size bc)"
    and e: "checked_add (bc_addr bc) (bc_size bc - 1) = Some e" and c: "bar_set_size cfg bc e = Inr c"
    by (auto simp: i_def)
  let ?up = "ucast (drop_bit 32 (bc_addr bc)) :: u32"
  obtain hi lo where k: "Suc i < NUM_BAR_REGS" "\<not> bar_used (pc_bars cfg ! Suc i)"
    and enc: "encode_64_bits_bar_size (bc_size bc) = Some (hi, lo)"
    and c': "c = set_bar (Suc i) (\<lambda>b. b\<lparr> bar_addr := ?up, bar_size := hi, bar_used := True \<rparr>)
                      (set_bar i (\<lambda>b. b\<lparr> bar_size := lo \<rparr>)
                      (set_writable (BAR0_REG + Suc i) 0xffffffff
                      (set_register (BAR0_REG + Suc i) ?up cfg)))"
    using c t by (auto simp: bar_set_size_def i_def Let_def split: if_splits option.splits)
  have len: "i < length (pc_bars cfg)" "Suc i < length (pc_bars cfg)"
    using lay i k by (auto simp: layout_ok_def pc_wf_def)
  have none: "bar_type (pc_bars cfg ! Suc i) = None"
    using layout_bar [OF lay k(1)] k(2) by (auto simp: bar_ok_def Let_def split: option.splits)
  have upper: "(pc_bars cfg ! Suc i)\<lparr> bar_addr := ?up, bar_size := hi, bar_used := True \<rparr>
      = \<lparr> bar_addr = ?up, bar_size = hi, bar_used = True, bar_type = None \<rparr>"
    using none by (cases "pc_bars cfg ! Suc i") simp
  have "cfg' = set_bar i (\<lambda>b. b\<lparr> bar_addr := new_lower bc, bar_used := True, bar_type := Some Memory64BitRegion \<rparr>)
      (set_writable (BAR0_REG + i) BAR_MEM_ADDR_MASK (set_register (BAR0_REG + i) (new_lower bc) c))"
    using add i p2 e c t lay fst_bar_masks [of bc]
    by (auto simp: add_pci_bar_def Let_def i_def [symmetric] case_prod_unfold new_lower_def addr_bits_def
        layout_ok_def pc_wf_def simp del: checked_add_Some_iff)
  then have "cfg' = cfg\<lparr> pc_registers := (pc_registers cfg)[BAR0_REG + Suc i := ?up, BAR0_REG + i := new_lower bc],
        pc_writable_bits := (pc_writable_bits cfg)[BAR0_REG + Suc i := 0xffffffff, BAR0_REG + i := BAR_MEM_ADDR_MASK],
        pc_bars := (pc_bars cfg)[i := \<lparr> bar_addr = new_lower bc, bar_size = lo, bar_used = True, bar_type = Some Memory64BitRegion \<rparr>,
          Suc i := \<lparr> bar_addr = ?up, bar_size = hi, bar_used = True, bar_type = None \<rparr>] \<rparr>"
    using len upper
    by (simp add: c' set_bar_def set_writable_def set_register_def bar_all_fields list_update_swap)
  then show ?thesis using k encode_64 [OF enc] by blast
qed


text \<open>What a successful \<open>add_pci_bar\<close> does: the new BAR is as requested and the others stay.\<close>

definition bar_added :: "pci_configuration \<Rightarrow> pci_bar_configuration \<Rightarrow> pci_configuration \<Rightarrow> bool" where
  "bar_added cfg bc cfg' \<longleftrightarrow>
    layout_ok cfg' \<and> pc_pending cfg' = pc_pending cfg
    \<and> (\<forall>j. bar_live cfg' j \<longleftrightarrow> j = bc_idx bc \<or> bar_live cfg j)
    \<and> bar_region cfg' (bc_idx bc) = bc_region_type bc \<and> bar_len cfg' (bc_idx bc) = bc_size bc
    \<and> bar_base cfg' (bc_idx bc) = bc_addr bc AND bar_bits cfg' (bc_idx bc)
    \<and> (\<forall>j. bar_live cfg j \<longrightarrow> bar_base cfg' j = bar_base cfg j \<and> bar_len cfg' j = bar_len cfg j
          \<and> bar_region cfg' j = bar_region cfg j)"

text \<open>Configurations that differ in registers that were unused: the BARs that were there are unaffected.\<close>

definition slots_added :: "nat set \<Rightarrow> pci_configuration \<Rightarrow> pci_configuration \<Rightarrow> bool" where
  "slots_added S cfg cfg' \<longleftrightarrow>
    length (pc_registers cfg') = length (pc_registers cfg)
    \<and> length (pc_writable_bits cfg') = length (pc_writable_bits cfg)
    \<and> length (pc_bars cfg') = length (pc_bars cfg)
    \<and> pc_writable_bits cfg' ! ROM_BAR_REG = pc_writable_bits cfg ! ROM_BAR_REG
    \<and> pc_rom_bar_addr cfg' = pc_rom_bar_addr cfg \<and> pc_rom_bar_size cfg' = pc_rom_bar_size cfg
    \<and> pc_rom_bar_used cfg' = pc_rom_bar_used cfg \<and> pc_pending cfg' = pc_pending cfg
    \<and> (\<forall>j. j \<notin> S \<longrightarrow> pc_bars cfg' ! j = pc_bars cfg ! j \<and> bar_writable cfg' j = bar_writable cfg j)
    \<and> S \<subseteq> {..<NUM_BAR_REGS} \<and> (\<forall>j \<in> S. \<not> bar_used (pc_bars cfg ! j))"

lemma slots_unused:
  assumes "layout_ok cfg" and "slots_added S cfg cfg'" and "j \<in> S"
  shows "bar_type (pc_bars cfg ! j) = None" and "\<not> bar_live cfg j"
proof -
  have j: "j < NUM_BAR_REGS" "\<not> bar_used (pc_bars cfg ! j)" using assms(2,3) by (auto simp: slots_added_def)
  then show "bar_type (pc_bars cfg ! j) = None"
    using layout_bar [OF assms(1) j(1)] by (auto simp: bar_ok_def Let_def split: option.splits)
  then show "\<not> bar_live cfg j" using j by (auto simp: bar_live_def pci_consts)
qed

lemma slots_added_ok:
  assumes lay: "layout_ok cfg" and S: "slots_added S cfg cfg'" and new: "\<And>j. j \<in> S \<Longrightarrow> bar_ok cfg' j"
  shows "layout_ok cfg'"
proof -
  have "bar_ok cfg' j" if j: "j < NUM_BAR_REGS" "j \<notin> S" for j
  proof -
    have up: "Suc j \<notin> S" if "bar_type (pc_bars cfg ! j) = Some Memory64BitRegion"
      using layout_bar [OF lay j(1)] that S by (auto simp: bar_ok_def slots_added_def Let_def)
    have down: "j - 1 \<notin> S" if "bar_type (pc_bars cfg ! (j - 1)) = Some Memory64BitRegion"
      using slots_unused(1) [OF lay S, of "j - 1"] that by auto
    show ?thesis
      using layout_bar [OF lay j(1)] up down S j
      by (cases "bar_type (pc_bars cfg ! j)") (auto simp: bar_ok_def slots_added_def Let_def split: if_splits)
  qed
  then show ?thesis
    using new lay S by (auto simp: layout_ok_def pc_wf_def rom_ok_def slots_added_def)
qed

lemma slots_added_other:
  assumes lay: "layout_ok cfg" and S: "slots_added S cfg cfg'" and live: "bar_live cfg j"
  shows "bar_live cfg' j" and "bar_base cfg' j = bar_base cfg j" and "bar_len cfg' j = bar_len cfg j"
    and "bar_region cfg' j = bar_region cfg j"
proof -
  have j: "j \<notin> S" using slots_unused(2) [OF lay S] live by blast
  have up: "Suc j \<notin> S" if "j < NUM_BAR_REGS" "bar_type (pc_bars cfg ! j) = Some Memory64BitRegion"
    using layout_bar [OF lay that(1)] that S by (auto simp: bar_ok_def slots_added_def Let_def)
  show "bar_live cfg' j" "bar_base cfg' j = bar_base cfg j" "bar_len cfg' j = bar_len cfg j" "bar_region cfg' j = bar_region cfg j"
    using live j up S
    by (auto simp: bar_base_def get_bar_addr_def bar_len_def bar_region_def bar_live_def slots_added_def Let_def)
qed

lemma bar_addedI:
  assumes lay: "layout_ok cfg" and S: "slots_added S cfg cfg'" and i: "bc_idx bc \<in> S"
    and new: "\<And>j. j \<in> S \<Longrightarrow> bar_ok cfg' j"
    and ty: "\<And>j. j \<in> S \<Longrightarrow> bar_type (pc_bars cfg' ! j) = (if j = bc_idx bc then Some (bc_region_type bc) else None)"
    and len: "bar_len cfg' (bc_idx bc) = bc_size bc"
    and base: "bar_base cfg' (bc_idx bc) = bc_addr bc AND bar_bits cfg' (bc_idx bc)"
  shows "bar_added cfg bc cfg'"
proof -
  have idx: "bc_idx bc < NUM_BAR_REGS" "bc_idx bc \<noteq> ROM_BAR_IDX" using S i by (auto simp: slots_added_def pci_consts)
  have "bar_live cfg' j \<longleftrightarrow> j = bc_idx bc \<or> bar_live cfg j" for j
  proof (cases "j \<in> S")
    case True
    then show ?thesis using slots_unused(2) [OF lay S True] ty [OF True] S by (auto simp: bar_live_def slots_added_def pci_consts)
  next
    case False
    then show ?thesis using S i by (auto simp: bar_live_def slots_added_def)
  qed
  then show ?thesis
    using slots_added_ok [OF lay S new] slots_added_other [OF lay S] S idx ty [OF i] len base
    by (simp add: bar_added_def slots_added_def bar_region_def)
qed

lemma ucast_down_up: "unat w < 2 ^ 32 \<Longrightarrow> ucast (ucast w :: u32) = w" for w :: u64
  by (intro word_unat_eq_iff [THEN iffD2])
    (simp add: unsigned_ucast_eq unsigned_take_bit_eq take_bit_nat_eq_self)

lemma add_pci_bar_narrow_ok:
  assumes lay: "layout_ok cfg" and add: "add_pci_bar cfg bc = Some (Inr (), cfg')"
    and t: "bc_region_type bc \<noteq> Memory64BitRegion"
  shows "bar_added cfg bc cfg'"
proof -
  define i where "i = bc_idx bc"
  let ?t = "bc_region_type bc"
  note n = add_pci_bar_narrow [OF lay add t, folded i_def]
  have i: "i < NUM_BAR_REGS" "\<not> bar_used (pc_bars cfg ! i)" using add_pci_bar_checks [OF lay add] by (auto simp: i_def)
  have wf: "pc_wf cfg" using lay by (simp add: layout_ok_def)
  have len: "i < length (pc_bars cfg)" "BAR0_REG + i < length (pc_writable_bits cfg)" "i \<noteq> ROM_BAR_IDX"
    using i wf by (auto simp: pc_wf_def pci_consts)
  have S: "slots_added {i} cfg cfg'"
    using i len by (auto simp: slots_added_def n(3) nth_update pci_consts)
  have b: "pc_bars cfg' ! i = \<lparr> bar_addr = new_lower bc, bar_size = - ucast (bc_size bc), bar_used = True, bar_type = Some ?t \<rparr>"
    "bar_writable cfg' i = addr_bits ?t" "length (pc_bars cfg') = NUM_BAR_REGS"
    using len wf by (simp_all add: n(3) pc_wf_def)
  have bits: "bar_bits cfg' i = ucast (addr_bits ?t)" using len t by (simp add: bar_bits_def b)
  have "bar_base cfg' i = ucast (ucast (bc_addr bc) AND addr_bits ?t)"
    using len t i by (simp add: bar_base_def get_bar_addr_def b new_lower_addr Let_def)
  also have "\<dots> = bc_addr bc AND bar_bits cfg' i"
    unfolding bits by (rule bit_word_eqI) (auto simp: bit_simps dest: bit_imp_le_length)
  finally have base: "bar_base cfg' i = bc_addr bc AND bar_bits cfg' i" .
  have "bar_len cfg' i = bc_size bc"
    using len t n(1) by (simp add: bar_len_def b not_eq_complement ucast_down_up)
  with base S show ?thesis
    using t n(2) by (intro bar_addedI [OF lay S]) (auto simp: i_def [symmetric] bar_ok_def b Let_def)
qed

lemma add_pci_bar_wide_ok:
  assumes lay: "layout_ok cfg" and add: "add_pci_bar cfg bc = Some (Inr (), cfg')"
    and t: "bc_region_type bc = Memory64BitRegion"
  shows "bar_added cfg bc cfg'"
proof -
  define i where "i = bc_idx bc"
  let ?up = "ucast (drop_bit 32 (bc_addr bc)) :: u32"
  from add_pci_bar_wide [OF lay add t, folded i_def] obtain hi lo
    where k: "Suc i < NUM_BAR_REGS" "\<not> bar_used (pc_bars cfg ! Suc i)"
      and sz: "bc_size bc \<noteq> 0" "push_bit 32 (ucast hi) OR ucast lo = - bc_size bc"
      and n: "cfg' = cfg\<lparr> pc_registers := (pc_registers cfg)[BAR0_REG + Suc i := ?up, BAR0_REG + i := new_lower bc],
        pc_writable_bits := (pc_writable_bits cfg)[BAR0_REG + Suc i := 0xffffffff, BAR0_REG + i := BAR_MEM_ADDR_MASK],
        pc_bars := (pc_bars cfg)[i := \<lparr> bar_addr = new_lower bc, bar_size = lo, bar_used = True, bar_type = Some Memory64BitRegion \<rparr>,
          Suc i := \<lparr> bar_addr = ?up, bar_size = hi, bar_used = True, bar_type = None \<rparr>] \<rparr>" by blast
  have i: "i < NUM_BAR_REGS" "\<not> bar_used (pc_bars cfg ! i)" using add_pci_bar_checks [OF lay add] by (auto simp: i_def)
  have wf: "pc_wf cfg" using lay by (simp add: layout_ok_def)
  have len: "i < length (pc_bars cfg)" "BAR0_REG + i < length (pc_writable_bits cfg)"
    "Suc i < length (pc_bars cfg)" "BAR0_REG + Suc i < length (pc_writable_bits cfg)" "i \<noteq> ROM_BAR_IDX"
    using i k wf by (auto simp: pc_wf_def pci_consts)
  have S: "slots_added {i, Suc i} cfg cfg'"
    using i k len by (auto simp: slots_added_def n nth_update pci_consts)
  have b: "pc_bars cfg' ! i = \<lparr> bar_addr = new_lower bc, bar_size = lo, bar_used = True, bar_type = Some Memory64BitRegion \<rparr>"
    "pc_bars cfg' ! Suc i = \<lparr> bar_addr = ?up, bar_size = hi, bar_used = True, bar_type = None \<rparr>"
    "bar_writable cfg' i = BAR_MEM_ADDR_MASK" "pc_writable_bits cfg' ! Suc (BAR0_REG + i) = 0xffffffff"
    "length (pc_bars cfg') = NUM_BAR_REGS"
    using len wf by (simp_all add: n pc_wf_def nth_update)
  have "bar_base cfg' i = ucast (ucast (bc_addr bc) AND BAR_MEM_ADDR_MASK) OR push_bit 32 (ucast ?up)"
    using len i k new_lower_addr [of bc] t by (simp add: bar_base_def get_bar_addr_def b addr_bits_def Let_def)
  also have "\<dots> = bc_addr bc AND (push_bit 32 (- 1) OR ucast BAR_MEM_ADDR_MASK)"
  proof (rule bit_word_eqI)
    fix m assume m: "m < LENGTH(64)"
    show "bit (ucast (ucast (bc_addr bc) AND BAR_MEM_ADDR_MASK) OR push_bit 32 (ucast ?up) :: u64) m
        = bit (bc_addr bc AND (push_bit 32 (- 1) OR ucast BAR_MEM_ADDR_MASK)) m"
      using m bit_imp_le_length [of BAR_MEM_ADDR_MASK m] by (cases "m < 32") (auto simp: bit_simps)
  qed
  finally have base: "bar_base cfg' i = bc_addr bc AND bar_bits cfg' i" using len by (simp add: bar_bits_def b)
  have "bar_len cfg' i = bc_size bc" using len sz by (simp add: bar_len_def b not_eq_complement)
  with base S show ?thesis
    using t k sz by (intro bar_addedI [OF lay S]) (auto simp: i_def [symmetric] bar_ok_def b addr_bits_def Let_def)
qed

lemma add_pci_bar_ok:
  assumes "layout_ok cfg" and "add_pci_bar cfg bc = Some (Inr (), cfg')"
  shows "bar_added cfg bc cfg'"
  using add_pci_bar_narrow_ok [OF assms] add_pci_bar_wide_ok [OF assms] by blast

text \<open>An index that is out of range is not reported: the function looks at the BAR first.\<close>

lemma add_pci_bar_invalid_panics:
  assumes "pc_wf cfg" and "NUM_BAR_REGS \<le> bc_idx bc"
  shows "add_pci_bar cfg bc = None"
  using assms by (simp add: add_pci_bar_def pc_wf_def Let_def)

section \<open>Sizing a BAR\<close>

definition addr_shift :: "pci_bar_region_type \<Rightarrow> nat" where
  "addr_shift t = (if t = IoRegion then 2 else 4)"

lemma addr_bits_shift: "addr_bits t = push_bit (addr_shift t) (- 1)"
  by (simp add: addr_bits_def addr_shift_def pci_masks mask_eq_exp_minus_1)

lemma write_dword:
  assumes "byteorder_ok B" and "pc_msix_cap_reg_idx cfg \<noteq> Some r"
  shows "write_config_register B I cfg r 0 (write_u32 B v) g =
    (case write_reg cfg r v of
       None \<Rightarrow> None
     | Some c \<Rightarrow>
         (case detect_bar_reprogramming B c r (write_u32 B v) of
            None \<Rightarrow> None
          | Some (po, c) \<Rightarrow> let (ms, c) = take_pending_moves (push_pending po c) in Some (ms, c, g)))"
  using assms
  by (simp add: write_config_register_def write_msix_ctl_def msix_msg_ctl_def write_data_def
      byteorder_length byteorder_write_read32 split: option.split)

lemma probe_step:
  assumes B: "byteorder_ok B" and mx: "pc_msix_cap_reg_idx cfg \<noteq> Some (BAR0_REG + j)"
    and lay: "layout_ok cfg" and j: "j < NUM_BAR_REGS" and pend: "pc_pending cfg = []"
    and probe: "is_bar_size_probe cfg (BAR0_REG + j) v"
  shows "write_config_register B I cfg (BAR0_REG + j) 0 (write_u32 B v) g =
    Some ([], set_register (BAR0_REG + j)
      ((pc_registers cfg ! (BAR0_REG + j) AND NOT (bar_writable cfg j))
        OR (v AND (bar_writable cfg j AND bar_size (pc_bars cfg ! j)))) cfg, g)"
proof -
  let ?r = "BAR0_REG + j"
  have len: "?r < length (pc_writable_bits cfg)" "?r < length (pc_registers cfg)"
    using lay j by (auto simp: layout_ok_def pc_wf_def pci_consts)
  have probe': "is_bar_size_probe (set_register ?r x cfg) ?r v" for x
    using probe by (simp add: is_bar_size_probe_def)
  show ?thesis
    using len probe probe' pend B
    by (simp add: write_dword [OF B mx] write_reg_def detect_bar_reprogramming_def byteorder_length
        byteorder_write_read32 push_pending_def take_pending_moves_def Let_def)
qed

lemma unprobe_step:
  assumes B: "byteorder_ok B" and mx: "pc_msix_cap_reg_idx cfg \<noteq> Some (BAR0_REG + j)"
    and lay: "layout_ok cfg" and j: "j < NUM_BAR_REGS" and pend: "pc_pending cfg = []"
    and orig: "orig = pc_registers cfg ! (BAR0_REG + j)" and probe: "\<not> is_bar_size_probe cfg (BAR0_REG + j) orig"
    and x: "x AND NOT (bar_writable cfg j) = orig AND NOT (bar_writable cfg j)"
    and sync: "orig AND bar_writable cfg j = bar_addr (pc_bars cfg ! j) AND bar_writable cfg j"
    and low: "bar_type (pc_bars cfg ! j) = None \<Longrightarrow> 0 < j \<Longrightarrow>
      pc_registers cfg ! (BAR0_REG + j - 1) AND bar_writable cfg (j - 1)
        = bar_addr (pc_bars cfg ! (j - 1)) AND bar_writable cfg (j - 1)"
  shows "write_config_register B I (set_register (BAR0_REG + j) x cfg) (BAR0_REG + j) 0 (write_u32 B orig) g
    = Some ([], cfg, g)"
proof -
  let ?r = "BAR0_REG + j"
  let ?c = "set_register ?r x cfg"
  have len: "?r < length (pc_writable_bits cfg)" "?r < length (pc_registers cfg)"
    using lay j by (auto simp: layout_ok_def pc_wf_def pci_consts)
  have merge: "(x AND NOT (bar_writable cfg j)) OR (orig AND bar_writable cfg j) = orig"
    unfolding x by (rule bit_word_eqI) (auto simp: bit_simps)
  have np: "\<not> is_bar_size_probe ?c ?r orig" using probe by (simp add: is_bar_size_probe_def)
  have "write_reg ?c ?r orig = Some (set_register ?r orig ?c)"
    using len np j merge by (simp add: write_reg_def set_register_def pci_consts Let_def)
  also have "set_register ?r orig ?c = cfg" using len orig by (simp add: set_register_def)
  finally have w: "write_reg ?c ?r orig = Some cfg" .
  have bar: "is_bar_reg ?r" using j by (simp add: is_bar_reg_def)
  have idx: "pc_writable_bits cfg ! (?r - 1) = bar_writable cfg (j - 1)" if "0 < j"
    using that by (simp add: pci_consts)
  have "detect_bar_reprogramming B cfg ?r (write_u32 B orig) = Some (None, cfg)"
    using B len bar probe sync low idx
    by (cases "bar_type (pc_bars cfg ! j)")
      (auto simp: detect_bar_reprogramming_def byteorder_length byteorder_write_read32 detect_low_def
        detect_high_def Let_def)
  then show ?thesis
    using w pend mx by (simp add: write_dword [OF B] set_register_def push_pending_def take_pending_moves_def)
qed

lemma size_bits:
  fixes sz :: "'a::len word"
  assumes "is_power_of_two sz" and "unat sz \<ge> 2 ^ k" and "k < LENGTH('a)"
  shows "\<exists>m \<ge> k. - sz = push_bit m (- 1)"
proof -
  from assms(1) obtain m where m: "m < LENGTH('a)" "sz = push_bit m 1" by (auto simp: is_power_of_two_iff)
  then have "unat sz = 2 ^ m" by (simp add: unsigned_push_bit_eq take_bit_push_bit del: push_bit_of_1)
  with assms(2) have "k \<le> m" by simp
  moreover have "- sz = push_bit m (- 1)" by (simp add: m(2) push_bit_eq_mult)
  ultimately show ?thesis by blast
qed

lemma low_size_bits:
  fixes lo hi :: u32 and sz :: u64
  assumes "push_bit 32 (ucast hi) OR ucast lo = - sz" and "is_power_of_two sz" and "16 \<le> unat sz"
  shows "lo AND BAR_MEM_ADDR_MASK = lo"
proof -
  obtain m where m: "4 \<le> m" "- sz = push_bit m (- 1)"
    using size_bits [OF assms(2), of 4] assms(3) by auto
  have mem: "BAR_MEM_ADDR_MASK = push_bit 4 (- 1)"
    using addr_bits_shift [of Memory64BitRegion] by (simp add: addr_bits_def addr_shift_def)
  have "4 \<le> n" if "bit lo n" for n
  proof -
    have "n < 32" using that bit_imp_le_length by force
    with that have "bit (push_bit 32 (ucast hi) OR ucast lo :: u64) n" by (simp add: bit_simps)
    then have "m \<le> n" by (auto simp: assms(1) m(2) bit_simps)
    with m(1) show ?thesis by simp
  qed
  then show ?thesis unfolding mem by (intro bit_word_eqI) (fastforce simp: bit_simps)
qed

text \<open>
  C0: the guest's procedure for sizing a BAR works on a 64-bit BAR.  Writing all ones to each of its
  two registers, reading them back and complementing the address bits gives exactly the size the
  device asked for; writing the old values back restores the configuration.  None of the four writes
  is taken for a move of the BAR.
\<close>
theorem bar_sizing:
  fixes g :: 'g
  assumes B: "byteorder_ok B" and lay: "layout_ok cfg0" and fresh: "pc_pending cfg0 = []" "pc_msix_cap_reg_idx cfg0 = None"
    and add: "add_pci_bar cfg0 bc = Some (Inr (), cfg)" and t: "bc_region_type bc = Memory64BitRegion"
    and sz: "16 \<le> unat (bc_size bc)"
    and r_def: "r = BAR0_REG + bc_idx bc"
    and lo: "read_reg cfg r AND BAR_MEM_ADDR_MASK \<noteq> BAR_MEM_ADDR_MASK" and hi: "read_reg cfg (Suc r) \<noteq> 0xffffffff"
  shows "\<exists>c1 c2. write_config_register B I cfg r 0 (write_u32 B 0xffffffff) g = Some ([], c1, g)
    \<and> write_config_register B I c1 r 0 (write_u32 B (read_reg cfg r)) g = Some ([], cfg, g)
    \<and> write_config_register B I cfg (Suc r) 0 (write_u32 B 0xffffffff) g = Some ([], c2, g)
    \<and> write_config_register B I c2 (Suc r) 0 (write_u32 B (read_reg cfg (Suc r))) g = Some ([], cfg, g)
    \<and> NOT (push_bit 32 (ucast (read_reg c2 (Suc r))) OR ucast (read_reg c1 r AND BAR_MEM_ADDR_MASK)) + 1 = bc_size bc"
proof -
  define i where "i = bc_idx bc"
  let ?up = "ucast (drop_bit 32 (bc_addr bc)) :: u32"
  from add_pci_bar_wide [OF lay add t, folded i_def] obtain h l
    where k: "Suc i < NUM_BAR_REGS" and enc: "push_bit 32 (ucast h) OR ucast l = - bc_size bc"
      and n: "cfg = cfg0\<lparr> pc_registers := (pc_registers cfg0)[BAR0_REG + Suc i := ?up, BAR0_REG + i := new_lower bc],
        pc_writable_bits := (pc_writable_bits cfg0)[BAR0_REG + Suc i := 0xffffffff, BAR0_REG + i := BAR_MEM_ADDR_MASK],
        pc_bars := (pc_bars cfg0)[i := \<lparr> bar_addr = new_lower bc, bar_size = l, bar_used = True, bar_type = Some Memory64BitRegion \<rparr>,
          Suc i := \<lparr> bar_addr = ?up, bar_size = h, bar_used = True, bar_type = None \<rparr>] \<rparr>" by blast
  have lay': "layout_ok cfg" using add_pci_bar_ok [OF lay add] by (simp add: bar_added_def)
  have wf: "pc_wf cfg0" using lay by (simp add: layout_ok_def)
  have idx: "i < NUM_BAR_REGS" "Suc r = BAR0_REG + Suc i" "r = BAR0_REG + i" using k by (simp_all add: r_def i_def)
  have b: "pc_bars cfg ! i = \<lparr> bar_addr = new_lower bc, bar_size = l, bar_used = True, bar_type = Some Memory64BitRegion \<rparr>"
    "pc_bars cfg ! Suc i = \<lparr> bar_addr = ?up, bar_size = h, bar_used = True, bar_type = None \<rparr>"
    "bar_writable cfg i = BAR_MEM_ADDR_MASK" "bar_writable cfg (Suc i) = 0xffffffff"
    "pc_registers cfg ! (BAR0_REG + i) = new_lower bc" "pc_registers cfg ! (BAR0_REG + Suc i) = ?up"
    "read_reg cfg r = new_lower bc" "read_reg cfg (Suc r) = ?up"
    "length (pc_registers cfg) = NUM_CONFIGURATION_REGISTERS" "r < NUM_CONFIGURATION_REGISTERS" "Suc r < NUM_CONFIGURATION_REGISTERS"
    "pc_pending cfg = []" "pc_msix_cap_reg_idx cfg = None"
    using k wf fresh by (simp_all add: n pc_wf_def nth_update read_reg_def idx pci_consts)
  let ?x = "(new_lower bc AND NOT BAR_MEM_ADDR_MASK) OR (BAR_MEM_ADDR_MASK AND l)"
  let ?c = "set_register r ?x cfg" and ?d = "set_register (Suc r) h cfg"
  have p1: "write_config_register B I cfg r 0 (write_u32 B 0xffffffff) g = Some ([], ?c, g)"
    using probe_step [OF B _ lay' idx(1) b(12), of "0xffffffff" I g] b idx
    by (simp add: is_bar_size_probe_def is_bar_reg_def pci_consts)
  have ones: "(- 4294967296 :: u32) = 0" by simp
  have p2: "write_config_register B I cfg (Suc r) 0 (write_u32 B 0xffffffff) g = Some ([], ?d, g)"
    using probe_step [OF B _ lay' k b(12), of "0xffffffff" I g] b k
    by (simp add: is_bar_size_probe_def is_bar_reg_def BAR_SIZE_PROBE_ALL_ONES_def idx ones)
  have x: "?x AND NOT BAR_MEM_ADDR_MASK = new_lower bc AND NOT BAR_MEM_ADDR_MASK"
    by (rule bit_word_eqI) (auto simp: bit_simps)
  have u1: "write_config_register B I ?c r 0 (write_u32 B (new_lower bc)) g = Some ([], cfg, g)"
    using unprobe_step [OF B _ lay' idx(1) b(12), of "new_lower bc" ?x I g] b idx x lo
    by (simp add: is_bar_size_probe_def)
  have u2: "write_config_register B I ?d (Suc r) 0 (write_u32 B ?up) g = Some ([], cfg, g)"
    using unprobe_step [OF B _ lay' k b(12), of ?up h I g] b idx hi
    by (simp add: is_bar_size_probe_def BAR_SIZE_PROBE_ALL_ONES_def ones)
  have "l AND BAR_MEM_ADDR_MASK = l"
    using low_size_bits [OF enc] add_pci_bar_checks(3) [OF lay add] sz by simp
  moreover have "?x AND BAR_MEM_ADDR_MASK = BAR_MEM_ADDR_MASK AND l"
    by (rule bit_word_eqI) (auto simp: bit_simps)
  ultimately have "read_reg ?c r AND BAR_MEM_ADDR_MASK = l" "read_reg ?d (Suc r) = h"
    using b by (simp_all add: read_reg_def set_register_def and.commute)
  then have "NOT (push_bit 32 (ucast (read_reg ?d (Suc r))) OR ucast (read_reg ?c r AND BAR_MEM_ADDR_MASK)) + 1 = bc_size bc"
    by (simp add: enc not_eq_complement)
  with p1 p2 u1 u2 b(7,8) show ?thesis by auto
qed

text \<open>A memory BAR of 512 KiB at 4 GiB, as the device manager places it for a virtio device.\<close>

definition demo_bar :: pci_bar_configuration where
  "demo_bar = \<lparr> bc_addr = 0x100000000, bc_size = 0x80000, bc_idx = 0, bc_region_type = Memory64BitRegion,
    bc_prefetchable = NotPrefetchable \<rparr>"

lemma demo_config_regs [simp]:
  "length (pc_bars demo_config) = 6" "length (pc_registers demo_config) = 1024"
  "length (pc_writable_bits demo_config) = 1024"
  "i < 6 \<Longrightarrow> pc_bars demo_config ! i = default_bar" "pc_pending demo_config = []" "pc_msix_cap_reg_idx demo_config = None"
  by (simp_all add: demo_config_def pci_configuration_new_def fixup_pending_bar_reprogram_def pci_consts
      fresh_registers_def fresh_writable_bits_def demo_function_def Let_def)

theorem bar_sizing_witness:
  "\<forall>I. \<exists>cfg c1 c2. add_pci_bar demo_config demo_bar = Some (Inr (), cfg)
    \<and> write_config_register std_le I cfg 4 0 (write_u32 std_le 0xffffffff) () = Some ([], c1, ())
    \<and> write_config_register std_le I cfg 5 0 (write_u32 std_le 0xffffffff) () = Some ([], c2, ())
    \<and> NOT (push_bit 32 (ucast (read_reg c2 5)) OR ucast (read_reg c1 4 AND BAR_MEM_ADDR_MASK)) + 1 = (0x80000 :: u64)"
proof
  fix I
  let ?cfg = "snd (the (add_pci_bar demo_config demo_bar))"
  have pow: "is_power_of_two (0x80000 :: u64)" unfolding is_power_of_two_iff by (rule exI [of _ 19]) simp
  have add: "add_pci_bar demo_config demo_bar = Some (Inr (), ?cfg)"
    and regs: "read_reg ?cfg (BAR0_REG + bc_idx demo_bar) = 4" "read_reg ?cfg (Suc (BAR0_REG + bc_idx demo_bar)) = 1"
    by (simp_all add: add_pci_bar_def demo_bar_def pci_consts pci_masks default_bar_def pow checked_add_def
        bar_set_size_def encode_64_bits_bar_size_def bar_masks_def set_bar_def set_register_def set_writable_def
        read_reg_def Let_def)
  have "fn_header_type demo_function = DeviceHeader" by (simp add: demo_function_def)
  note lay = pci_new_layout(1) [OF demo_config_new this]
  have "bc_region_type demo_bar = Memory64BitRegion" "16 \<le> unat (bc_size demo_bar)" by (simp_all add: demo_bar_def)
  note th = bar_sizing [OF std_le_ok lay _ _ add this refl, of I "()"]
  have "bc_idx demo_bar = 0" "bc_size demo_bar = 0x80000" by (simp_all add: demo_bar_def)
  with th regs add show "\<exists>cfg c1 c2. add_pci_bar demo_config demo_bar = Some (Inr (), cfg)
    \<and> write_config_register std_le I cfg 4 0 (write_u32 std_le 0xffffffff) () = Some ([], c1, ())
    \<and> write_config_register std_le I cfg 5 0 (write_u32 std_le 0xffffffff) () = Some ([], c2, ())
    \<and> NOT (push_bit 32 (ucast (read_reg c2 5)) OR ucast (read_reg c1 4 AND BAR_MEM_ADDR_MASK)) + 1 = (0x80000 :: u64)"
    by (auto simp: pci_consts BAR_MEM_ADDR_MASK_def)
qed

end
