(* ===== verification/PvPanic.thy ===== *)
theory PvPanic
  imports BarRelocation PciBarSetup
begin

text \<open>
  The panic device of \<^verbatim>\<open>devices/src/pvpanic.rs\<close>, and the part of \<^verbatim>\<open>vmm/src/device_manager.rs\<close> that adds
  it to the machine: slot, BAR, device tree, bus.  The device is the smallest complete PCI device of
  the code base (one memory BAR, no interrupts), so its path through the configuration space, the
  address manager, the allocator and the bus can be followed as a whole.
\<close>

section \<open>Model\<close>

subsection \<open>The device\<close>

definition PVPANIC_VENDOR_ID :: u16 where "PVPANIC_VENDOR_ID = 0x1b36"
definition PVPANIC_DEVICE_ID :: u16 where "PVPANIC_DEVICE_ID = 0x0011"
definition PVPANIC_DEVICE_MMIO_SIZE :: u64 where "PVPANIC_DEVICE_MMIO_SIZE = 0x2"
definition PVPANIC_DEVICE_MMIO_ALIGNMENT :: u64 where "PVPANIC_DEVICE_MMIO_ALIGNMENT = 0x10"
definition PVPANIC_PANICKED :: u8 where "PVPANIC_PANICKED = 1"
definition PVPANIC_CRASH_LOADED :: u8 where "PVPANIC_CRASH_LOADED = 2"

record pv_panic_device =
  pv_id :: string
  pv_bdf :: u32
  pv_events :: u8
  pv_configuration :: pci_configuration
  pv_bar_regions :: "pci_bar_configuration list"

record pv_panic_snapshot =
  pvs_events :: u8
  pvs_configuration :: "pci_configuration_state option"

definition pvpanic_function :: pci_function_ids where
  "pvpanic_function =
    \<lparr> fn_vendor_id = PVPANIC_VENDOR_ID, fn_device_id = PVPANIC_DEVICE_ID, fn_revision_id = 1,
      fn_class_code = 0x08, fn_subclass = 0x80, fn_programming_interface = None,
      fn_header_type = DeviceHeader, fn_subsystem_vendor_id = 0, fn_subsystem_id = 0 \<rparr>"

text \<open>The device has no MSI-X configuration; the interrupt group \<open>I\<close> of the register write is not used.\<close>

definition pvpanic_new ::
  "byteorder_ops \<Rightarrow> unit isg_ops \<Rightarrow> string \<Rightarrow> u32 \<Rightarrow> pv_panic_snapshot option \<Rightarrow> pv_panic_device option" where
  "pvpanic_new B I ident bdf snapshot =
    (case pci_configuration_new pvpanic_function None (Option.bind snapshot pvs_configuration) of
       None \<Rightarrow> None
     | Some configuration \<Rightarrow>
         (case write_config_register B I configuration 1 0 [0x03, 0x01] () of
            None \<Rightarrow> None
          | Some (bar_reprogram, configuration, _) \<Rightarrow>
              if bar_reprogram \<noteq> [] then None
              else
                Some \<lparr> pv_id = ident, pv_bdf = bdf,
                       pv_events = (case snapshot of Some st \<Rightarrow> pvs_events st
                                    | None \<Rightarrow> PVPANIC_PANICKED OR PVPANIC_CRASH_LOADED),
                       pv_configuration = configuration, pv_bar_regions = [] \<rparr>))"

definition event_to_string :: "u8 \<Rightarrow> string" where
  "event_to_string event =
    (if event = PVPANIC_PANICKED then ''panic''
     else if event = PVPANIC_CRASH_LOADED then ''crash_loaded''
     else ''unknown_event'')"

definition pvpanic_snapshot :: "pv_panic_device \<Rightarrow> pv_panic_snapshot" where
  "pvpanic_snapshot d =
    \<lparr> pvs_events = pv_events d, pvs_configuration = Some (pci_state (pv_configuration d)) \<rparr>"

text \<open>An access of no bytes panics; a write returns the event that is reported to the host.\<close>

definition pvpanic_read :: "pv_panic_device \<Rightarrow> u8 list \<Rightarrow> u8 list option" where
  "pvpanic_read d data = (if data = [] then None else Some (data[0 := pv_events d]))"

definition pvpanic_write :: "u8 list \<Rightarrow> string option" where
  "pvpanic_write data = (if data = [] then None else Some (event_to_string (data ! 0)))"

definition pvpanic_write_config_register ::
  "byteorder_ops \<Rightarrow> unit isg_ops \<Rightarrow> nat \<Rightarrow> u64 \<Rightarrow> u8 list \<Rightarrow> pv_panic_device
     \<Rightarrow> (bar_reprogramming_params list \<times> 'b option \<times> pv_panic_device) option" where
  "pvpanic_write_config_register B I reg_idx offset data d =
    map_option (\<lambda>(ms, cfg, _). (ms, None, d\<lparr> pv_configuration := cfg \<rparr>))
      (write_config_register B I (pv_configuration d) reg_idx offset data ())"

definition pvpanic_move_bar :: "nat \<Rightarrow> u64 \<Rightarrow> pv_panic_device \<Rightarrow> pv_panic_device" where
  "pvpanic_move_bar i new_base d =
    d\<lparr> pv_bar_regions :=
        map (\<lambda>bar. if bc_idx bar = i then bar\<lparr> bc_addr := new_base \<rparr> else bar) (pv_bar_regions d) \<rparr>"

definition pvpanic_restore_bar_addr :: "bar_reprogramming_params \<Rightarrow> pv_panic_device \<Rightarrow> pv_panic_device option" where
  "pvpanic_restore_bar_addr p d =
    map_option (\<lambda>cfg. d\<lparr> pv_configuration := cfg \<rparr>) (restore_bar_addr (pv_configuration d) p)"

definition pvpanic_ops :: "byteorder_ops \<Rightarrow> unit isg_ops \<Rightarrow> (pv_panic_device, 'b) pci_device_ops" where
  "pvpanic_ops B I =
    \<lparr> dev_write_config = pvpanic_write_config_register B I,
      dev_read_config = (\<lambda>reg_idx d. (read_reg (pv_configuration d) reg_idx, d)),
      dev_restore_bar = pvpanic_restore_bar_addr \<rparr>"

text \<open>What the address manager sees: no virtio device, and a \<open>move_bar\<close> that does not fail.\<close>

definition pvpanic_bar_ops :: "(pv_panic_device, 'ev, 'm) bar_device_ops" where
  "pvpanic_bar_ops =
    \<lparr> bd_id = (\<lambda>d. Some (pv_id d)), bd_bdf = pv_bdf, bd_queue_evts = (\<lambda>_. None),
      bd_get_shm = (\<lambda>_. None), bd_set_shm = (\<lambda>_ _. None),
      bd_move_bar = (\<lambda>i new_base d. (True, pvpanic_move_bar i new_base d)) \<rparr>"

subsection \<open>BARs\<close>

datatype pci_device_error =
    CapabilitiesSetup pci_config_error | IoAllocationFailed u64
  | IoRegistrationFailed u64 pci_config_error | MissingResource | InvalidResource resource

definition pvpanic_bar :: "u64 \<Rightarrow> pci_bar_configuration" where
  "pvpanic_bar base =
    \<lparr> bc_addr = base, bc_size = PVPANIC_DEVICE_MMIO_SIZE, bc_idx = 0,
      bc_region_type = Memory32BitRegion, bc_prefetchable = NotPrefetchable \<rparr>"

definition pvpanic_allocate_bars ::
  "guest_address_ops \<Rightarrow> resource list option \<Rightarrow> pv_panic_device \<Rightarrow> address_allocator
     \<Rightarrow> ((pci_device_error + pci_bar_configuration list) \<times> pv_panic_device \<times> address_allocator) option" where
  "pvpanic_allocate_bars A resources d mmio32 =
    (let restoring = resources \<noteq> None in
     case aa_allocate A mmio32 None PVPANIC_DEVICE_MMIO_SIZE (Some PVPANIC_DEVICE_MMIO_ALIGNMENT) of
       (None, mmio32) \<Rightarrow> Some (Inl (IoAllocationFailed PVPANIC_DEVICE_MMIO_SIZE), d, mmio32)
     | (Some base, mmio32) \<Rightarrow>
         let bar = pvpanic_bar base in
         if restoring then Some (Inr [bar], d\<lparr> pv_bar_regions := [bar] \<rparr>, mmio32)
         else
           (case add_pci_bar (pv_configuration d) bar of
              None \<Rightarrow> None
            | Some (Inl e, cfg) \<Rightarrow>
                Some (Inl (IoRegistrationFailed base e), d\<lparr> pv_configuration := cfg \<rparr>, mmio32)
            | Some (Inr _, cfg) \<Rightarrow>
                Some (Inr [bar], d\<lparr> pv_configuration := cfg, pv_bar_regions := [bar] \<rparr>, mmio32)))"

definition pvpanic_free_bars :: "pv_panic_device \<Rightarrow> address_allocator \<Rightarrow> pv_panic_device \<times> address_allocator" where
  "pvpanic_free_bars d mmio32 =
    (d\<lparr> pv_bar_regions := [] \<rparr>, fold (\<lambda>bar al. aa_free al (bc_addr bar) (bc_size bar)) (pv_bar_regions d) mmio32)"

subsection \<open>The device manager\<close>

text \<open>
  The device manager shares the device tree and the allocators of the segments with the address
  manager.  A device is added under a fresh handle \<open>h\<close>.
\<close>

record ('h, 'v) device_manager =
  dm_address_manager :: "('h, 'v) address_manager"
  dm_pci_buses :: "'h pci_bus list"
  dm_bus_devices :: "'h list"

datatype device_manager_error =
    MissingDeviceNodePciBdf | AllocatePciDeviceId pci_root_error | AllocateBars pci_device_error
  | PioInsert bus_error | MmioInsert bus_error

primrec bar_type_of :: "pci_bar_region_type \<Rightarrow> pci_bar_type" where
  "bar_type_of IoRegion = Io"
| "bar_type_of Memory32BitRegion = Mmio32"
| "bar_type_of Memory64BitRegion = Mmio64"

definition bar_resource :: "pci_bar_configuration \<Rightarrow> resource" where
  "bar_resource bar =
    PciBarResource (bc_idx bar) (bc_addr bar) (bc_size bar) (bar_type_of (bc_region_type bar))
      (bc_prefetchable bar = Prefetchable)"

definition segment_allocate_device_id ::
  "'h pci_bus list \<Rightarrow> nat \<Rightarrow> u8 option \<Rightarrow> ((pci_root_error + u8) \<times> 'h pci_bus list) option" where
  "segment_allocate_device_id buses seg wanted =
    (if length buses \<le> seg then None
     else case allocate_device_id (buses ! seg) wanted of (r, b) \<Rightarrow> Some (r, buses[seg := b]))"

definition pci_resources ::
  "string \<Rightarrow> u16 \<Rightarrow> u8 option \<Rightarrow> ('h, 'v) device_manager
     \<Rightarrow> ((device_manager_error + u16 \<times> u32 \<times> resource list option) \<times> ('h, 'v) device_manager) option" where
  "pci_resources ident seg wanted dm =
    (case am_device_tree (dm_address_manager dm) ident of
       Some node \<Rightarrow>
         (case dn_pci_bdf node of
            None \<Rightarrow> Some (Inl MissingDeviceNodePciBdf, dm)
          | Some bdf \<Rightarrow>
              map_option (\<lambda>(r, buses).
                  (case r of Inl e \<Rightarrow> Inl (AllocatePciDeviceId e)
                   | Inr _ \<Rightarrow> Inr (bdf_segment bdf, bdf, Some (dn_resources node)),
                   dm\<lparr> dm_pci_buses := buses \<rparr>))
                (segment_allocate_device_id (dm_pci_buses dm) (unat (bdf_segment bdf)) (Some (bdf_device bdf))))
     | None \<Rightarrow>
         map_option (\<lambda>(r, buses).
             (case r of Inl e \<Rightarrow> Inl (AllocatePciDeviceId e)
              | Inr i \<Rightarrow> Inr (seg, bdf_new seg 0 i 0, None),
              dm\<lparr> dm_pci_buses := buses \<rparr>))
           (segment_allocate_device_id (dm_pci_buses dm) (unat seg) wanted))"

text \<open>\<open>allocate_pci_bars\<close>, for a device that takes its BARs from the 32-bit window.\<close>

definition allocate_pci_bars ::
  "(resource list option \<Rightarrow> 'd \<Rightarrow> address_allocator
      \<Rightarrow> ((pci_device_error + pci_bar_configuration list) \<times> 'd \<times> address_allocator) option)
     \<Rightarrow> nat \<Rightarrow> resource list option \<Rightarrow> 'd \<Rightarrow> ('h, 'v) address_manager
     \<Rightarrow> ((device_manager_error + pci_bar_configuration list \<times> resource list) \<times> 'd \<times> ('h, 'v) address_manager) option" where
  "allocate_pci_bars allocate_bars seg resources d am =
    (if length (am_mmio32 am) \<le> seg then None
     else
       map_option (\<lambda>(r, d, al).
           (case r of Inl e \<Rightarrow> Inl (AllocateBars e) | Inr bars \<Rightarrow> Inr (bars, map bar_resource bars),
            d, am\<lparr> am_mmio32 := (am_mmio32 am)[seg := al] \<rparr>))
         (allocate_bars resources d (am_mmio32 am ! seg)))"

fun register_bar_mapping ::
  "'h \<Rightarrow> pci_bar_configuration list \<Rightarrow> ('h, 'v) address_manager
     \<Rightarrow> (device_manager_error + unit) \<times> ('h, 'v) address_manager" where
  "register_bar_mapping h [] am = (Inr (), am)"
| "register_bar_mapping h (bar # bars) am =
    (if bc_region_type bar = IoRegion
     then (case bus_insert (am_io_bus am) h (bc_addr bar) (bc_size bar) of
             (Inl e, bus) \<Rightarrow> (Inl (PioInsert e), am\<lparr> am_io_bus := bus \<rparr>)
           | (Inr _, bus) \<Rightarrow> register_bar_mapping h bars (am\<lparr> am_io_bus := bus \<rparr>))
     else (case bus_insert (am_mmio_bus am) h (bc_addr bar) (bc_size bar) of
             (Inl e, bus) \<Rightarrow> (Inl (MmioInsert e), am\<lparr> am_mmio_bus := bus \<rparr>)
           | (Inr _, bus) \<Rightarrow> register_bar_mapping h bars (am\<lparr> am_mmio_bus := bus \<rparr>)))"

definition commit_pci_device ::
  "'h \<Rightarrow> nat \<Rightarrow> u32 \<Rightarrow> pci_bar_configuration list \<Rightarrow> ('h, 'v) device_manager
     \<Rightarrow> ((device_manager_error + unit) \<times> ('h, 'v) device_manager) option" where
  "commit_pci_device h seg bdf bars dm =
    (let dm = dm\<lparr> dm_bus_devices := dm_bus_devices dm @ [h] \<rparr> in
     case register_bar_mapping h bars (dm_address_manager dm) of
       (Inl e, am) \<Rightarrow> Some (Inl e, dm\<lparr> dm_address_manager := am \<rparr>)
     | (Inr _, am) \<Rightarrow>
         if length (dm_pci_buses dm) \<le> seg then None
         else Some (Inr (), dm\<lparr> dm_address_manager := am,
                dm_pci_buses := (dm_pci_buses dm)[seg := pci_add_device (dm_pci_buses dm ! seg) (bdf_device bdf) h] \<rparr>))"

definition new_device_node :: "string \<Rightarrow> device_node" where
  "new_device_node ident =
    \<lparr> dn_id = ident, dn_resources = [], dn_parent = None, dn_children = [], dn_pci_bdf = None \<rparr>"

definition PVPANIC_DEVICE_NAME :: string where "PVPANIC_DEVICE_NAME = ''__pvpanic''"

definition add_pvpanic_device ::
  "guest_address_ops \<Rightarrow> byteorder_ops \<Rightarrow> unit isg_ops \<Rightarrow> 'h \<Rightarrow> pv_panic_snapshot option \<Rightarrow> ('h, 'v) device_manager
     \<Rightarrow> ((device_manager_error + pv_panic_device) \<times> ('h, 'v) device_manager) option" where
  "add_pvpanic_device A B I h snapshot dm =
    (case pci_resources PVPANIC_DEVICE_NAME 0 None dm of
       None \<Rightarrow> None
     | Some (Inl e, dm) \<Rightarrow> Some (Inl e, dm)
     | Some (Inr (seg, bdf, resources), dm) \<Rightarrow>
         (case pvpanic_new B I PVPANIC_DEVICE_NAME bdf snapshot of
            None \<Rightarrow> None
          | Some d \<Rightarrow>
              (case allocate_pci_bars (pvpanic_allocate_bars A) (unat seg) resources d (dm_address_manager dm) of
                 None \<Rightarrow> None
               | Some (Inl e, d, am) \<Rightarrow> Some (Inl e, dm\<lparr> dm_address_manager := am \<rparr>)
               | Some (Inr (bars, new_resources), d, am) \<Rightarrow>
                   let node = (new_device_node PVPANIC_DEVICE_NAME)\<lparr> dn_resources := new_resources, dn_pci_bdf := Some bdf \<rparr>;
                       am = am\<lparr> am_device_tree := (am_device_tree am)(PVPANIC_DEVICE_NAME \<mapsto> node) \<rparr>
                   in (case commit_pci_device h (unat seg) bdf bars (dm\<lparr> dm_address_manager := am \<rparr>) of
                         None \<Rightarrow> None
                       | Some (Inl e, dm) \<Rightarrow> Some (Inl e, dm)
                       | Some (Inr _, dm) \<Rightarrow> Some (Inr d, dm)))))"

section \<open>The device in the machine\<close>

text \<open>
  The state of a machine with the panic device behind handle \<open>h\<close>: the BAR that the device believes it
  has is allocated, routed to \<open>h\<close> and to nothing else, and recorded in the device tree.
\<close>

definition pv_base :: "pv_panic_device \<Rightarrow> u64" where
  "pv_base d = bc_addr (hd (pv_bar_regions d))"

definition pv_mapped :: "pv_panic_device \<Rightarrow> ('h, 'v) address_manager \<Rightarrow> nat \<Rightarrow> u64" where
  "pv_mapped d am i = (if i = 0 then pv_base d else 0)"

definition pv_one_bar :: "pci_configuration \<Rightarrow> bool" where
  "pv_one_bar cfg \<longleftrightarrow> (\<forall>i. bar_live cfg i \<longleftrightarrow> i = 0) \<and> bar_len cfg 0 = PVPANIC_DEVICE_MMIO_SIZE
     \<and> bar_region cfg 0 = Memory32BitRegion"

definition pv_placed :: "'h \<Rightarrow> nat \<Rightarrow> string \<Rightarrow> u64 \<Rightarrow> ('h, 'v) address_manager \<Rightarrow> bool" where
  "pv_placed h seg ident base am \<longleftrightarrow>
    seg < length (am_mmio32 am)
    \<and> range_mapped h base PVPANIC_DEVICE_MMIO_SIZE (am_mmio32 am ! seg) (am_mmio_bus am)
    \<and> (\<forall>(b, l, e) \<in> set (am_mmio_bus am). e = h \<longrightarrow> b = base)
    \<and> (\<exists>node. am_device_tree am ident = Some node
          \<and> dn_resources node = [PciBarResource 0 base PVPANIC_DEVICE_MMIO_SIZE Mmio32 False])"

definition pv_sys ::
  "guest_address_ops \<Rightarrow> ('h \<Rightarrow> bool) \<Rightarrow> 'h \<Rightarrow> pv_panic_device \<Rightarrow> ('h, 'v) address_manager \<Rightarrow> bool" where
  "pv_sys A alive h d am \<longleftrightarrow>
    guest_address_ok A \<and> alive h \<and> pv_bar_regions d = [pvpanic_bar (pv_base d)]
    \<and> pv_one_bar (pv_configuration d)
    \<and> pv_placed h (unat (bdf_segment (pv_bdf d))) (pv_id d) (pv_base d) am"

lemma pv_one_bar_same:
  assumes "same_layout c c'" and "layout_ok c" and "pv_one_bar c"
  shows "pv_one_bar c'"
  using same_layout_live [OF assms(1)] same_layout_desc [OF assms(1,2), of 0] assms(2,3)
  by (auto simp: pv_one_bar_def layout_ok_def)

lemma pv_sys_config:
  "pv_sys A alive h (d\<lparr> pv_configuration := c \<rparr>) am \<longleftrightarrow>
    pv_one_bar c \<and> guest_address_ok A \<and> alive h \<and> pv_bar_regions d = [pvpanic_bar (pv_base d)]
    \<and> pv_placed h (unat (bdf_segment (pv_bdf d))) (pv_id d) (pv_base d) am"
  "pv_mapped (d\<lparr> pv_configuration := c \<rparr>) am = pv_mapped d am"
  by (auto simp: pv_sys_def pv_base_def pv_mapped_def fun_eq_iff)

lemma pv_placed_moved:
  assumes "pv_placed h seg ident base am"
    and "range_mapped h n PVPANIC_DEVICE_MMIO_SIZE al (am_mmio_bus am')"
    and "am_mmio_bus am' = bt_insert n (PVPANIC_DEVICE_MMIO_SIZE, h) (bt_remove base (am_mmio_bus am))"
    and "am_mmio32 am' = (am_mmio32 am)[seg := al]"
    and "am_device_tree am' = (am_device_tree am)(ident \<mapsto> node)"
    and "dn_resources node = [PciBarResource 0 n PVPANIC_DEVICE_MMIO_SIZE Mmio32 False]"
  shows "pv_placed h seg ident n am'"
proof -
  have wf: "bt_wf (am_mmio_bus am)" using assms(1) by (simp add: pv_placed_def range_mapped_def bus_wf_def)
  have old: "b = base" if "(b, l, h) \<in> set (am_mmio_bus am)" for b l
    using assms(1) that by (auto simp: pv_placed_def)
  have "b = n" if e: "(b, l, h) \<in> set (am_mmio_bus am')" for b l
  proof (rule ccontr)
    assume "b \<noteq> n"
    then have "(b, l, h) \<in> set (bt_remove base (am_mmio_bus am))"
      using e by (auto simp: assms(3) bt_insert_set bt_remove_wf [OF wf])
    then show False using old wf by (auto simp: bt_remove_set)
  qed
  then show ?thesis using assms by (auto simp: pv_placed_def)
qed

lemma pvpanic_move_cases:
  assumes sys: "pv_sys A alive h d am"
  shows "\<exists>r d' am'. am_move_bar A alive V pvpanic_bar_ops 0 (pv_base d) n PVPANIC_DEVICE_MMIO_SIZE Memory32BitRegion d am
      = Some (r, d', am')
    \<and> (case r of Inl _ \<Rightarrow> d' = d \<and> am' = am
       | Inr _ \<Rightarrow> d' = pvpanic_move_bar 0 n d \<and> pv_placed h (unat (bdf_segment (pv_bdf d))) (pv_id d) n am')"
proof -
  let ?seg = "unat (bdf_segment (pv_bdf d))" and ?L = PVPANIC_DEVICE_MMIO_SIZE
  from sys have A: "guest_address_ok A" and h: "alive h" and pl: "pv_placed h ?seg (pv_id d) (pv_base d) am"
    by (auto simp: pv_sys_def)
  then have seg: "?seg < length (am_mmio32 am)" and rm: "range_mapped h (pv_base d) ?L (am_mmio32 am ! ?seg) (am_mmio_bus am)"
    by (auto simp: pv_placed_def)
  from pl obtain node where node: "am_device_tree am (pv_id d) = Some node"
    "dn_resources node = [PciBarResource 0 (pv_base d) ?L Mmio32 False]" by (auto simp: pv_placed_def)
  have sm: "am\<lparr> am_mmio32 := (am_mmio32 am)[?seg := am_mmio32 am ! ?seg] \<rparr> = am" by simp
  from move_range_cases [of A h _ _ _ _ alive n, OF A rm h] show ?thesis
  proof (elim disjE exE conjE)
    assume "aa_move_range A (am_mmio32 am ! ?seg) (pv_base d) n ?L (Some ?L) = (None, am_mmio32 am ! ?seg)"
    then show ?thesis
      using seg sm by (simp add: am_move_bar_def move_ranges_def move_mmio_range_def pvpanic_bar_ops_def Let_def)
  next
    fix al bus
    assume m: "aa_move_range A (am_mmio32 am ! ?seg) (pv_base d) n ?L (Some ?L) = (Some n, al)"
      "update_range alive (am_mmio_bus am) (pv_base d) ?L n ?L = (Inr (), bus)" "range_mapped h n ?L al bus"
      "bus = bt_insert n (?L, h) (bt_remove (pv_base d) (am_mmio_bus am))"
    let ?node = "node\<lparr> dn_resources := [PciBarResource 0 n ?L Mmio32 False] \<rparr>"
    let ?am = "am\<lparr> am_mmio32 := (am_mmio32 am)[?seg := al], am_mmio_bus := bus,
      am_device_tree := (am_device_tree am)(pv_id d \<mapsto> ?node), am_vm := am_vm am \<rparr>"
    have "pv_placed h ?seg (pv_id d) n ?am"
      by (rule pv_placed_moved [OF pl, of n al _ ?node]) (use m in simp_all)
    then show ?thesis
      using m(1,2) seg node
      by (simp add: am_move_bar_def move_ranges_def move_mmio_range_def pvpanic_bar_ops_def update_device_tree_def
          move_virtio_def Let_def)
  qed
qed

lemma pv_sys_moved:
  assumes "pv_sys A alive h d am" and "pv_placed h (unat (bdf_segment (pv_bdf d))) (pv_id d) n am'"
  shows "pv_sys A alive h (pvpanic_move_bar 0 n d) am'" and "pv_mapped (pvpanic_move_bar 0 n d) am' = (pv_mapped d am)(0 := n)"
    and "pv_configuration (pvpanic_move_bar 0 n d) = pv_configuration d"
proof -
  obtain a where a: "pv_bar_regions d = [pvpanic_bar a]" using assms(1) by (auto simp: pv_sys_def)
  have "pv_bar_regions (pvpanic_move_bar 0 n d) = [pvpanic_bar n]"
    by (simp add: pvpanic_move_bar_def a pvpanic_bar_def)
  moreover from this have b: "pv_base (pvpanic_move_bar 0 n d) = n" by (simp add: pv_base_def pvpanic_bar_def)
  ultimately show "pv_sys A alive h (pvpanic_move_bar 0 n d) am'"
    using assms by (simp add: pv_sys_def) (simp add: pvpanic_move_bar_def)
  show "pv_mapped (pvpanic_move_bar 0 n d) am' = (pv_mapped d am)(0 := n)"
    by (auto simp: pv_mapped_def b fun_eq_iff)
  show "pv_configuration (pvpanic_move_bar 0 n d) = pv_configuration d" by (simp add: pvpanic_move_bar_def)
qed

interpretation pvp: relocated_device "pvpanic_ops B I" "am_move_bar A alive V pvpanic_bar_ops" pv_configuration
  pv_mapped "pv_sys A alive h"
proof (unfold_locales, goal_cases)
  case (1 reg offset data d ms ret d' loc)
  then show ?case using write_config_moves [of "pv_configuration d" loc data reg B I offset "()" ms]
    by (auto simp: pvpanic_ops_def pvpanic_write_config_register_def)
next
  case (2 reg offset data d ms ret d' s)
  then obtain c where c: "write_config_register B I (pv_configuration d) reg offset data () = Some (ms, c, ())"
    "d' = d\<lparr> pv_configuration := c \<rparr>"
    by (auto simp: pvpanic_ops_def pvpanic_write_config_register_def)
  then show ?case
    using 2 pv_one_bar_same [OF write_config_layout [OF c(1)]] by (simp add: pv_sys_config) (simp add: pv_sys_def)
next
  case (3 d p c)
  then show ?case by (simp add: pvpanic_ops_def pvpanic_restore_bar_addr_def)
next
  case (4 p d d' s)
  then obtain c where c: "restore_bar_addr (pv_configuration d) p = Some c" "d' = d\<lparr> pv_configuration := c \<rparr>"
    by (auto simp: pvpanic_ops_def pvpanic_restore_bar_addr_def)
  then show ?case
    using 4 pv_one_bar_same [OF restore_bar_addr_layout [OF c(1)]] by (simp add: pv_sys_config) (simp add: pv_sys_def)
next
  case (5 d s i n)
  then have "i = 0" "bar_len (pv_configuration d) 0 = PVPANIC_DEVICE_MMIO_SIZE"
    "bar_region (pv_configuration d) 0 = Memory32BitRegion" by (auto simp: pv_sys_def pv_one_bar_def)
  then show ?case using pvpanic_move_cases [OF 5(1), of V n] by (auto simp: pv_mapped_def)
next
  case (6 d s i n r d' s')
  then have "i = 0" "bar_len (pv_configuration d) 0 = PVPANIC_DEVICE_MMIO_SIZE"
    "bar_region (pv_configuration d) 0 = Memory32BitRegion" by (auto simp: pv_sys_def pv_one_bar_def)
  then show ?case
    using pvpanic_move_cases [OF 6(1), of V n] pv_sys_moved [OF 6(1), of n s'] 6
    by (auto simp: pv_mapped_def split: sum.splits)
qed

section \<open>Adding the device\<close>

lemma aa_allocate_fits:
  assumes ok: "guest_address_ok ops" and wf: "aa_wf a" and n: "n \<noteq> 0" and k: "is_power_of_two k"
    and room: "unat (aa_end a) + 1 + unat k \<le> 2 ^ 64"
    and a: "aa_allocate ops a None n (Some k) = (Some y, a')"
  shows "unat k dvd unat y" and "is_free_range a (unat y) (unat n)"
    and "a' = a\<lparr> aa_ranges := bt_insert y n (aa_ranges a) \<rparr>"
proof -
  have y: "first_available_range ops a n k = Some y" "a' = a\<lparr> aa_ranges := bt_insert y n (aa_ranges a) \<rparr>"
    using a n k by (auto simp: aa_allocate_def Let_def split: option.splits)
  then show "unat k dvd unat y" "is_free_range a (unat y) (unat n)"
    "a' = a\<lparr> aa_ranges := bt_insert y n (aa_ranges a) \<rparr>"
    using first_available_range_spec [OF ok wf n k room] by (simp_all add: greatest_aligned_def)
qed

lemma range_mapped_new:
  assumes wf: "aa_wf al" "bus_wf bus" "window_known bus al" and free: "is_free_range al (unat b) (unat n)" and n: "n \<noteq> 0"
    and ins: "bus_insert bus h b n = (Inr (), bus')"
  shows "range_mapped h b n (al\<lparr> aa_ranges := bt_insert b n (aa_ranges al) \<rparr>) bus'"
    and "set bus' = insert (b, n, h) (set bus)"
proof -
  have room: "unat b + unat n < 2 ^ 64" using free wf(1) by (auto simp: is_free_range_def aa_wf_def)
  have fr: "bus_free_range bus b n" and bus': "bus' = bt_insert b (n, h) bus"
    using ins n bus_insert_eq [OF wf(2) room, of h] by (auto split: if_splits)
  show set: "set bus' = insert (b, n, h) (set bus)"
    unfolding bus' by (rule bus_insert_set [OF wf(2) fr n])
  have cov: "aa_covered (al\<lparr> aa_ranges := bt_insert b n (aa_ranges al) \<rparr>) = {unat b..<unat b + unat n} \<union> aa_covered al"
    by (rule aa_insert_covered(1) [OF wf(1) free n])
  have "window_known bus' (al\<lparr> aa_ranges := bt_insert b n (aa_ranges al) \<rparr>)"
    using wf(3) unfolding window_known_def set cov by auto
  then show "range_mapped h b n (al\<lparr> aa_ranges := bt_insert b n (aa_ranges al) \<rparr>) bus'"
    using aa_insert_wf [OF wf(1) free n] bus_insert_wf [OF wf(2) fr n room, of h] n set wf(1)
    by (simp add: range_mapped_def bus' bt_simps aa_wf_def)
qed

lemma pvpanic_new_config:
  assumes "pvpanic_new B I ident bdf None = Some d"
  shows "layout_ok (pv_configuration d)" "pc_pending (pv_configuration d) = []" "\<not> bar_live (pv_configuration d) i"
    "pv_id d = ident" "pv_bdf d = bdf"
proof -
  from assms obtain c c' where c: "pci_configuration_new pvpanic_function None None = Some c"
    and w: "write_config_register B I c 1 0 [0x03, 0x01] () = Some ([], c', ())"
    and d: "pv_configuration d = c'" "pv_id d = ident" "pv_bdf d = bdf"
    by (auto simp: pvpanic_new_def split: option.splits if_splits)
  have "fn_header_type pvpanic_function = DeviceHeader" by (simp add: pvpanic_function_def)
  note n = pci_new_layout [OF c this]
  have s: "same_layout c c'" by (rule write_config_layout [OF w])
  have live: "\<not> bar_live c' i" for i using same_layout_live [OF s] n by (simp add: layout_ok_def)
  have "bars_inv c (\<lambda>_. 0)" using n by (simp add: bars_inv_def)
  from write_config_moves [OF this _ w] have "moves_ok c' (\<lambda>_. 0) (pc_pending c')" by (simp add: bars_inv_def)
  from moves_ok_live [OF this] live have "pc_pending c' = []" by (cases "pc_pending c'") auto
  with live same_layout_ok [OF s n(1)] d
  show "layout_ok (pv_configuration d)" "pc_pending (pv_configuration d) = []" "\<not> bar_live (pv_configuration d) i"
    "pv_id d = ident" "pv_bdf d = bdf" by simp_all
qed

lemma aligned_fits:
  assumes "16 dvd unat (b :: u64)" and "unat b < 2 ^ 32"
  shows "b AND ucast BAR_MEM_ADDR_MASK = b"
proof -
  have "unat b mod 16 = 0" using assms(1) by auto
  then have "take_bit 4 b = 0" by (simp add: unat_eq_0 [symmetric] unat_mod take_bit_eq_mod)
  then have lo: "\<not> bit b n" if "n < 4" for n using that by (metis bit_0_eq bit_take_bit_iff bot_apply bot_bool_def)
  have hi: "\<not> bit b n" if "32 \<le> n" for n
  proof -
    have "take_bit 32 b = b" using assms(2) by (intro word_unat_eq_iff [THEN iffD2]) (simp add: unsigned_take_bit_eq take_bit_nat_eq_self)
    then show ?thesis using that by (metis bit_take_bit_iff leD)
  qed
  have m: "BAR_MEM_ADDR_MASK = push_bit 4 (mask 28)" by (simp add: BAR_MEM_ADDR_MASK_def mask_eq_exp_minus_1)
  have "4 \<le> n \<and> n < 32 \<and> n - 4 < 28 \<and> n - 4 < 32" if "bit b n" for n
    using lo [of n] hi [of n] that by (cases "4 \<le> n"; cases "n < 32") auto
  then show ?thesis
    unfolding m by (intro bit_word_eqI) (auto simp: bit_simps)
qed

lemma pvpanic_bar_added:
  assumes new: "pvpanic_new B I ident bdf None = Some d0" and base: "16 dvd unat base"
    and add: "add_pci_bar (pv_configuration d0) (pvpanic_bar base) = Some (Inr (), cfg)"
  shows "pv_one_bar cfg" and "bars_inv cfg (\<lambda>i. if i = 0 then base else 0)"
proof -
  note n = pvpanic_new_config [OF new]
  have bc: "bc_idx (pvpanic_bar base) = 0" "bc_size (pvpanic_bar base) = PVPANIC_DEVICE_MMIO_SIZE"
    "bc_region_type (pvpanic_bar base) = Memory32BitRegion" "bc_addr (pvpanic_bar base) = base"
    by (simp_all add: pvpanic_bar_def)
  have ba: "bar_added (pv_configuration d0) (pvpanic_bar base) cfg" by (rule add_pci_bar_ok [OF n(1) add])
  then show "pv_one_bar cfg" using n(3) by (auto simp: bar_added_def pv_one_bar_def bc)
  then have live: "bar_live cfg i \<longleftrightarrow> i = 0" for i by (simp add: pv_one_bar_def)
  obtain e where e: "checked_add base (PVPANIC_DEVICE_MMIO_SIZE - 1) = Some e" "\<not> 0xffffffff < e"
    using add_pci_bar_checks(4) [OF n(1) add] by (auto simp: bar_set_size_def bc Let_def split: if_splits)
  then have "unat base < 2 ^ 32"
    by (auto simp: checked_add_Some_iff PVPANIC_DEVICE_MMIO_SIZE_def word_le_nat_alt not_less unat_word_ariths)
  then have fit: "base AND ucast BAR_MEM_ADDR_MASK = base" by (rule aligned_fits [OF base])
  have "bar_ok cfg 0" "bar_type (pc_bars cfg ! 0) = Some Memory32BitRegion"
    using ba live [of 0] by (auto simp: bar_added_def layout_ok_def bar_region_def bc bar_live_def pci_consts)
  then have bits: "bar_bits cfg 0 = ucast BAR_MEM_ADDR_MASK"
    by (simp add: bar_bits_def bar_ok_def Let_def addr_bits_def pci_consts)
  have add_ok: "layout_ok cfg" "pc_pending cfg = pc_pending (pv_configuration d0)" using ba by (simp_all add: bar_added_def)
  have "bar_base cfg 0 = base" using ba fit by (simp add: bar_added_def bc bits)
  then show "bars_inv cfg (\<lambda>i. if i = 0 then base else 0)"
    using add_ok n(2) fit by (simp add: bars_inv_def live base_fits_def bits)
qed

text \<open>A machine that is ready for the device: its name and its handle are not in use.\<close>

definition dm_ready :: "'h \<Rightarrow> ('h, 'v) device_manager \<Rightarrow> bool" where
  "dm_ready h dm \<longleftrightarrow>
    (let am = dm_address_manager dm in
     am_device_tree am PVPANIC_DEVICE_NAME = None \<and> am_mmio32 am \<noteq> []
     \<and> aa_wf (am_mmio32 am ! 0) \<and> unat (aa_end (am_mmio32 am ! 0)) + 1 + 16 \<le> 2 ^ 64
     \<and> bus_wf (am_mmio_bus am) \<and> window_known (am_mmio_bus am) (am_mmio32 am ! 0)
     \<and> (\<forall>(b, l, e) \<in> set (am_mmio_bus am). e \<noteq> h))"

lemma pvpanic_allocate_fresh:
  assumes "pvpanic_allocate_bars A None d al = Some (Inr bars, d', al')"
  shows "\<exists>base cfg. aa_allocate A al None PVPANIC_DEVICE_MMIO_SIZE (Some PVPANIC_DEVICE_MMIO_ALIGNMENT) = (Some base, al')
    \<and> add_pci_bar (pv_configuration d) (pvpanic_bar base) = Some (Inr (), cfg) \<and> bars = [pvpanic_bar base]
    \<and> d' = d\<lparr> pv_configuration := cfg, pv_bar_regions := [pvpanic_bar base] \<rparr>"
  using assms by (auto simp: pvpanic_allocate_bars_def Let_def split: option.splits prod.splits sum.splits)

lemma pvpanic_commit:
  assumes "commit_pci_device h seg bdf [pvpanic_bar base] dm = Some (Inr u, dm')"
  shows "\<exists>bus. bus_insert (am_mmio_bus (dm_address_manager dm)) h base PVPANIC_DEVICE_MMIO_SIZE = (Inr (), bus)
    \<and> dm_address_manager dm' = (dm_address_manager dm)\<lparr> am_mmio_bus := bus \<rparr>"
  using assms
  by (auto simp: commit_pci_device_def pvpanic_bar_def Let_def split: prod.splits sum.splits if_splits)

lemma allocate_pci_bars_Some:
  assumes "allocate_pci_bars f seg res d am = Some (Inr (bars, rs), d', am')"
  shows "\<exists>al. f res d (am_mmio32 am ! seg) = Some (Inr bars, d', al) \<and> rs = map bar_resource bars
    \<and> am' = am\<lparr> am_mmio32 := (am_mmio32 am)[seg := al] \<rparr>"
proof -
  from assms obtain r al where r: "f res d (am_mmio32 am ! seg) = Some (r, d', al)"
    and eq: "(case r of Inl e \<Rightarrow> Inl (AllocateBars e) | Inr bars \<Rightarrow> Inr (bars, map bar_resource bars)) = Inr (bars, rs)"
      "am' = am\<lparr> am_mmio32 := (am_mmio32 am)[seg := al] \<rparr>"
    by (auto simp: allocate_pci_bars_def split: if_splits)
  then show ?thesis by (cases r) auto
qed

lemma add_pvpanic_steps:
  assumes add: "add_pvpanic_device A B I h None dm = Some (Inr d, dm')"
    and new: "am_device_tree (dm_address_manager dm) PVPANIC_DEVICE_NAME = None"
  shows "\<exists>i d0 bars al dm1. pvpanic_new B I PVPANIC_DEVICE_NAME (bdf_new 0 0 i 0) None = Some d0
    \<and> pvpanic_allocate_bars A None d0 (am_mmio32 (dm_address_manager dm) ! 0) = Some (Inr bars, d, al)
    \<and> dm_address_manager dm1 = (dm_address_manager dm)\<lparr> am_mmio32 := (am_mmio32 (dm_address_manager dm))[0 := al],
        am_device_tree := (am_device_tree (dm_address_manager dm))(PVPANIC_DEVICE_NAME \<mapsto>
          (new_device_node PVPANIC_DEVICE_NAME)\<lparr> dn_resources := map bar_resource bars, dn_pci_bdf := Some (bdf_new 0 0 i 0) \<rparr>) \<rparr>
    \<and> commit_pci_device h 0 (bdf_new 0 0 i 0) bars dm1 = Some (Inr (), dm')"
proof -
  from add new obtain i buses where "segment_allocate_device_id (dm_pci_buses dm) 0 None = Some (Inr i, buses)"
    by (auto simp: add_pvpanic_device_def pci_resources_def split: option.splits sum.splits prod.splits)
  with new have r: "pci_resources PVPANIC_DEVICE_NAME 0 None dm = Some (Inr (0, bdf_new 0 0 i 0, None), dm\<lparr> dm_pci_buses := buses \<rparr>)"
    by (simp add: pci_resources_def)
  from add r obtain d0 where n: "pvpanic_new B I PVPANIC_DEVICE_NAME (bdf_new 0 0 i 0) None = Some d0"
    by (auto simp: add_pvpanic_device_def split: option.splits)
  from add r n obtain bars rs am where
    m: "allocate_pci_bars (pvpanic_allocate_bars A) 0 None d0 (dm_address_manager dm) = Some (Inr (bars, rs), d, am)"
    by (auto simp: add_pvpanic_device_def Let_def split: option.splits sum.splits prod.splits)
  from allocate_pci_bars_Some [OF this] obtain al where
    a: "pvpanic_allocate_bars A None d0 (am_mmio32 (dm_address_manager dm) ! 0) = Some (Inr bars, d, al)"
    "rs = map bar_resource bars" "am = (dm_address_manager dm)\<lparr> am_mmio32 := (am_mmio32 (dm_address_manager dm))[0 := al] \<rparr>" by blast
  let ?am = "(dm_address_manager dm)\<lparr> am_mmio32 := (am_mmio32 (dm_address_manager dm))[0 := al],
        am_device_tree := (am_device_tree (dm_address_manager dm))(PVPANIC_DEVICE_NAME \<mapsto>
          (new_device_node PVPANIC_DEVICE_NAME)\<lparr> dn_resources := map bar_resource bars, dn_pci_bdf := Some (bdf_new 0 0 i 0) \<rparr>) \<rparr>"
  from add r n m a
  have c: "commit_pci_device h 0 (bdf_new 0 0 i 0) bars (dm\<lparr> dm_pci_buses := buses, dm_address_manager := ?am \<rparr>) = Some (Inr (), dm')"
    by (simp add: add_pvpanic_device_def Let_def split: option.splits sum.splits prod.splits)
  have "dm_address_manager (dm\<lparr> dm_pci_buses := buses, dm_address_manager := ?am \<rparr>) = ?am" by simp
  with n a(1) c show ?thesis by blast
qed

lemma add_pvpanic_sys:
  assumes A: "guest_address_ok A" and h: "alive h" and dm: "dm_ready h dm"
    and add: "add_pvpanic_device A B I h None dm = Some (Inr d, dm')"
  shows "pv_sys A alive h d (dm_address_manager dm')"
    and "bars_inv (pv_configuration d) (pv_mapped d (dm_address_manager dm'))"
    and "pv_id d = PVPANIC_DEVICE_NAME" and "bdf_segment (pv_bdf d) = 0"
proof -
  let ?am = "dm_address_manager dm" and ?L = PVPANIC_DEVICE_MMIO_SIZE
  let ?al = "am_mmio32 ?am ! 0"
  from dm have ready: "am_device_tree ?am PVPANIC_DEVICE_NAME = None" "am_mmio32 ?am \<noteq> []" "aa_wf ?al"
    "unat (aa_end ?al) + 1 + 16 \<le> 2 ^ 64" "bus_wf (am_mmio_bus ?am)" "window_known (am_mmio_bus ?am) ?al"
    "\<forall>(b, l, e) \<in> set (am_mmio_bus ?am). e \<noteq> h" by (auto simp: dm_ready_def Let_def)
  have k: "is_power_of_two PVPANIC_DEVICE_MMIO_ALIGNMENT" and L: "?L \<noteq> 0"
    unfolding is_power_of_two_iff PVPANIC_DEVICE_MMIO_ALIGNMENT_def PVPANIC_DEVICE_MMIO_SIZE_def
    by (rule exI [of _ 4]) simp_all
  from add_pvpanic_steps [OF add ready(1)] obtain i d0 bars al dm1 where
      new: "pvpanic_new B I PVPANIC_DEVICE_NAME (bdf_new 0 0 i 0) None = Some d0"
    and alloc: "pvpanic_allocate_bars A None d0 ?al = Some (Inr bars, d, al)"
    and am1: "dm_address_manager dm1 = ?am\<lparr> am_mmio32 := (am_mmio32 ?am)[0 := al],
        am_device_tree := (am_device_tree ?am)(PVPANIC_DEVICE_NAME \<mapsto>
          (new_device_node PVPANIC_DEVICE_NAME)\<lparr> dn_resources := map bar_resource bars, dn_pci_bdf := Some (bdf_new 0 0 i 0) \<rparr>) \<rparr>"
    and commit: "commit_pci_device h 0 (bdf_new 0 0 i 0) bars dm1 = Some (Inr (), dm')" by blast
  from pvpanic_allocate_fresh [OF alloc] obtain base cfg where
      aa: "aa_allocate A ?al None ?L (Some PVPANIC_DEVICE_MMIO_ALIGNMENT) = (Some base, al)"
    and bar: "add_pci_bar (pv_configuration d0) (pvpanic_bar base) = Some (Inr (), cfg)" and bars: "bars = [pvpanic_bar base]"
    and d: "d = d0\<lparr> pv_configuration := cfg, pv_bar_regions := [pvpanic_bar base] \<rparr>" by blast
  from pvpanic_commit [OF commit [unfolded bars]] obtain bus where
      bus: "bus_insert (am_mmio_bus ?am) h base ?L = (Inr (), bus)"
    and am': "dm_address_manager dm' = (dm_address_manager dm1)\<lparr> am_mmio_bus := bus \<rparr>" by (auto simp: am1)
  have al: "16 dvd unat base" "is_free_range ?al (unat base) (unat ?L)"
      "al = ?al\<lparr> aa_ranges := bt_insert base ?L (aa_ranges ?al) \<rparr>"
    using aa_allocate_fits [OF A ready(3) L k _ aa] ready(4) by (simp_all add: PVPANIC_DEVICE_MMIO_ALIGNMENT_def)
  note rm = range_mapped_new [OF ready(3,5,6) al(2) L bus]
  show seg: "bdf_segment (pv_bdf d) = 0" and ident: "pv_id d = PVPANIC_DEVICE_NAME"
    using pvpanic_new_config [OF new] by (simp_all add: d bdf_new_fields)
  have b: "pv_base d = base" by (simp add: d pv_base_def pvpanic_bar_def)
  have "pv_placed h 0 PVPANIC_DEVICE_NAME base (dm_address_manager dm')"
    using rm al(3) ready(2,7) by (auto simp: pv_placed_def am' am1 bars bar_resource_def pvpanic_bar_def)
  then show "pv_sys A alive h d (dm_address_manager dm')"
    using A h pvpanic_bar_added(1) [OF new al(1) bar] by (simp add: pv_sys_def b seg ident) (simp add: d)
  show "bars_inv (pv_configuration d) (pv_mapped d (dm_address_manager dm'))"
    using pvpanic_bar_added(2) [OF new al(1) bar] unfolding pv_mapped_def [abs_def] b by (simp add: d)
qed

section \<open>The guest moves the BAR\<close>

lemma pv_placed_routes:
  assumes "pv_placed h seg ident base am" and "alive h"
  shows "(\<exists>b off. resolve alive (am_mmio_bus am) x = Some (b, off, h)) \<longleftrightarrow> in_range base PVPANIC_DEVICE_MMIO_SIZE x"
proof -
  let ?bus = "am_mmio_bus am"
  from assms(1) have wf: "bus_wf ?bus" and e: "(base, PVPANIC_DEVICE_MMIO_SIZE, h) \<in> set ?bus"
    and only: "\<And>b l. (b, l, h) \<in> set ?bus \<Longrightarrow> b = base" by (auto simp: pv_placed_def range_mapped_def)
  have own: "owner ?bus x b h \<longleftrightarrow> b = base \<and> in_range base PVPANIC_DEVICE_MMIO_SIZE x" for b
  proof -
    have "l = PVPANIC_DEVICE_MMIO_SIZE" if "(base, l, h) \<in> set ?bus" for l
      using wf that e by (auto simp: bus_wf_def bt_get_iff [symmetric])
    then show ?thesis using only [of b] e unfolding owner_def by blast
  qed
  show ?thesis
  proof (cases "\<exists>b d. owner ?bus x b d")
    case True
    then obtain b d where o: "owner ?bus x b d" by blast
    note r = resolve_owner [OF wf o, of alive]
    show ?thesis
    proof (cases "d = h")
      case True
      with o own [of b] have "in_range base PVPANIC_DEVICE_MMIO_SIZE x" by simp
      then show ?thesis using r True assms(2) by simp
    next
      case False
      then have "\<not> owner ?bus x base h" using owner_unique [OF wf o] by blast
      then have "\<not> in_range base PVPANIC_DEVICE_MMIO_SIZE x" using own [of base] by simp
      then show ?thesis using r False by simp
    qed
  next
    case False
    then show ?thesis using resolve_no_owner [OF wf False, of alive] own [of base] by simp
  qed
qed

text \<open>
  C0: the panic device can be reached exactly where its configuration says.  The device is added to
  the machine and the guest then writes configuration registers, moving the BAR as often as it
  likes.  Whenever no move is held back, the accesses that the bus routes to the device are those
  inside the BAR of its configuration, the allocator has that range and the device tree records it.
\<close>
theorem pvpanic_bar_follows:
  assumes A: "guest_address_ok A" and alive: "alive h" and dm: "dm_ready h dm"
    and add: "add_pvpanic_device A B I h None dm = Some (Inr d, dm')"
    and R: "R = am_move_bar A alive V pvpanic_bar_ops" and P: "P = pvpanic_ops B I"
    and ok: "run_ok R P pv_configuration ws d (dm_address_manager dm')"
    and run: "config_run R P ws d (dm_address_manager dm') = Some (d', am')"
    and settled: "pc_pending (pv_configuration d') = []"
  shows "let b = bar_base (pv_configuration d') 0; seg = unat (bdf_segment (pv_bdf d')) in
    (\<forall>x. (\<exists>base off. resolve alive (am_mmio_bus am') x = Some (base, off, h)) \<longleftrightarrow> in_range b PVPANIC_DEVICE_MMIO_SIZE x)
    \<and> bt_get (aa_ranges (am_mmio32 am' ! seg)) b = Some PVPANIC_DEVICE_MMIO_SIZE
    \<and> (\<exists>node. am_device_tree am' (pv_id d') = Some node
         \<and> dn_resources node = [PciBarResource 0 b PVPANIC_DEVICE_MMIO_SIZE Mmio32 False])"
proof -
  note start = add_pvpanic_sys [of A alive h, OF A alive dm add]
  from pvp.run_consistent [OF start(1,2) ok [unfolded R P] run [unfolded R P]]
  have sys: "pv_sys A alive h d' am'" and inv: "bars_inv (pv_configuration d') (pv_mapped d' am')" by auto
  have "bar_live (pv_configuration d') 0" using sys by (simp add: pv_sys_def pv_one_bar_def)
  then have b: "bar_base (pv_configuration d') 0 = pv_base d'"
    using inv settled by (auto simp: bars_inv_def pv_mapped_def)
  from sys have pl: "pv_placed h (unat (bdf_segment (pv_bdf d'))) (pv_id d') (pv_base d') am'" by (simp add: pv_sys_def)
  from pv_placed_routes [of h _ _ _ _ alive, OF this alive] pl show ?thesis
    by (simp add: b Let_def) (auto simp: pv_placed_def range_mapped_def)
qed

text \<open>
  A machine with one segment and a window of 4 KiB for its BARs; the guest moves the BAR of the panic
  device to the bottom of the window.
\<close>

definition demo_window :: address_allocator where
  "demo_window = \<lparr> aa_base = 0xe8000000, aa_end = 0xe8000fff, aa_ranges = [(0xe8001000, 0)] \<rparr>"

definition demo_am :: "(nat, unit) address_manager" where
  "demo_am =
    \<lparr> am_allocator = the (the (sys_new u64_address_ops 0 0x10000 0xfe000000 0x1000000 [])), am_io_bus = [],
      am_mmio_bus = [(0xfec00000, 0x20, 3)], am_vm = (), am_device_tree = Map.empty,
      am_mmio32 = [demo_window], am_mmio64 = [] \<rparr>"

definition demo_dm :: "(nat, unit) device_manager" where
  "demo_dm = \<lparr> dm_address_manager = demo_am, dm_pci_buses = [pci_bus_new (Some 0)], dm_bus_devices = [] \<rparr>"

lemma demo_alloc:
  "aa_allocate u64_address_ops demo_window None PVPANIC_DEVICE_MMIO_SIZE (Some PVPANIC_DEVICE_MMIO_ALIGNMENT) =
    (Some 0xe8000ff0, demo_window\<lparr> aa_ranges := [(0xe8000ff0, 2), (0xe8001000, 0)] \<rparr>)"
proof -
  have p: "is_power_of_two (16 :: u64)" unfolding is_power_of_two_iff by (rule exI [of _ 4]) simp
  have "first_available_range u64_address_ops demo_window 2 16 = Some 0xe8000ff0"
    by code_simp
  then show ?thesis
    using p by (simp add: aa_allocate_def PVPANIC_DEVICE_MMIO_SIZE_def PVPANIC_DEVICE_MMIO_ALIGNMENT_def demo_window_def)
qed

lemma demo_new:
  "\<exists>d. pvpanic_new std_le I ident bdf None = Some d
    \<and> (let cfg = pv_configuration d in read_reg cfg 1 = 0x103 \<and> length (pc_registers cfg) = 1024
       \<and> length (pc_bars cfg) = 6 \<and> length (pc_writable_bits cfg) = 1024
       \<and> pc_bars cfg ! 0 = default_bar \<and> pc_msix_config cfg = None)"
  by (simp add: pvpanic_new_def pci_configuration_new_def fixup_pending_bar_reprogram_def write_config_register_def
     write_msix_ctl_def write_data_def write_word_def detect_bar_reprogramming_def push_pending_def take_pending_moves_def
     fresh_registers_def fresh_writable_bits_def pvpanic_function_def pci_consts set_register_def merge_register_def
     default_bar_def read_reg_def Let_def)

lemma demo_ready: "dm_ready 7 demo_dm"
  by (auto simp: dm_ready_def demo_dm_def demo_am_def demo_window_def aa_wf_def bus_wf_def window_known_def)

lemma demo_slot:
  "segment_allocate_device_id (dm_pci_buses demo_dm) 0 None =
    Some (Inr 1, [(pci_bus_new (Some 0))\<lparr> pbus_device_ids := [AllocatedId, AllocatedId] @ replicate 30 FreeId \<rparr>])"
  by (simp add: segment_allocate_device_id_def demo_dm_def allocate_device_id_def pci_bus_new_def NUM_DEVICE_IDS_def
      PCI_ROOT_DEVICE_ID_def numeral_eq_Suc)

lemma demo_bar:
  assumes "length (pc_registers cfg) = 1024" "length (pc_bars cfg) = 6" "length (pc_writable_bits cfg) = 1024"
    "pc_bars cfg ! 0 = default_bar"
  shows "\<exists>cfg'. add_pci_bar cfg (pvpanic_bar 0xe8000ff0) = Some (Inr (), cfg')"
proof -
  have pow: "is_power_of_two (2 :: u64)" unfolding is_power_of_two_iff by (rule exI [of _ 1]) simp
  show ?thesis
    using assms pow by (simp add: add_pci_bar_def pvpanic_bar_def PVPANIC_DEVICE_MMIO_SIZE_def pci_consts pci_masks default_bar_def
        checked_add_def bar_set_size_def encode_32_bits_bar_size_def bar_masks_def Let_def)
qed


lemma demo_commit:
  assumes "am_mmio_bus (dm_address_manager dm) = [(0xfec00000, 0x20, 3)]" and "length (dm_pci_buses dm) = 1"
  shows "\<exists>dm'. commit_pci_device (7 :: nat) 0 bdf [pvpanic_bar 0xe8000ff0] dm = Some (Inr (), dm')
    \<and> am_mmio_bus (dm_address_manager dm') = [(0xe8000ff0, 2, 7), (0xfec00000, 0x20, 3)]
    \<and> am_mmio32 (dm_address_manager dm') = am_mmio32 (dm_address_manager dm)"
  using assms by (simp add: commit_pci_device_def pvpanic_bar_def PVPANIC_DEVICE_MMIO_SIZE_def bus_insert_def
      bus_range_overlaps_def bt_get_def Let_def)

lemma demo_add:
  "\<exists>d0 cfg dm'. pvpanic_new std_le I PVPANIC_DEVICE_NAME (bdf_new 0 0 1 0) None = Some d0
    \<and> read_reg (pv_configuration d0) 1 = 0x103 \<and> pc_msix_config (pv_configuration d0) = None
    \<and> add_pci_bar (pv_configuration d0) (pvpanic_bar 0xe8000ff0) = Some (Inr (), cfg)
    \<and> add_pvpanic_device u64_address_ops std_le I 7 None demo_dm
      = Some (Inr (d0\<lparr> pv_configuration := cfg, pv_bar_regions := [pvpanic_bar 0xe8000ff0] \<rparr>), dm')
    \<and> am_mmio_bus (dm_address_manager dm') = [(0xe8000ff0, 2, 7), (0xfec00000, 0x20, 3)]
    \<and> am_mmio32 (dm_address_manager dm') = [demo_window\<lparr> aa_ranges := [(0xe8000ff0, 2), (0xe8001000, 0)] \<rparr>]"
proof -
  from demo_new [of I PVPANIC_DEVICE_NAME "bdf_new 0 0 1 0"] obtain d0 where
    new: "pvpanic_new std_le I PVPANIC_DEVICE_NAME (bdf_new 0 0 1 0) None = Some d0"
      "read_reg (pv_configuration d0) 1 = 0x103" "pc_msix_config (pv_configuration d0) = None"
    and len: "length (pc_registers (pv_configuration d0)) = 1024" "length (pc_bars (pv_configuration d0)) = 6"
      "length (pc_writable_bits (pv_configuration d0)) = 1024" "pc_bars (pv_configuration d0) ! 0 = default_bar"
    by (auto simp: Let_def)
  from demo_bar [OF len] obtain cfg where bar: "add_pci_bar (pv_configuration d0) (pvpanic_bar 0xe8000ff0) = Some (Inr (), cfg)" by blast
  have r: "pci_resources PVPANIC_DEVICE_NAME 0 None demo_dm = Some (Inr (0, bdf_new 0 0 1 0, None), demo_dm\<lparr> dm_pci_buses :=
      [(pci_bus_new (Some 0))\<lparr> pbus_device_ids := [AllocatedId, AllocatedId] @ replicate 30 FreeId \<rparr>] \<rparr>)"
    using demo_slot by (simp add: pci_resources_def) (simp add: demo_dm_def demo_am_def)
  have a: "allocate_pci_bars (pvpanic_allocate_bars u64_address_ops) 0 None d0 demo_am =
    Some (Inr ([pvpanic_bar 0xe8000ff0], [bar_resource (pvpanic_bar 0xe8000ff0)]),
      d0\<lparr> pv_configuration := cfg, pv_bar_regions := [pvpanic_bar 0xe8000ff0] \<rparr>,
      demo_am\<lparr> am_mmio32 := [demo_window\<lparr> aa_ranges := [(0xe8000ff0, 2), (0xe8001000, 0)] \<rparr>] \<rparr>)"
    using bar demo_alloc by (simp add: allocate_pci_bars_def pvpanic_allocate_bars_def demo_am_def Let_def)
  let ?dm = "demo_dm\<lparr> dm_pci_buses := [(pci_bus_new (Some 0))\<lparr> pbus_device_ids := [AllocatedId, AllocatedId] @ replicate 30 FreeId \<rparr>],
    dm_address_manager := demo_am\<lparr> am_mmio32 := [demo_window\<lparr> aa_ranges := [(0xe8000ff0, 2), (0xe8001000, 0)] \<rparr>],
      am_device_tree := (am_device_tree demo_am)(PVPANIC_DEVICE_NAME \<mapsto> (new_device_node PVPANIC_DEVICE_NAME)
        \<lparr> dn_resources := [bar_resource (pvpanic_bar 0xe8000ff0)], dn_pci_bdf := Some (bdf_new 0 0 1 0) \<rparr>) \<rparr> \<rparr>"
  have bus: "am_mmio_bus (dm_address_manager ?dm) = [(0xfec00000, 0x20, 3)]" "length (dm_pci_buses ?dm) = 1"
    and dm: "dm_address_manager demo_dm = demo_am" by (simp_all add: demo_am_def demo_dm_def)
  from demo_commit [OF bus, of "bdf_new 0 0 1 0"] obtain dm' where
    c: "commit_pci_device 7 0 (bdf_new 0 0 1 0) [pvpanic_bar 0xe8000ff0] ?dm = Some (Inr (), dm')"
      "am_mmio_bus (dm_address_manager dm') = [(0xe8000ff0, 2, 7), (0xfec00000, 0x20, 3)]"
      "am_mmio32 (dm_address_manager dm') = am_mmio32 (dm_address_manager ?dm)" by blast
  have "add_pvpanic_device u64_address_ops std_le I 7 None demo_dm
      = Some (Inr (d0\<lparr> pv_configuration := cfg, pv_bar_regions := [pvpanic_bar 0xe8000ff0] \<rparr>), dm')"
    using new(1) a r c(1) dm by (simp add: add_pvpanic_device_def Let_def)
  with new bar c(2,3) show ?thesis by auto
qed

lemma demo_write:
  assumes B: "byteorder_ok B" and new: "layout_ok cfg0" "pc_pending cfg0 = []" "read_reg cfg0 1 = 0x103" "pc_msix_config cfg0 = None"
    and add: "add_pci_bar cfg0 (pvpanic_bar 0xe8000ff0) = Some (Inr (), cfg)"
  shows "\<exists>cfg'. write_config_register B I cfg 4 0 (write_u32 B 0xe8000000) () =
    Some ([\<lparr> rp_bar_idx = Some 0, rp_old_base = 0xe8000ff0, rp_new_base = 0xe8000000, rp_len = 2, rp_region_type = Memory32BitRegion \<rparr>], cfg', ())
    \<and> pc_pending cfg' = []"
proof -
  have wf: "length (pc_registers cfg0) = 1024" "length (pc_writable_bits cfg0) = 1024" "length (pc_bars cfg0) = 6"
    using new(1) by (simp_all add: layout_ok_def pc_wf_def pci_consts)
  have t: "bc_region_type (pvpanic_bar 0xe8000ff0) \<noteq> Memory64BitRegion" by (simp add: pvpanic_bar_def)
  have cfg: "cfg = cfg0\<lparr> pc_registers := (pc_registers cfg0)[4 := 0xe8000ff0], pc_writable_bits := (pc_writable_bits cfg0)[4 := 0xfffffff0],
      pc_bars := (pc_bars cfg0)[0 := \<lparr> bar_addr = 0xe8000ff0, bar_size = - 2, bar_used = True, bar_type = Some Memory32BitRegion \<rparr>] \<rparr>"
    using add_pci_bar_narrow(3) [OF new(1) add t]
    by (simp add: pvpanic_bar_def new_lower_def bar_masks_def addr_bits_def pci_consts pci_masks PVPANIC_DEVICE_MMIO_SIZE_def)
  have b: "read_u32 B (write_u32 B v) = v" "length (write_u32 B v) = 4" for v
    using B by (simp_all add: byteorder_write_read32)
  show ?thesis
    using new wf
    by (simp add: cfg b write_config_register_def write_msix_ctl_def write_data_def write_reg_def is_bar_size_probe_def is_bar_reg_def
        detect_bar_reprogramming_def detect_low_def decode_32_bits_bar_size_def push_pending_def take_pending_moves_def
        memory_space_enabled_def read_reg_def set_register_def set_bar_def pci_consts pci_masks word_gt_0 Let_def)
qed


lemma demo_move:
  "aa_move_range u64_address_ops (demo_window\<lparr> aa_ranges := [(0xe8000ff0, 2), (0xe8001000, 0)] \<rparr>) 0xe8000ff0 0xe8000000 2 (Some 2)
    = (Some 0xe8000000, demo_window\<lparr> aa_ranges := [(0xe8000000, 2), (0xe8001000, 0)] \<rparr>)"
proof -
  have "is_power_of_two (2 :: u64)" unfolding is_power_of_two_iff by (rule exI [of _ 1]) simp
  moreover have "available_range u64_address_ops (demo_window\<lparr> aa_ranges := [(0xe8001000, 0)] \<rparr>) 0xe8000000 2 2 = Inr 0xe8000000"
    by code_simp
  ultimately show ?thesis by (simp add: aa_move_range_def aa_allocate_def bt_get_def demo_window_def)
qed

theorem pvpanic_bar_follows_witness:
  "\<forall>I V. \<exists>d dm' d' am'. add_pvpanic_device u64_address_ops std_le I 7 None demo_dm = Some (Inr d, dm')
    \<and> config_run (am_move_bar u64_address_ops (\<lambda>_. True) (V :: (unit, unit, unit) bar_vm_ops) pvpanic_bar_ops)
        (pvpanic_ops std_le I :: (pv_panic_device, unit) pci_device_ops)
        [(4, 0, write_u32 std_le 0xe8000000)] d (dm_address_manager dm') = Some (d', am')
    \<and> (\<exists>base off. resolve (\<lambda>_. True) (am_mmio_bus am') (bar_base (pv_configuration d') 0) = Some (base, off, 7))"
proof (intro allI)
  fix I and V :: "(unit, unit, unit) bar_vm_ops"
  define R where "R = am_move_bar u64_address_ops (\<lambda>_ :: nat. True) V pvpanic_bar_ops"
  define P where "P = (pvpanic_ops std_le I :: (pv_panic_device, unit) pci_device_ops)"
  let ?w = "[(4, 0, write_u32 std_le 0xe8000000)] :: config_write list"
  from demo_add [of I] obtain d0 cfg dm' where
    new: "pvpanic_new std_le I PVPANIC_DEVICE_NAME (bdf_new 0 0 1 0) None = Some d0" "read_reg (pv_configuration d0) 1 = 0x103"
      "pc_msix_config (pv_configuration d0) = None"
    and bar: "add_pci_bar (pv_configuration d0) (pvpanic_bar 0xe8000ff0) = Some (Inr (), cfg)"
    and add: "add_pvpanic_device u64_address_ops std_le I 7 None demo_dm
      = Some (Inr (d0\<lparr> pv_configuration := cfg, pv_bar_regions := [pvpanic_bar 0xe8000ff0] \<rparr>), dm')"
    and am: "am_mmio_bus (dm_address_manager dm') = [(0xe8000ff0, 2, 7), (0xfec00000, 0x20, 3)]"
      "am_mmio32 (dm_address_manager dm') = [demo_window\<lparr> aa_ranges := [(0xe8000ff0, 2), (0xe8001000, 0)] \<rparr>]" by blast
  let ?d = "d0\<lparr> pv_configuration := cfg, pv_bar_regions := [pvpanic_bar 0xe8000ff0] \<rparr>" and ?am = "dm_address_manager dm'"
  note n = pvpanic_new_config [OF new(1)]
  from demo_write [OF std_le_ok n(1,2) new(2,3) bar] obtain cfg' where w: "write_config_register std_le I cfg 4 0 (write_u32 std_le 0xe8000000) () =
    Some ([\<lparr> rp_bar_idx = Some 0, rp_old_base = 0xe8000ff0, rp_new_base = 0xe8000000, rp_len = 2, rp_region_type = Memory32BitRegion \<rparr>], cfg', ())"
    "pc_pending cfg' = []" by blast
  let ?e = "?d\<lparr> pv_configuration := cfg' \<rparr>"
  have dw: "dev_write_config P 4 0 (write_u32 std_le 0xe8000000) ?d = Some ([\<lparr> rp_bar_idx = Some 0, rp_old_base = 0xe8000ff0,
      rp_new_base = 0xe8000000, rp_len = 2, rp_region_type = Memory32BitRegion \<rparr>], None, ?e)"
    using w by (simp add: P_def pvpanic_ops_def pvpanic_write_config_register_def)
  note sys = add_pvpanic_sys [of u64_address_ops "\<lambda>_. True", OF u64_address_ops_ok _ demo_ready add]
  obtain node where node: "am_device_tree ?am PVPANIC_DEVICE_NAME = Some node"
    "dn_resources node = [PciBarResource 0 0xe8000ff0 2 Mmio32 False]"
    using sys(1,3) by (auto simp: pv_sys_def pv_placed_def pv_base_def pvpanic_bar_def PVPANIC_DEVICE_MMIO_SIZE_def)
  have mv: "\<exists>am'. R 0 0xe8000ff0 0xe8000000 2 Memory32BitRegion ?e ?am = Some (Inr (), pvpanic_move_bar 0 0xe8000000 ?e, am')"
    using sys(3,4) node demo_move
    by (simp add: R_def am_move_bar_def move_ranges_def move_mmio_range_def am pvpanic_bar_ops_def update_device_tree_def move_virtio_def
        update_range_def resolve_def first_before_def bus_remove_def bus_insert_def bus_range_overlaps_def bt_get_def n Let_def)
  then obtain am' where mv: "R 0 0xe8000ff0 0xe8000000 2 Memory32BitRegion ?e ?am = Some (Inr (), pvpanic_move_bar 0 0xe8000000 ?e, am')" by blast
  have run: "config_run R P ?w ?d ?am = Some (pvpanic_move_bar 0 0xe8000000 ?e, am')"
    using dw mv by (simp add: device_config_write_def)
  have ok: "run_ok R P pv_configuration ?w ?d ?am"
    using dw w run by (simp add: write_ok_def bar_write_safe_def pci_consts)
  have "pc_pending (pv_configuration (pvpanic_move_bar 0 0xe8000000 ?e)) = []" using w by (simp add: pvpanic_move_bar_def)
  from pvpanic_bar_follows [of u64_address_ops "\<lambda>_. True", OF u64_address_ops_ok _ demo_ready add R_def P_def ok run this]
  have "\<exists>base off. resolve (\<lambda>_. True) (am_mmio_bus am') (bar_base (pv_configuration (pvpanic_move_bar 0 0xe8000000 ?e)) 0) = Some (base, off, 7)"
    by (simp add: Let_def in_range_def PVPANIC_DEVICE_MMIO_SIZE_def)
  with add run show "\<exists>d dm' d' am'. add_pvpanic_device u64_address_ops std_le I 7 None demo_dm = Some (Inr d, dm')
    \<and> config_run (am_move_bar u64_address_ops (\<lambda>_. True) V pvpanic_bar_ops) (pvpanic_ops std_le I :: (pv_panic_device, unit) pci_device_ops)
        ?w d (dm_address_manager dm') = Some (d', am')
    \<and> (\<exists>base off. resolve (\<lambda>_. True) (am_mmio_bus am') (bar_base (pv_configuration d') 0) = Some (base, off, 7))"
    unfolding R_def P_def by blast
qed

section \<open>Restoring the device\<close>

text \<open>
  A device that is restored gets a new BAR wherever the allocator puts it: the resources of the
  device tree are not looked at, and the configuration keeps the address of the snapshot.
\<close>

lemma pvpanic_restore_ignores_resources:
  assumes "aa_allocate A al None PVPANIC_DEVICE_MMIO_SIZE (Some PVPANIC_DEVICE_MMIO_ALIGNMENT) = (Some base, al')"
  shows "pvpanic_allocate_bars A (Some rs) d al = Some (Inr [pvpanic_bar base], d\<lparr> pv_bar_regions := [pvpanic_bar base] \<rparr>, al')"
  using assms by (simp add: pvpanic_allocate_bars_def Let_def)

text \<open>
  A snapshot taken while the guest has moved the BAR with memory decoding off cannot be restored: the
  write of the command register releases the move, which the constructor does not expect.
\<close>

lemma pvpanic_restore_pending_panics:
  assumes inv: "bars_inv cfg loc" and pend: "pc_pending cfg \<noteq> []" and cmd: "pc_writable_bits cfg ! 1 = 0xffff"
  shows "pvpanic_new B I ident bdf (Some \<lparr> pvs_events = e, pvs_configuration = Some (pci_state cfg) \<rparr>) = None"
proof -
  have len: "length (pc_registers cfg) = 1024" using inv by (simp add: bars_inv_def layout_ok_def pc_wf_def pci_consts)
  have bit: "merge_register r 0xffff 0xffff 0x103 AND 2 = 2" for r
  proof -
    have "(2 :: u32) = push_bit 1 1" by simp
    moreover have "bit (0x103 :: u32) 1" "bit (0xffff :: u32) 1" by code_simp+
    then have "bit (merge_register r 0xffff 0xffff 0x103) 1" by (simp add: merge_register_def bit_simps)
    ultimately show ?thesis
      by (intro bit_word_eqI) (auto simp: bit_simps)
  qed
  show ?thesis
    using restore_state [OF inv, of pvpanic_function None] pend cmd len bit
    by (simp add: pvpanic_new_def write_config_register_def write_msix_ctl_def write_data_def write_word_def
        detect_bar_reprogramming_def push_pending_def take_pending_moves_def memory_space_enabled_def read_reg_def
        set_register_def pci_consts pci_masks Let_def)
qed

end
