(* ===== verification/Spec2Isabelle.thy ===== *)
theory Spec2Isabelle
  imports Ioapic Serial GuestCredit Msi MsixTable MsixRoutes DeviceBus RateLimiter PciCaps PciAccess PvPanic
begin

text \<open>
  Verification library for the Cloud Hypervisor virtual machine monitor.
\<close>

end
